(* ===== verification/Prelude.thy ===== *)
theory Prelude
  imports "HOL-Library.Word" "HOL-Library.AList" "HOL-Library.List_Lexorder" "HOL-Library.Char_ord"
    "HOL-Library.Sublist"
begin

text \<open>
  What every component of the service shares: the Go values that have no component of their
  own (times and durations of package time, the sentinel errors of internal/store and
  internal/access with errors.Is, decimal formatting and parsing of package strconv and fmt),
  and generic lemmas on association lists and sorting.

  A time.Time in UTC is its number of nanoseconds since the Unix epoch, an unbounded integer
  (Go's wall clock covers far more than the 64 bits of a Duration); a time.Duration is a
  64-bit word, so that sums of configured durations wrap as they do in Go.
\<close>

named_theorems go_defs \<open>definitions of small Go helpers, unfolded together\<close>

section \<open>Times and durations\<close>

type_synonym time = int
type_synonym duration = "64 word"

definition zero_time :: time where
  "zero_time = -62135596800000000000"

definition time_add :: "time \<Rightarrow> duration \<Rightarrow> time" where
  "time_add t d = t + sint d"

definition before :: "time \<Rightarrow> time \<Rightarrow> bool" where
  "before a b \<longleftrightarrow> a < b"

definition second :: duration where
  "second = 1000000000"

definition minute :: duration where
  "minute = 60 * second"

lemma sint_second [simp]: "sint second = 1000000000"
  by (simp add: second_def)

text \<open>time.Time.Sub saturates at the smallest and the largest Duration.\<close>

definition time_sub :: "time \<Rightarrow> time \<Rightarrow> int" where
  "time_sub a b = max (- (2 ^ 63)) (min (2 ^ 63 - 1) (a - b))"

section \<open>Errors\<close>

text \<open>
  The sentinels of internal/store/store.go (\<open>Store...\<close>) and of internal/access; the two
  packages each have a not-found and a conflict of their own, and they are different values.
  \<open>ErrOther\<close> is an error of a library or an errors.New at its place of use, \<open>Wrapped\<close> is
  fmt.Errorf with the verb percent-w, \<open>Joined\<close> is errors.Join. \<open>OutOfFuel\<close> is no error of
  the program: it is what a bounded unfolding of an unbounded retry yields when it stops.
\<close>

datatype err =
    StoreNotFound | StoreConflict | StoreExists
  | ErrNotFound | ErrForbidden | ErrConflict | ErrCapacity | ErrAdmissionClosed
  | ErrSessionExpired | ErrEventPaused | ErrEventDeleted | ErrCleanupPending
  | ErrOther string
  | Wrapped string err
  | Joined "err list"
  | OutOfFuel

text \<open>
  errors.Is: the error itself, or anything it wraps. \<open>ErrEventPaused\<close> is built with
  percent-w around \<open>ErrAdmissionClosed\<close>.
\<close>

fun errors_is :: "err \<Rightarrow> err \<Rightarrow> bool" where
  "errors_is ErrEventPaused t \<longleftrightarrow> t = ErrEventPaused \<or> t = ErrAdmissionClosed"
| "errors_is (Wrapped m e) t \<longleftrightarrow> t = Wrapped m e \<or> errors_is e t"
| "errors_is (Joined es) t \<longleftrightarrow> t = Joined es \<or> (\<exists>e\<in>set es. errors_is e t)"
| "errors_is e t \<longleftrightarrow> t = e"

lemma errors_is_refl [simp]: "errors_is e e"
  by (cases e) auto

text \<open>errors.Join of two results drops the nil ones; it is nil when both are.\<close>

definition errors_join :: "err option \<Rightarrow> err option \<Rightarrow> err option" where
  "errors_join a b =
     (let es = (case a of None \<Rightarrow> [] | Some e \<Rightarrow> [e]) @ (case b of None \<Rightarrow> [] | Some e \<Rightarrow> [e])
      in if es = [] then None else Some (Joined es))"

text \<open>A step whose error is returned at once, outside the effects of the service.\<close>

definition bind_err :: "err + 'a \<Rightarrow> ('a \<Rightarrow> err + 'b) \<Rightarrow> err + 'b" where
  "bind_err r f = (case r of Inl e \<Rightarrow> Inl e | Inr x \<Rightarrow> f x)"

lemma bind_err_Inr [simp]: "bind_err r f = Inr y \<longleftrightarrow> (\<exists>x. r = Inr x \<and> f x = Inr y)"
  by (auto simp: bind_err_def split: sum.splits)

lemma bind_err_simps: "bind_err (Inr x) f = f x" "bind_err (Inl e) f = Inl e"
  by (simp_all add: bind_err_def)

section \<open>Decimal numbers\<close>

definition digit :: "nat \<Rightarrow> char" where
  "digit n = ''0123456789'' ! n"

fun decimal :: "nat \<Rightarrow> string" where
  "decimal n = (if n < 10 then [digit n] else decimal (n div 10) @ [digit (n mod 10)])"

declare decimal.simps [simp del]

text \<open>strconv.Itoa.\<close>

definition itoa :: "int \<Rightarrow> string" where
  "itoa n = (if n < 0 then ''-'' @ decimal (nat (- n)) else decimal (nat n))"

text \<open>fmt's percent-03d: zero-padded to three characters, the sign counted.\<close>

definition pad_left :: "nat \<Rightarrow> string \<Rightarrow> string" where
  "pad_left w s = replicate (w - length s) (CHR ''0'') @ s"

definition format_03d :: "int \<Rightarrow> string" where
  "format_03d n = (if n < 0 then ''-'' @ pad_left 2 (decimal (nat (- n))) else pad_left 3 (decimal (nat n)))"

text \<open>strconv.Atoi: an optional sign, then at least one digit and nothing else, within 64 bits.\<close>

definition digit_val :: "char \<Rightarrow> nat option" where
  "digit_val c = (if of_char c \<in> {48..<58 :: nat} then Some (of_char c - 48) else None)"

fun parse_digits :: "nat \<Rightarrow> string \<Rightarrow> nat option" where
  "parse_digits acc [] = Some acc"
| "parse_digits acc (c # cs) =
     (case digit_val c of None \<Rightarrow> None | Some d \<Rightarrow> parse_digits (10 * acc + d) cs)"

definition atoi :: "string \<Rightarrow> err + int" where
  "atoi s =
     (let (neg, ds) = (case s of [] \<Rightarrow> (False, [])
                        | c # cs \<Rightarrow> if c = CHR ''-'' then (True, cs)
                                  else if c = CHR ''+'' then (False, cs) else (False, s))
      in if ds = [] then Inl (ErrOther ''invalid syntax'')
         else case parse_digits 0 ds of
           None \<Rightarrow> Inl (ErrOther ''invalid syntax'')
         | Some n \<Rightarrow>
             let v = (if neg then - int n else int n)
             in if - (2 ^ 63) \<le> v \<and> v < 2 ^ 63 then Inr v else Inl (ErrOther ''value out of range''))"

lemma digit_cases: "n < 10 \<Longrightarrow> n = 0 \<or> n = 1 \<or> n = 2 \<or> n = 3 \<or> n = 4 \<or> n = 5 \<or> n = 6 \<or> n = 7 \<or> n = 8 \<or> n = (9 :: nat)"
  by arith

lemma digit_val_digit [simp]: "n < 10 \<Longrightarrow> digit_val (digit n) = Some n"
  by (drule digit_cases) (auto simp: digit_def digit_val_def)

lemma digit_ne:
  "n < 10 \<Longrightarrow> digit n \<noteq> CHR ''.'' \<and> digit n \<noteq> CHR ''-'' \<and> digit n \<noteq> CHR ''+''"
  by (drule digit_cases) (auto simp: digit_def)

lemma parse_digits_append:
  "parse_digits acc (xs @ ys) =
     (case parse_digits acc xs of None \<Rightarrow> None | Some n \<Rightarrow> parse_digits n ys)"
  by (induction xs arbitrary: acc) (auto split: option.splits)

lemma parse_digits_decimal: "parse_digits 0 (decimal n) = Some n"
proof (induction n rule: decimal.induct)
  case (1 n)
  then show ?case
    by (subst decimal.simps) (auto simp: parse_digits_append)
qed

lemma parse_digits_zeros [simp]: "parse_digits 0 (replicate k (CHR ''0'') @ s) = parse_digits 0 s"
  by (induction k) (auto simp: digit_val_def)

lemma decimal_nonempty [simp]: "decimal n \<noteq> []"
  by (subst decimal.simps) simp

lemma decimal_chars: "set (decimal n) \<subseteq> digit ` {..<10}"
proof (induction n rule: decimal.induct)
  case (1 n)
  then show ?case
    by (subst decimal.simps) auto
qed

lemma decimal_not_special:
  "CHR ''.'' \<notin> set (decimal n)" "CHR ''-'' \<notin> set (decimal n)" "CHR ''+'' \<notin> set (decimal n)"
  using decimal_chars [of n] digit_ne by force+

lemma format_03d_no_dot [simp]: "CHR ''.'' \<notin> set (format_03d n)"
  by (auto simp: format_03d_def pad_left_def decimal_not_special)

lemma atoi_format_03d:
  assumes "0 \<le> n" "n < 2 ^ 63"
  shows "atoi (format_03d n) = Inr n"
proof -
  let ?s = "format_03d n"
  have s: "?s = pad_left 3 (decimal (nat n))"
    using assms by (simp add: format_03d_def)
  have no_sign: "CHR ''-'' \<notin> set ?s" "CHR ''+'' \<notin> set ?s"
    by (auto simp: s pad_left_def decimal_not_special)
  obtain c cs where cons: "?s = c # cs"
    by (cases ?s) (auto simp: s pad_left_def)
  have "parse_digits 0 (c # cs) = Some (nat n)"
    using parse_digits_decimal [of "nat n"] by (simp add: cons [symmetric] s pad_left_def)
  with no_sign assms show ?thesis
    unfolding cons atoi_def by (auto simp: Let_def)
qed

lemma atoi_itoa:
  assumes "- (2 ^ 63) \<le> n" "n < 2 ^ 63"
  shows "atoi (itoa n) = Inr n"
proof (cases "n < 0")
  case True
  with assms show ?thesis by (simp add: itoa_def atoi_def parse_digits_decimal)
next
  case False
  obtain c cs where cons: "decimal (nat n) = c # cs" by (cases "decimal (nat n)") auto
  with decimal_not_special [of "nat n"] have "c \<noteq> CHR ''-''" "c \<noteq> CHR ''+''" by auto
  with False assms parse_digits_decimal [of "nat n"] show ?thesis by (auto simp: itoa_def atoi_def cons Let_def)
qed

lemma format_03d_inj:
  assumes "format_03d m = format_03d n" "0 \<le> m" "0 \<le> n"
  shows "m = n"
proof -
  have "parse_digits 0 (format_03d k) = Some (nat k)" if "0 \<le> k" for k
    using that parse_digits_decimal [of "nat k"] by (simp add: format_03d_def pad_left_def)
  with assms show ?thesis
    by (metis eq_nat_nat_iff option.inject)
qed

section \<open>Association lists\<close>

lemma map_of_update [simp]: "map_of (AList.update k v xs) = (map_of xs)(k \<mapsto> v)"
  by (rule AList.update_conv')

lemma map_of_delete [simp]: "map_of (AList.delete k xs) = (map_of xs)(k := None)"
  by (rule AList.delete_conv')

lemma distinct_fst_filter: "distinct (map fst xs) \<Longrightarrow> distinct (map fst (filter P xs))"
  by (induction xs) auto

lemma map_of_filter_fst:
  "distinct (map fst xs) \<Longrightarrow>
   map_of (filter (\<lambda>(k, v). P k) xs) k = (if P k then map_of xs k else None)"
  by (induction xs) (auto simp: map_of_eq_None_iff dest: weak_map_of_SomeI)

end
