(* ===== verification/Model.thy ===== *)
theory Model
  imports Prelude
begin

text \<open>
  The persisted data of internal/model/model.go: events, slots, session indexes, deletion
  receipts and cleanup progress, and the values the store holds for them.

  A Go map from presenter to capabilities is an association list with the lookup
  \<open>map_of\<close>; a nil and an empty map have the same lookups. A value of the store is the JSON
  encoding of one of four structs, or the raw event id of an invitation: \<open>val\<close> has one
  constructor for each, so that decoding what was encoded gives it back. Decoding a document of
  another kind is a failure here (Go would leave the fields it does not find at zero); theorem
  store_well_keyed of theory Guarantees shows that the service never does it, since every key
  holds the kind of document its prefix names.
\<close>

section \<open>Records of model.go\<close>

datatype event_state = Draft | Open | Paused | Deleting | Deleted

datatype capability = CapOperate | CapInspect | CapDelete | CapOther string

record progress =
  pg_ID :: string
  pg_Attempts :: int
  pg_StartedAt :: time
  pg_NextAttemptAt :: time
  pg_LastError :: string

record event =
  ev_Cleanup :: "progress option"
  ev_DeletedBySubject :: string
  ev_ID :: string
  ev_ApplicationID :: string
  ev_Name :: string
  ev_OwnerSubject :: string
  ev_Capacity :: int
  ev_InspectLive :: bool
  ev_State :: event_state
  ev_InvitationDigest :: string
  ev_DeletionID :: string
  ev_Cohosts :: "(string \<times> capability list) list"
  ev_CreatedAt :: time
  ev_UpdatedAt :: time

record slot =
  sl_Cleanup :: "progress option"
  sl_EventID :: string
  sl_Number :: int
  sl_Generation :: string
  sl_Subject :: string
  sl_ResumeDigest :: string
  sl_Reserved :: bool
  sl_LeaseExpiresAt :: time
  sl_GraceExpiresAt :: time
  sl_CreatedAt :: time
  sl_LastSeenAt :: time

record session_index =
  ix_Deleted :: bool
  ix_EventID :: string
  ix_Slot :: int

record receipt =
  rc_DeletionID :: string
  rc_EventID :: string
  rc_ApplicationID :: string
  rc_OwnerSubject :: string
  rc_DeletedBySubject :: string
  rc_CreatedAt :: time
  rc_DeletedAt :: time
  rc_IdentitiesDeleted :: int

section \<open>Store values\<close>

datatype val =
    VEvent event
  | VSlot slot
  | VIndex session_index
  | VReceipt receipt
  | VText string

definition json_error :: err where
  "json_error = ErrOther ''json: cannot unmarshal''"

definition decode_event :: "val \<Rightarrow> err + event" where
  "decode_event v = (case v of VEvent e \<Rightarrow> Inr e | _ \<Rightarrow> Inl json_error)"

definition decode_slot :: "val \<Rightarrow> err + slot" where
  "decode_slot v = (case v of VSlot s \<Rightarrow> Inr s | _ \<Rightarrow> Inl json_error)"

definition decode_index :: "val \<Rightarrow> err + session_index" where
  "decode_index v = (case v of VIndex i \<Rightarrow> Inr i | _ \<Rightarrow> Inl json_error)"

definition decode_receipt :: "val \<Rightarrow> err + receipt" where
  "decode_receipt v = (case v of VReceipt r \<Rightarrow> Inr r | _ \<Rightarrow> Inl json_error)"

text \<open>The bytes of an invitation entry, read as a string.\<close>

definition text_of :: "val \<Rightarrow> string" where
  "text_of v = (case v of VText s \<Rightarrow> s | _ \<Rightarrow> '''')"

lemma decode_simps [simp]:
  "decode_event v = Inr e \<longleftrightarrow> v = VEvent e"
  "decode_slot v = Inr s \<longleftrightarrow> v = VSlot s"
  "decode_index v = Inr i \<longleftrightarrow> v = VIndex i"
  "decode_receipt v = Inr r \<longleftrightarrow> v = VReceipt r"
  by (auto simp: decode_event_def decode_slot_def decode_index_def decode_receipt_def
      split: val.splits)

lemma decode_encode [simp]:
  "decode_event (VEvent e) = Inr e"
  "decode_slot (VSlot s) = Inr s"
  "decode_index (VIndex i) = Inr i"
  "decode_receipt (VReceipt r) = Inr r"
  "text_of (VText t) = t"
  by (simp_all add: text_of_def)

lemma decode_InlD [simp]:
  "decode_event v = Inl e \<Longrightarrow> e = json_error"
  "decode_slot v = Inl e \<Longrightarrow> e = json_error"
  "decode_index v = Inl e \<Longrightarrow> e = json_error"
  "decode_receipt v = Inl e \<Longrightarrow> e = json_error"
  by (auto simp: decode_event_def decode_slot_def decode_index_def decode_receipt_def
      split: val.splits)

section \<open>Store keys (service.go)\<close>

definition eventKey :: "string \<Rightarrow> string" where
  "eventKey eid = ''event.'' @ eid"

definition invitationKey :: "string \<Rightarrow> string" where
  "invitationKey digest = ''invitation.'' @ digest"

definition sessionKey :: "string \<Rightarrow> string" where
  "sessionKey digest = ''session.'' @ digest"

definition slotKey :: "string \<Rightarrow> int \<Rightarrow> string" where
  "slotKey eventID number = ''slot.'' @ eventID @ ''.'' @ format_03d number"

definition receiptKey :: "string \<Rightarrow> string" where
  "receiptKey eventID = ''receipt.'' @ eventID"

text \<open>The prefix under which the slots of an event are listed.\<close>

definition slotPrefix :: "string \<Rightarrow> string" where
  "slotPrefix eventID = ''slot.'' @ eventID @ ''.''"

lemmas key_defs = eventKey_def invitationKey_def sessionKey_def slotKey_def receiptKey_def slotPrefix_def

lemma key_inj [simp]:
  "eventKey a = eventKey b \<longleftrightarrow> a = b"
  "invitationKey a = invitationKey b \<longleftrightarrow> a = b"
  "sessionKey a = sessionKey b \<longleftrightarrow> a = b"
  "receiptKey a = receiptKey b \<longleftrightarrow> a = b"
  by (auto simp: key_defs)

lemma key_distinct [simp]:
  "eventKey a \<noteq> invitationKey b" "invitationKey b \<noteq> eventKey a"
  "eventKey a \<noteq> sessionKey b" "sessionKey b \<noteq> eventKey a"
  "eventKey a \<noteq> slotKey b n" "slotKey b n \<noteq> eventKey a"
  "eventKey a \<noteq> receiptKey b" "receiptKey b \<noteq> eventKey a"
  "invitationKey a \<noteq> sessionKey b" "sessionKey b \<noteq> invitationKey a"
  "invitationKey a \<noteq> slotKey b n" "slotKey b n \<noteq> invitationKey a"
  "invitationKey a \<noteq> receiptKey b" "receiptKey b \<noteq> invitationKey a"
  "sessionKey a \<noteq> slotKey b n" "slotKey b n \<noteq> sessionKey a"
  "sessionKey a \<noteq> receiptKey b" "receiptKey b \<noteq> sessionKey a"
  "slotKey a n \<noteq> receiptKey b" "receiptKey b \<noteq> slotKey a n"
  by (auto simp: key_defs)

lemma prefix_keys [simp]:
  "prefix (slotPrefix e) (slotKey e n)"
  "\<not> prefix (slotPrefix e) (eventKey a)" "\<not> prefix (slotPrefix e) (invitationKey a)"
  "\<not> prefix (slotPrefix e) (sessionKey a)" "\<not> prefix (slotPrefix e) (receiptKey a)"
  by (auto simp: key_defs)

lemma prefix_receipt [simp]:
  "prefix ''receipt.'' (receiptKey e)"
  "\<not> prefix ''receipt.'' (eventKey a)" "\<not> prefix ''receipt.'' (invitationKey a)"
  "\<not> prefix ''receipt.'' (sessionKey a)" "\<not> prefix ''receipt.'' (slotKey a n)"
  by (auto simp: key_defs)

lemma prefix_event [simp]:
  "prefix ''event.'' (eventKey e)"
  "\<not> prefix ''event.'' (receiptKey a)" "\<not> prefix ''event.'' (invitationKey a)"
  "\<not> prefix ''event.'' (sessionKey a)" "\<not> prefix ''event.'' (slotKey a n)"
  by (auto simp: key_defs)

lemma append_dot_inj:
  assumes "xs @ CHR ''.'' # us = ys @ CHR ''.'' # vs"
    and "CHR ''.'' \<notin> set us" "CHR ''.'' \<notin> set vs"
  shows "xs = ys \<and> us = vs"
proof -
  from assms(1) consider zs where "xs = ys @ zs" "zs @ CHR ''.'' # us = CHR ''.'' # vs"
    | zs where "ys = xs @ zs" "CHR ''.'' # us = zs @ CHR ''.'' # vs"
    by (auto simp: append_eq_append_conv2)
  then show ?thesis
    using assms(2,3) by cases (auto simp: append_eq_Cons_conv Cons_eq_append_conv)
qed

lemma slotKey_inj:
  assumes "slotKey a m = slotKey b n" "0 \<le> m" "0 \<le> n"
  shows "a = b \<and> m = n"
proof -
  from assms(1) have "a @ CHR ''.'' # format_03d m = b @ CHR ''.'' # format_03d n"
    by (simp add: slotKey_def)
  then have "a = b \<and> format_03d m = format_03d n"
    by (rule append_dot_inj) simp_all
  with assms(2,3) show ?thesis
    by (auto dest: format_03d_inj)
qed

text \<open>
  Listing the slots of an event by prefix finds the slots of no other event, as long as event
  ids have no dot in them (they are UUIDs).
\<close>

lemma prefix_slotKey:
  assumes "CHR ''.'' \<notin> set a" "CHR ''.'' \<notin> set b"
  shows "prefix (slotPrefix a) (slotKey b n) \<longleftrightarrow> a = b"
proof
  assume "prefix (slotPrefix a) (slotKey b n)"
  then obtain zs where eq: "a @ CHR ''.'' # zs = b @ CHR ''.'' # format_03d n"
    by (auto simp: slotKey_def slotPrefix_def prefix_def)
  then consider us where "a = b @ us" "us @ CHR ''.'' # zs = CHR ''.'' # format_03d n"
    | us where "b = a @ us" "CHR ''.'' # zs = us @ CHR ''.'' # format_03d n"
    by (auto simp: append_eq_append_conv2)
  then show "a = b"
    using assms by cases (auto simp: append_eq_Cons_conv Cons_eq_append_conv)
next
  assume "a = b"
  then show "prefix (slotPrefix a) (slotKey b n)" by simp
qed

section \<open>Authorization (service.go)\<close>

text \<open>\<open>event.Cohosts[principal]\<close>: nil when absent.\<close>

definition cohost_caps :: "event \<Rightarrow> string \<Rightarrow> capability list option" where
  "cohost_caps ev p = map_of (ev_Cohosts ev) p"

definition can :: "event \<Rightarrow> string \<Rightarrow> capability \<Rightarrow> bool" where
  "can ev pr c \<longleftrightarrow>
     ev_OwnerSubject ev = pr \<or>
     (case cohost_caps ev pr of None \<Rightarrow> False | Some caps \<Rightarrow> c \<in> set caps)"

text \<open>
  Who sees an event. The code tests whether the list of the cohost is nil, which an absent key is;
  a key with a nil list would be one too, but SetCohost removes the key instead of storing an
  empty list, so the two tests agree on what the service writes.
\<close>

definition can_see :: "event \<Rightarrow> string \<Rightarrow> bool" where
  "can_see ev pr \<longleftrightarrow> ev_OwnerSubject ev = pr \<or> cohost_caps ev pr \<noteq> None"

lemma can_imp_can_see: "can ev p c \<Longrightarrow> can_see ev p"
  by (auto simp: can_def can_see_def split: option.splits)

definition validTransition :: "event_state \<Rightarrow> event_state \<Rightarrow> bool" where
  "validTransition f t \<longleftrightarrow>
     (f = Draft \<and> t = Open) \<or> (f = Open \<and> t = Paused) \<or> (f = Paused \<and> t = Open)"

lemma validTransition_live: "validTransition f t \<Longrightarrow> f \<in> {Draft, Open, Paused} \<and> t \<in> {Open, Paused}"
  by (auto simp: validTransition_def)

end
