(* ===== verification/Store.thy ===== *)
theory Store
  imports Model
begin

text \<open>
  The key-value store of internal/store: the in-memory implementation (memory.go) and the
  contract of the Store interface (store.go) that every caller relies on, as two locales: what
  holds of every implementation, with other writers and faults, and the stronger one of Memory.
  A revision is Go's uint64 counter, here a natural number: it is bumped once per write and does
  not reach 2 to the 64.

  A Go map has no order; the entries are an association list with distinct keys, and what List
  returns is a list in some order.
\<close>

section \<open>Memory (memory.go)\<close>

record entry =
  en_Value :: val
  en_Revision :: nat

record memory =
  me_revision :: nat
  me_entries :: "(string \<times> entry) list"

definition NewMemory :: memory where
  "NewMemory = \<lparr>me_revision = 0, me_entries = []\<rparr>"

definition mem_get :: "memory \<Rightarrow> string \<Rightarrow> err + entry" where
  "mem_get m key =
     (case map_of (me_entries m) key of None \<Rightarrow> Inl StoreNotFound | Some en \<Rightarrow> Inr en)"

definition mem_create :: "memory \<Rightarrow> string \<Rightarrow> val \<Rightarrow> (err + nat) \<times> memory" where
  "mem_create m key value =
     (case map_of (me_entries m) key of
        Some _ \<Rightarrow> (Inl StoreExists, m)
      | None \<Rightarrow>
          let r = me_revision m + 1
          in (Inr r, m\<lparr>me_revision := r,
                        me_entries := AList.update key \<lparr>en_Value = value, en_Revision = r\<rparr> (me_entries m)\<rparr>))"

definition mem_update :: "memory \<Rightarrow> string \<Rightarrow> val \<Rightarrow> nat \<Rightarrow> (err + nat) \<times> memory" where
  "mem_update m key value revision =
     (case map_of (me_entries m) key of
        None \<Rightarrow> (Inl StoreNotFound, m)
      | Some en \<Rightarrow>
          if en_Revision en \<noteq> revision then (Inl StoreConflict, m)
          else
            let r = me_revision m + 1
            in (Inr r, m\<lparr>me_revision := r,
                          me_entries := AList.update key \<lparr>en_Value = value, en_Revision = r\<rparr> (me_entries m)\<rparr>))"

definition mem_delete :: "memory \<Rightarrow> string \<Rightarrow> (err + unit) \<times> memory" where
  "mem_delete m key =
     (case map_of (me_entries m) key of
        None \<Rightarrow> (Inl StoreNotFound, m)
      | Some _ \<Rightarrow> (Inr (), m\<lparr>me_entries := AList.delete key (me_entries m)\<rparr>))"

definition mem_delete_revision :: "memory \<Rightarrow> string \<Rightarrow> nat \<Rightarrow> (err + unit) \<times> memory" where
  "mem_delete_revision m key revision =
     (case map_of (me_entries m) key of
        None \<Rightarrow> (Inl StoreNotFound, m)
      | Some en \<Rightarrow>
          if en_Revision en \<noteq> revision then (Inl StoreConflict, m)
          else (Inr (), m\<lparr>me_entries := AList.delete key (me_entries m)\<rparr>))"

definition mem_list :: "memory \<Rightarrow> string \<Rightarrow> (string \<times> entry) list" where
  "mem_list m pre = filter (\<lambda>(key, en). prefix pre key) (me_entries m)"

lemmas mem_defs = mem_get_def mem_create_def mem_update_def mem_delete_def
  mem_delete_revision_def mem_list_def

text \<open>The entry a key has, and the invariant of the representation.\<close>

definition mem_at :: "memory \<Rightarrow> string \<Rightarrow> entry option" where
  "mem_at m key = map_of (me_entries m) key"

definition mem_wf :: "memory \<Rightarrow> bool" where
  "mem_wf m \<longleftrightarrow> distinct (map fst (me_entries m)) \<and>
     (\<forall>(key, en) \<in> set (me_entries m). 0 < en_Revision en \<and> en_Revision en \<le> me_revision m)"

lemma mem_wf_at: "mem_wf m \<Longrightarrow> mem_at m key = Some en \<Longrightarrow> 0 < en_Revision en \<and> en_Revision en \<le> me_revision m"
  by (force simp: mem_wf_def mem_at_def dest: map_of_SomeD)

lemma set_update_subset: "set (AList.update k v xs) \<subseteq> insert (k, v) (set xs)"
  by (induction xs) auto

lemma set_delete_subset: "set (AList.delete k xs) \<subseteq> set xs"
  by (auto simp: AList.delete_eq)

text \<open>Memory counts its revisions one by one and lists under any prefix.\<close>

lemma mem_revisions:
  "mem_create m k v = (Inr r, m') \<Longrightarrow> r = me_revision m + 1 \<and> me_revision m' = r"
  "mem_update m k v n = (Inr r, m') \<Longrightarrow> r = me_revision m + 1 \<and> me_revision m' = r"
  "mem_delete m k = (Inr u, m') \<Longrightarrow> me_revision m' = me_revision m"
  "mem_delete_revision m k n = (Inr u, m') \<Longrightarrow> me_revision m' = me_revision m"
  by (auto simp: mem_defs Let_def split: option.splits if_splits)

lemma mem_listing_at: "mem_wf s \<Longrightarrow> (k, en) \<in> set (mem_list s p) \<longleftrightarrow> prefix p k \<and> mem_at s k = Some en"
  by (auto simp: mem_list_def mem_at_def mem_wf_def)

lemma mem_listing_distinct: "mem_wf s \<Longrightarrow> distinct (map fst (mem_list s p))"
  by (simp add: mem_list_def mem_wf_def distinct_fst_filter)

section \<open>A store that others write to and that may fail\<close>

text \<open>
  What a write and a deletion do to a key: over the entry \<open>at s k\<close> a key \<open>k\<close> has in a state \<open>s\<close>, the
  revision \<open>newest s k\<close> a write that expects one is compared with (that of the entry, or 0 or what a
  deletion left behind), and the number \<open>issued s\<close> no revision issued so far exceeds.
\<close>

definition put_at :: "('s \<Rightarrow> nat) \<Rightarrow> ('s \<Rightarrow> string \<Rightarrow> nat) \<Rightarrow> ('s \<Rightarrow> string \<Rightarrow> entry option) \<Rightarrow> 's \<Rightarrow> string \<Rightarrow> val \<Rightarrow> nat \<Rightarrow> 's \<Rightarrow> bool" where
  "put_at issued newest at s k v r s' \<longleftrightarrow> issued s < r \<and> r \<le> issued s' \<and> newest s' = (newest s)(k := r) \<and>
     at s' = (at s)(k \<mapsto> \<lparr>en_Value = v, en_Revision = r\<rparr>)"

definition gone_at :: "('s \<Rightarrow> nat) \<Rightarrow> ('s \<Rightarrow> string \<Rightarrow> nat) \<Rightarrow> ('s \<Rightarrow> string \<Rightarrow> entry option) \<Rightarrow> 's \<Rightarrow> string \<Rightarrow> 's \<Rightarrow> bool" where
  "gone_at issued newest at s k s' \<longleftrightarrow> issued s \<le> issued s' \<and>
     (\<exists>r. (r = 0 \<or> issued s < r \<and> r \<le> issued s') \<and> newest s' = (newest s)(k := r)) \<and> at s' = (at s)(k := None)"

text \<open>One write by anybody, with its faults.\<close>

definition store_write ::
  "(string \<Rightarrow> bool) \<Rightarrow> ('s \<Rightarrow> string \<Rightarrow> val \<Rightarrow> (err + nat) \<times> 's) \<Rightarrow> ('s \<Rightarrow> string \<Rightarrow> val \<Rightarrow> nat \<Rightarrow> (err + nat) \<times> 's) \<Rightarrow>
   ('s \<Rightarrow> string \<Rightarrow> (err + unit) \<times> 's) \<Rightarrow> ('s \<Rightarrow> string \<Rightarrow> nat \<Rightarrow> (err + unit) \<times> 's) \<Rightarrow> 's \<Rightarrow> 's \<Rightarrow> bool" where
  "store_write valid create update remove remove_rev s s' \<longleftrightarrow>
     (\<exists>k. valid k \<and> ((\<exists>v. s' = snd (create s k v)) \<or> (\<exists>v n. s' = snd (update s k v n)) \<or>
        s' = snd (remove s k) \<or> (\<exists>n. s' = snd (remove_rev s k n))))"

text \<open>
  The contract that every implementation keeps. In a state with \<open>up s\<close> the store can be reached;
  in any other an operation may fail with an error of its own, and a failed write may have
  happened all the same. The listing reads the keys one after the other, in states \<open>ss 0\<close>,
  \<open>ss 1\<close> and so on.
\<close>

locale shared_store =
  fixes valid :: "string \<Rightarrow> bool"
    and up :: "'s \<Rightarrow> bool"
    and invar :: "'s \<Rightarrow> bool"
    and issued :: "'s \<Rightarrow> nat"
    and newest :: "'s \<Rightarrow> string \<Rightarrow> nat"
    and at :: "'s \<Rightarrow> string \<Rightarrow> entry option"
    and get :: "'s \<Rightarrow> string \<Rightarrow> err + entry"
    and create :: "'s \<Rightarrow> string \<Rightarrow> val \<Rightarrow> (err + nat) \<times> 's"
    and update :: "'s \<Rightarrow> string \<Rightarrow> val \<Rightarrow> nat \<Rightarrow> (err + nat) \<times> 's"
    and remove :: "'s \<Rightarrow> string \<Rightarrow> (err + unit) \<times> 's"
    and remove_rev :: "'s \<Rightarrow> string \<Rightarrow> nat \<Rightarrow> (err + unit) \<times> 's"
    and listing :: "(nat \<Rightarrow> 's) \<Rightarrow> string \<Rightarrow> err + (string \<times> entry) list"
  assumes at_last: "invar s \<Longrightarrow> at s k = Some en \<Longrightarrow> 0 < en_Revision en \<and> en_Revision en = newest s k"
    and last_issued: "invar s \<Longrightarrow> newest s k \<le> issued s"
    and get_ok: "get s k = Inr en \<Longrightarrow> valid k \<Longrightarrow> at s k = Some en"
    and get_err: "get s k = Inl e \<Longrightarrow> valid k \<Longrightarrow> e = StoreNotFound \<and> at s k = None \<or> \<not> up s \<and> \<not> errors_is e StoreNotFound"
    and create_ok: "create s k v = (Inr r, s') \<Longrightarrow> valid k \<Longrightarrow> at s k = None \<and> put_at issued newest at s k v r s'"
    and create_err: "create s k v = (Inl e, s') \<Longrightarrow> valid k \<Longrightarrow> e = StoreExists \<and> at s k \<noteq> None \<and> s' = s \<or>
      \<not> errors_is e StoreExists \<and> (s' = s \<or> \<not> up s \<and> at s k = None \<and> (\<exists>r. put_at issued newest at s k v r s'))"
    and update_ok: "update s k v r0 = (Inr r, s') \<Longrightarrow> valid k \<Longrightarrow> newest s k = r0 \<and> put_at issued newest at s k v r s'"
    and update_err: "invar s \<Longrightarrow> update s k v r0 = (Inl e, s') \<Longrightarrow> valid k \<Longrightarrow>
      e = StoreConflict \<and> \<not> (\<exists>en. at s k = Some en \<and> en_Revision en = r0) \<and> s' = s \<or> e = StoreNotFound \<and> at s k = None \<and> s' = s \<or>
      \<not> up s \<and> \<not> errors_is e StoreConflict \<and> (s' = s \<or> newest s k = r0 \<and> (\<exists>r. put_at issued newest at s k v r s'))"
    and remove_ok: "remove s k = (Inr u, s') \<Longrightarrow> valid k \<Longrightarrow> gone_at issued newest at s k s'"
    and remove_err: "remove s k = (Inl e, s') \<Longrightarrow> valid k \<Longrightarrow> e = StoreNotFound \<and> at s k = None \<and> s' = s \<or>
      \<not> up s \<and> \<not> errors_is e StoreNotFound \<and> (s' = s \<or> gone_at issued newest at s k s')"
    and remove_rev_ok: "remove_rev s k r0 = (Inr u, s') \<Longrightarrow> valid k \<Longrightarrow> (r0 = 0 \<or> newest s k = r0) \<and> gone_at issued newest at s k s'"
    and remove_rev_err: "invar s \<Longrightarrow> remove_rev s k r0 = (Inl e, s') \<Longrightarrow> valid k \<Longrightarrow>
      e = StoreConflict \<and> \<not> (\<exists>en. at s k = Some en \<and> en_Revision en = r0) \<and> s' = s \<or> e = StoreNotFound \<and> at s k = None \<and> s' = s \<or>
      \<not> up s \<and> \<not> errors_is e StoreConflict \<and> (s' = s \<or> (r0 = 0 \<or> newest s k = r0) \<and> gone_at issued newest at s k s')"
    and listing_ok: "listing ss p = Inr xs \<Longrightarrow> suffix ''.'' p \<Longrightarrow> \<forall>i. invar (ss i) \<Longrightarrow> distinct (map fst xs) \<and>
      (\<forall>k en. valid k \<longrightarrow> (k, en) \<in> set xs \<longrightarrow> prefix p k \<and> (\<exists>i. at (ss i) k = Some en)) \<and>
      (\<forall>k. valid k \<longrightarrow> prefix p k \<longrightarrow> (\<forall>i. at (ss i) k \<noteq> None) \<longrightarrow> k \<in> fst ` set xs)"
    and invar_write: "invar s \<Longrightarrow> store_write valid create update remove remove_rev s s' \<Longrightarrow> invar s'"
begin

abbreviation others :: "'s \<Rightarrow> 's \<Rightarrow> bool" where
  "others \<equiv> (store_write valid create update remove remove_rev)\<^sup>*\<^sup>*"

text \<open>What any write, failed or not, does to the entries.\<close>

lemma write_effect:
  assumes invar: "invar s" and "store_write valid create update remove remove_rev s s'"
  shows "s' = s \<or> (\<exists>k. (\<exists>v r. put_at issued newest at s k v r s') \<or> gone_at issued newest at s k s')"
proof -
  from assms(2) obtain k where k: "valid k" and "(\<exists>v. s' = snd (create s k v)) \<or> (\<exists>v n. s' = snd (update s k v n)) \<or>
      s' = snd (remove s k) \<or> (\<exists>n. s' = snd (remove_rev s k n))"
    unfolding store_write_def by blast
  then consider v res where "create s k v = (res, s')" | v n res where "update s k v n = (res, s')"
    | res where "remove s k = (res, s')" | n res where "remove_rev s k n = (res, s')"
    by (metis prod.collapse)
  then show ?thesis
  proof cases
    case 1
    then show ?thesis using create_ok create_err k by (cases res) blast+
  next
    case 2
    then show ?thesis using update_ok update_err [OF invar] k by (cases res) blast+
  next
    case 3
    then show ?thesis using remove_ok remove_err k by (cases res) blast+
  next
    case 4
    then show ?thesis using remove_rev_ok remove_rev_err [OF invar] k by (cases res) blast+
  qed
qed

text \<open>An entry that was seen once is still there, or no write that names its revision can match again.\<close>

lemma entry_or_passed:
  assumes "others s0 s" and "invar s0" and "at s0 k = Some en"
  shows "invar s \<and> en_Revision en \<le> issued s \<and> (at s k = Some en \<or> at s k \<noteq> Some en \<and> newest s k \<noteq> en_Revision en)"
  using assms(1)
proof (induction rule: rtranclp_induct)
  case base
  show ?case using assms(2,3) at_last [OF assms(2,3)] last_issued [OF assms(2), of k] by simp
next
  case (step s s')
  from step.IH have s: "invar s" "en_Revision en \<le> issued s" "at s k = Some en \<or> newest s k \<noteq> en_Revision en" by blast+
  have pos: "0 < en_Revision en" using at_last [OF assms(2,3)] by simp
  from invar_write [OF s(1) step.hyps(2)] have inv: "invar s'" .
  from write_effect [OF s(1) step.hyps(2)] consider "s' = s" | k' v r where "put_at issued newest at s k' v r s'" | k' where "gone_at issued newest at s k' s'" by blast
  then show ?case
  proof cases
    case 1
    with s show ?thesis by blast
  next
    case 2
    with s inv show ?thesis by (cases "k' = k") (auto simp: put_at_def)
  next
    case 3
    with s inv pos show ?thesis by (cases "k' = k") (auto simp: gone_at_def)
  qed
qed

text \<open>
  Compare-and-set: however many writes others made since the entry was read, a write that names
  its revision takes effect only if the key still has that very entry.
\<close>

lemma update_compares:
  assumes "invar s0" "get s0 k = Inr en" "others s0 s" "valid k" "update s k v (en_Revision en) = (res, s')"
  shows "case res of
      Inr r \<Rightarrow> at s k = Some en \<and> en_Revision en < r \<and> at s' = (at s)(k \<mapsto> \<lparr>en_Value = v, en_Revision = r\<rparr>)
    | Inl e \<Rightarrow> s' = s \<and> at s k \<noteq> Some en \<and> e \<in> {StoreConflict, StoreNotFound} \<or>
        \<not> up s \<and> \<not> errors_is e StoreConflict \<and> (s' = s \<or> at s k = Some en \<and> (\<exists>r. at s' = (at s)(k \<mapsto> \<lparr>en_Value = v, en_Revision = r\<rparr>)))"
proof -
  from entry_or_passed [OF assms(3,1) get_ok [OF assms(2,4)]]
  have s: "invar s" "en_Revision en \<le> issued s" "at s k = Some en \<or> newest s k \<noteq> en_Revision en" by blast+
  show ?thesis
  proof (cases res)
    case (Inr r)
    with update_ok [of s k v "en_Revision en" r s'] assms(4,5) s show ?thesis by (auto simp: put_at_def)
  next
    case (Inl e)
    with update_err [of s k v "en_Revision en" e s', OF s(1)] assms(4,5) s show ?thesis by (auto simp: put_at_def)
  qed
qed

lemma remove_rev_compares:
  assumes "invar s0" "get s0 k = Inr en" "others s0 s" "valid k" "remove_rev s k (en_Revision en) = (res, s')"
  shows "case res of
      Inr _ \<Rightarrow> at s k = Some en \<and> at s' = (at s)(k := None)
    | Inl e \<Rightarrow> s' = s \<and> at s k \<noteq> Some en \<and> e \<in> {StoreConflict, StoreNotFound} \<or>
        \<not> up s \<and> \<not> errors_is e StoreConflict \<and> (s' = s \<or> at s k = Some en \<and> at s' = (at s)(k := None))"
proof -
  from get_ok [OF assms(2,4)] have en: "at s0 k = Some en" .
  from entry_or_passed [OF assms(3,1) en]
  have s: "invar s" "en_Revision en \<le> issued s" "at s k = Some en \<or> newest s k \<noteq> en_Revision en" by blast+
  from at_last [OF assms(1) en] have pos: "en_Revision en \<noteq> 0" by simp
  show ?thesis
  proof (cases res)
    case (Inr r)
    with remove_rev_ok [of s k "en_Revision en" r s'] assms(4,5) s pos show ?thesis by (auto simp: gone_at_def)
  next
    case (Inl e)
    with remove_rev_err [of s k "en_Revision en" e s', OF s(1)] assms(4,5) s pos show ?thesis by (auto simp: gone_at_def)
  qed
qed

lemma create_claims:
  assumes "valid k" "create s k v = (res, s')"
  shows "case res of
      Inr r \<Rightarrow> at s k = None \<and> at s' = (at s)(k \<mapsto> \<lparr>en_Value = v, en_Revision = r\<rparr>)
    | Inl e \<Rightarrow> s' = s \<and> at s k \<noteq> None \<and> e = StoreExists \<or>
        \<not> errors_is e StoreExists \<and> (s' = s \<or> \<not> up s \<and> at s k = None \<and> (\<exists>r. at s' = (at s)(k \<mapsto> \<lparr>en_Value = v, en_Revision = r\<rparr>)))"
  using create_ok [of s k v _ s'] create_err [of s k v _ s'] assms by (cases res) (auto simp: put_at_def)

end

section \<open>The contract of the Store interface (store.go)\<close>

text \<open>
  What the access service relies on, over the entry \<open>at s k\<close> a key \<open>k\<close> has in a state \<open>s\<close>:
  reads return the current entry, a create succeeds on an absent key only and an update or a
  revision delete on the current revision only, a successful write gives the key a revision
  above every revision issued before, and a failed operation changes nothing. The laws are for
  the keys a store accepts (\<open>valid\<close>) and for prefixes that end with a dot, as all of the
  service's do. Deleting an
  absent key may succeed or report not-found, and a write that names a revision an absent key
  once had may report not-found or a conflict: Memory and the NATS bucket differ there.
\<close>

locale kv_store =
  fixes valid :: "string \<Rightarrow> bool"
    and invar :: "'s \<Rightarrow> bool"
    and issued :: "'s \<Rightarrow> nat"
    and at :: "'s \<Rightarrow> string \<Rightarrow> entry option"
    and get :: "'s \<Rightarrow> string \<Rightarrow> err + entry"
    and create :: "'s \<Rightarrow> string \<Rightarrow> val \<Rightarrow> (err + nat) \<times> 's"
    and update :: "'s \<Rightarrow> string \<Rightarrow> val \<Rightarrow> nat \<Rightarrow> (err + nat) \<times> 's"
    and remove :: "'s \<Rightarrow> string \<Rightarrow> (err + unit) \<times> 's"
    and remove_rev :: "'s \<Rightarrow> string \<Rightarrow> nat \<Rightarrow> (err + unit) \<times> 's"
    and listing :: "'s \<Rightarrow> string \<Rightarrow> err + (string \<times> entry) list"
  assumes at_issued: "invar s \<Longrightarrow> at s k = Some en \<Longrightarrow> 0 < en_Revision en \<and> en_Revision en \<le> issued s"
    and get_eq: "valid k \<Longrightarrow> get s k = (case at s k of None \<Rightarrow> Inl StoreNotFound | Some en \<Rightarrow> Inr en)"
    and create_ok: "create s k v = (Inr r, s') \<Longrightarrow> valid k \<Longrightarrow>
      at s k = None \<and> issued s < r \<and> issued s' = r \<and> at s' = (at s)(k \<mapsto> \<lparr>en_Value = v, en_Revision = r\<rparr>)"
    and create_err: "create s k v = (Inl e, s') \<Longrightarrow> valid k \<Longrightarrow> e = StoreExists \<and> at s k \<noteq> None \<and> s' = s"
    and update_ok: "update s k v r0 = (Inr r, s') \<Longrightarrow> valid k \<Longrightarrow>
      (\<exists>en. at s k = Some en \<and> en_Revision en = r0) \<and>
      issued s < r \<and> issued s' = r \<and> at s' = (at s)(k \<mapsto> \<lparr>en_Value = v, en_Revision = r\<rparr>)"
    and update_err: "update s k v r0 = (Inl e, s') \<Longrightarrow> valid k \<Longrightarrow>
      s' = s \<and> (e = StoreNotFound \<and> at s k = None \<or>
                e = StoreConflict \<and> \<not> (\<exists>en. at s k = Some en \<and> en_Revision en = r0))"
    and remove_ok: "remove s k = (Inr u, s') \<Longrightarrow> valid k \<Longrightarrow> issued s \<le> issued s' \<and> at s' = (at s)(k := None)"
    and remove_err: "remove s k = (Inl e, s') \<Longrightarrow> valid k \<Longrightarrow> e = StoreNotFound \<and> at s k = None \<and> s' = s"
    and remove_rev_ok: "remove_rev s k r0 = (Inr u, s') \<Longrightarrow> valid k \<Longrightarrow>
      (\<exists>en. at s k = Some en \<and> en_Revision en = r0) \<and> issued s \<le> issued s' \<and> at s' = (at s)(k := None)"
    and remove_rev_err: "remove_rev s k r0 = (Inl e, s') \<Longrightarrow> valid k \<Longrightarrow>
      s' = s \<and> (e = StoreNotFound \<and> at s k = None \<or>
                e = StoreConflict \<and> \<not> (\<exists>en. at s k = Some en \<and> en_Revision en = r0))"
    and listing_ok: "invar s \<Longrightarrow> suffix ''.'' p \<Longrightarrow> \<exists>xs. listing s p = Inr xs \<and> distinct (map fst xs) \<and>
      (\<forall>k en. valid k \<longrightarrow> ((k, en) \<in> set xs \<longleftrightarrow> prefix p k \<and> at s k = Some en))"
    and invar_create: "invar s \<Longrightarrow> valid k \<Longrightarrow> invar (snd (create s k v))"
    and invar_update: "invar s \<Longrightarrow> valid k \<Longrightarrow> invar (snd (update s k v r0))"
    and invar_remove: "invar s \<Longrightarrow> valid k \<Longrightarrow> invar (snd (remove s k))"
    and invar_remove_rev: "invar s \<Longrightarrow> valid k \<Longrightarrow> invar (snd (remove_rev s k r0))"
begin

lemma get_Inr: "valid k \<Longrightarrow> get s k = Inr en \<longleftrightarrow> at s k = Some en"
  by (simp add: get_eq split: option.splits)

text \<open>A created or updated key has the revision the writer got, so the writer's next update on it succeeds.\<close>

lemma create_then_get:
  assumes "create s k v = (Inr r, s')" "valid k"
  shows "get s' k = Inr \<lparr>en_Value = v, en_Revision = r\<rparr>"
  using create_ok [OF assms] assms(2) by (simp add: get_Inr)

lemma update_then_get:
  assumes "update s k v r0 = (Inr r, s')" "valid k"
  shows "get s' k = Inr \<lparr>en_Value = v, en_Revision = r\<rparr>"
  using update_ok [OF assms] assms(2) by (simp add: get_Inr)

text \<open>Of two creates of one key, the second fails.\<close>

lemma create_once:
  assumes "create s k v = (Inr r, s')" "valid k"
  shows "create s' k v' = (Inl StoreExists, s')"
proof (cases "create s' k v'")
  case (Pair res s2)
  then show ?thesis
    using create_ok [OF assms] create_ok [of s' k v' _ s2] create_err [of s' k v' _ s2] assms(2)
    by (cases res) auto
qed

text \<open>
  Optimistic concurrency: after one update has used a revision, every other update or revision
  delete that still names it fails and changes nothing, so no write is lost.
\<close>

lemma stale_write_fails:
  assumes "invar s" and "update s k v r0 = (Inr r, s')" and k: "valid k"
  shows "update s' k v' r0 = (Inl StoreConflict, s')"
    and "remove_rev s' k r0 = (Inl StoreConflict, s')"
proof -
  from update_ok [OF assms(2) k] obtain en where
    en: "at s k = Some en" "en_Revision en = r0" and
    s': "at s' k = Some \<lparr>en_Value = v, en_Revision = r\<rparr>" and r: "issued s < r"
    by auto
  from at_issued [OF assms(1) en(1)] en(2) r have "r \<noteq> r0" by simp
  with s' k show "update s' k v' r0 = (Inl StoreConflict, s')"
    using update_ok [of s' k v' r0] update_err [of s' k v' r0]
    by (cases "update s' k v' r0"; cases "fst (update s' k v' r0)") auto
  from \<open>r \<noteq> r0\<close> s' k show "remove_rev s' k r0 = (Inl StoreConflict, s')"
    using remove_rev_ok [of s' k r0] remove_rev_err [of s' k r0]
    by (cases "remove_rev s' k r0"; cases "fst (remove_rev s' k r0)") auto
qed

text \<open>A write to one key leaves every other key as it was.\<close>

lemma frame_create: "valid k \<Longrightarrow> k' \<noteq> k \<Longrightarrow> at (snd (create s k v)) k' = at s k'"
  using create_ok [of s k v] create_err [of s k v]
  by (cases "create s k v"; cases "fst (create s k v)") auto

lemma frame_update: "valid k \<Longrightarrow> k' \<noteq> k \<Longrightarrow> at (snd (update s k v r0)) k' = at s k'"
  using update_ok [of s k v r0] update_err [of s k v r0]
  by (cases "update s k v r0"; cases "fst (update s k v r0)") auto

lemma frame_remove: "valid k \<Longrightarrow> k' \<noteq> k \<Longrightarrow> at (snd (remove s k)) k' = at s k'"
  using remove_ok [of s k] remove_err [of s k]
  by (cases "remove s k"; cases "fst (remove s k)") auto

lemma frame_remove_rev: "valid k \<Longrightarrow> k' \<noteq> k \<Longrightarrow> at (snd (remove_rev s k r0)) k' = at s k'"
  using remove_rev_ok [of s k r0] remove_rev_err [of s k r0]
  by (cases "remove_rev s k r0"; cases "fst (remove_rev s k r0)") auto

end

text \<open>A store with this contract is one with the other, always reachable and listing one state.\<close>

sublocale kv_store \<subseteq> shared: shared_store valid "\<lambda>_. True" invar issued "\<lambda>s k. case at s k of None \<Rightarrow> 0 | Some en \<Rightarrow> en_Revision en" at
  get create update remove remove_rev "\<lambda>ss p. listing (ss 0) p"
proof (unfold_locales, goal_cases)
  case (1 s k en)
  then show ?case using at_issued by simp
next
  case (2 s k)
  then show ?case using at_issued by (simp split: option.split)
next
  case (3 s k en)
  then show ?case by (simp add: get_Inr)
next
  case (4 s k e)
  then show ?case by (simp add: get_eq split: option.splits)
next
  case (5 s k v r s')
  then show ?case using create_ok [OF 5] by (auto simp: put_at_def fun_eq_iff)
next
  case (6 s k v e s')
  then show ?case using create_err [OF 6] by simp
next
  case (7 s k v r0 r s')
  then show ?case using update_ok [OF 7] by (auto simp: put_at_def fun_eq_iff)
next
  case (8 s k v r0 e s')
  then show ?case using update_err [OF 8(2,3)] by auto
next
  case (9 s k u s')
  then show ?case using remove_ok [OF 9] by (auto simp: gone_at_def fun_eq_iff intro!: exI [of _ 0])
next
  case (10 s k e s')
  then show ?case using remove_err [OF 10] by simp
next
  case (11 s k r0 u s')
  then show ?case using remove_rev_ok [OF 11] by (auto simp: gone_at_def fun_eq_iff intro!: exI [of _ 0])
next
  case (12 s k r0 e s')
  then show ?case using remove_rev_err [OF 12(2,3)] by auto
next
  case (13 ss p xs)
  then have "invar (ss 0)" by simp
  from listing_ok [OF this 13(2)] 13(1) have xs: "distinct (map fst xs)" "\<And>k en. valid k \<Longrightarrow> (k, en) \<in> set xs \<longleftrightarrow> prefix p k \<and> at (ss 0) k = Some en" by auto
  have "k \<in> fst ` set xs" if "valid k" "prefix p k" "\<forall>i. at (ss i) k \<noteq> None" for k
  proof -
    from that(3) obtain en where "at (ss 0) k = Some en" by blast
    with xs(2) [OF that(1), of en] that(2) have "(k, en) \<in> set xs" by simp
    then show ?thesis by force
  qed
  with xs show ?case by blast
next
  case (14 s s')
  then show ?case unfolding store_write_def
    using invar_create invar_update invar_remove invar_remove_rev by blast
qed

section \<open>Memory keeps the contract\<close>

interpretation mem: kv_store "\<lambda>_. True" mem_wf me_revision mem_at mem_get mem_create mem_update mem_delete
  mem_delete_revision "\<lambda>m p. Inr (mem_list m p)"
proof (unfold_locales, goal_cases)
  case (1 s k en)
  then show ?case by (rule mem_wf_at)
next
  case (2 k s)
  then show ?case by (simp add: mem_get_def mem_at_def)
next
  case (3 s k v r s')
  then show ?case by (auto simp: mem_create_def mem_at_def Let_def fun_eq_iff split: option.splits)
next
  case (4 s k v e s')
  then show ?case by (auto simp: mem_create_def mem_at_def Let_def split: option.splits)
next
  case (5 s k v r0 r s')
  then show ?case
    by (auto simp: mem_update_def mem_at_def Let_def fun_eq_iff split: option.splits if_splits)
next
  case (6 s k v r0 e s')
  then show ?case by (auto simp: mem_update_def mem_at_def Let_def split: option.splits if_splits)
next
  case (7 s k u s')
  then show ?case by (auto simp: mem_delete_def mem_at_def fun_eq_iff split: option.splits)
next
  case (8 s k e s')
  then show ?case by (auto simp: mem_delete_def mem_at_def split: option.splits)
next
  case (9 s k r0 u s')
  then show ?case
    by (auto simp: mem_delete_revision_def mem_at_def fun_eq_iff split: option.splits if_splits)
next
  case (10 s k r0 e s')
  then show ?case
    by (auto simp: mem_delete_revision_def mem_at_def split: option.splits if_splits)
next
  case (11 s p)
  then show ?case by (simp add: mem_listing_at mem_listing_distinct)
next
  case (12 s k v)
  then show ?case
    using set_update_subset [of k _ "me_entries s"]
    by (fastforce simp: mem_create_def mem_wf_def Let_def AList.distinct_update split: option.splits)
next
  case (13 s k v r0)
  then show ?case
    using set_update_subset [of k _ "me_entries s"]
    by (fastforce simp: mem_update_def mem_wf_def Let_def AList.distinct_update split: option.splits)
next
  case (14 s k)
  then show ?case
    using set_delete_subset [of k "me_entries s"]
    by (auto simp: mem_delete_def mem_wf_def AList.distinct_delete split: option.splits)
next
  case (15 s k r0)
  then show ?case
    using set_delete_subset [of k "me_entries s"]
    by (auto simp: mem_delete_revision_def mem_wf_def AList.distinct_delete split: option.splits)
qed

lemma NewMemory_wf [simp]: "mem_wf NewMemory"
  by (simp add: NewMemory_def mem_wf_def)

lemma NewMemory_at [simp]: "mem_at NewMemory k = None"
  by (simp add: NewMemory_def mem_at_def)

end
