(* ===== verification/Effects.thy ===== *)
theory Effects
  imports Store
begin

text \<open>
  The effects of the service as data. A method of the service is a program: a tree that either
  returns or performs one operation on its environment (a store call, a clock read, random
  bytes, a UUID, an application cleanup request, a token signature, a context check) and
  continues with the reply. The code between two operations is ordinary HOL.

  Two semantics are given to the same programs: \<open>run\<close> below executes one program alone on a
  Memory store, and theory Concurrency interleaves any number of them, operation by operation,
  with failures of every call. \<open>always\<close> holds of a program whose result satisfies a predicate
  whatever its environment replies.
\<close>

section \<open>Requests of the environment\<close>

text \<open>The arguments of Cleaner.Cleanup, but for the context.\<close>

record cleanup_call =
  cc_DeletionID :: string
  cc_ApplicationID :: string
  cc_EventID :: string
  cc_Subjects :: "string list"
  cc_Reason :: string

text \<open>The claims of a guest token, registered and private (issuer.go, Mint).\<close>

record jwt_claims =
  jc_Issuer :: string
  jc_Subject :: string
  jc_Audience :: "string list"
  jc_ID :: string
  jc_IssuedAt :: time
  jc_Expiry :: time
  jc_Guest :: bool
  jc_Name :: string
  jc_Username :: string
  jc_ApplicationID :: string
  jc_EventID :: string
  jc_Slot :: int

section \<open>Programs\<close>

datatype 'a prog =
    Ret 'a
  | DoGet string "err + entry \<Rightarrow> 'a prog"
  | DoCreate string val "err + nat \<Rightarrow> 'a prog"
  | DoUpdate string val nat "err + nat \<Rightarrow> 'a prog"
  | DoDelete string "err + unit \<Rightarrow> 'a prog"
  | DoDeleteRev string nat "err + unit \<Rightarrow> 'a prog"
  | DoList string "err + (string \<times> entry) list \<Rightarrow> 'a prog"
  | DoNow "time \<Rightarrow> 'a prog"
  | DoRand "err + 8 word list \<Rightarrow> 'a prog"
  | DoUuid "string \<Rightarrow> 'a prog"
  | DoCleanup cleanup_call "err + int \<Rightarrow> 'a prog"
  | DoSign jwt_claims "err + string \<Rightarrow> 'a prog"
  | DoCtx "err option \<Rightarrow> 'a prog"

primrec prog_bind :: "'a prog \<Rightarrow> ('a \<Rightarrow> 'b prog) \<Rightarrow> 'b prog" where
  "prog_bind (Ret x) f = f x"
| "prog_bind (DoGet k c) f = DoGet k (\<lambda>r. prog_bind (c r) f)"
| "prog_bind (DoCreate k v c) f = DoCreate k v (\<lambda>r. prog_bind (c r) f)"
| "prog_bind (DoUpdate k v n c) f = DoUpdate k v n (\<lambda>r. prog_bind (c r) f)"
| "prog_bind (DoDelete k c) f = DoDelete k (\<lambda>r. prog_bind (c r) f)"
| "prog_bind (DoDeleteRev k n c) f = DoDeleteRev k n (\<lambda>r. prog_bind (c r) f)"
| "prog_bind (DoList p c) f = DoList p (\<lambda>r. prog_bind (c r) f)"
| "prog_bind (DoNow c) f = DoNow (\<lambda>r. prog_bind (c r) f)"
| "prog_bind (DoRand c) f = DoRand (\<lambda>r. prog_bind (c r) f)"
| "prog_bind (DoUuid c) f = DoUuid (\<lambda>r. prog_bind (c r) f)"
| "prog_bind (DoCleanup q c) f = DoCleanup q (\<lambda>r. prog_bind (c r) f)"
| "prog_bind (DoSign q c) f = DoSign q (\<lambda>r. prog_bind (c r) f)"
| "prog_bind (DoCtx c) f = DoCtx (\<lambda>r. prog_bind (c r) f)"

text \<open>A call whose error is returned at once: \<open>x, err := p; if err != nil { return err }\<close>.\<close>

definition tryp :: "(err + 'a) prog \<Rightarrow> ('a \<Rightarrow> (err + 'b) prog) \<Rightarrow> (err + 'b) prog" where
  "tryp p f = prog_bind p (\<lambda>r. case r of Inl e \<Rightarrow> Ret (Inl e) | Inr x \<Rightarrow> f x)"

lemma prog_bind_Ret [simp]: "prog_bind p Ret = p"
  by (induction p) (auto simp: fun_eq_iff)

lemma prog_bind_assoc: "prog_bind (prog_bind p f) g = prog_bind p (\<lambda>x. prog_bind (f x) g)"
  by (induction p) auto

section \<open>Results under any environment\<close>

primrec always :: "('a \<Rightarrow> bool) \<Rightarrow> 'a prog \<Rightarrow> bool" where
  "always Q (Ret x) = Q x"
| "always Q (DoGet k c) = (\<forall>r. always Q (c r))"
| "always Q (DoCreate k v c) = (\<forall>r. always Q (c r))"
| "always Q (DoUpdate k v n c) = (\<forall>r. always Q (c r))"
| "always Q (DoDelete k c) = (\<forall>r. always Q (c r))"
| "always Q (DoDeleteRev k n c) = (\<forall>r. always Q (c r))"
| "always Q (DoList p c) = (\<forall>r. always Q (c r))"
| "always Q (DoNow c) = (\<forall>r. always Q (c r))"
| "always Q (DoRand c) = (\<forall>r. always Q (c r))"
| "always Q (DoUuid c) = (\<forall>r. always Q (c r))"
| "always Q (DoCleanup q c) = (\<forall>r. always Q (c r))"
| "always Q (DoSign q c) = (\<forall>r. always Q (c r))"
| "always Q (DoCtx c) = (\<forall>r. always Q (c r))"

lemma always_bind [simp]: "always Q (prog_bind p f) \<longleftrightarrow> always (\<lambda>x. always Q (f x)) p"
  by (induction p) auto

lemma always_mono: "always P p \<Longrightarrow> (\<And>x. P x \<Longrightarrow> Q x) \<Longrightarrow> always Q p"
  by (induction p) auto

lemma always_True [simp]: "always (\<lambda>_. True) p"
  by (induction p) auto

lemma always_conj: "always (\<lambda>x. P x \<and> Q x) p \<longleftrightarrow> always P p \<and> always Q p"
  by (induction p) auto

lemma always_tryp [simp]:
  "always Q (tryp p f) \<longleftrightarrow> always (\<lambda>r. case r of Inl e \<Rightarrow> Q (Inl e) | Inr x \<Rightarrow> always Q (f x)) p"
  by (auto simp: tryp_def elim!: always_mono split: sum.splits)

text \<open>
  The number of update calls a program makes on the keys of \<open>K\<close>, whatever the replies, is at most
  \<open>n\<close>; of a listing only that its keys have the prefix asked for.
\<close>

primrec updates_le :: "(string \<Rightarrow> bool) \<Rightarrow> 'a prog \<Rightarrow> nat \<Rightarrow> bool" where
  "updates_le K (Ret x) = (\<lambda>n. True)"
| "updates_le K (DoGet k c) = (\<lambda>n. \<forall>r. updates_le K (c r) n)"
| "updates_le K (DoCreate k v c) = (\<lambda>n. \<forall>r. updates_le K (c r) n)"
| "updates_le K (DoUpdate k v m c) = (\<lambda>n. if K k then 0 < n \<and> (\<forall>r. updates_le K (c r) (n - 1)) else \<forall>r. updates_le K (c r) n)"
| "updates_le K (DoDelete k c) = (\<lambda>n. \<forall>r. updates_le K (c r) n)"
| "updates_le K (DoDeleteRev k m c) = (\<lambda>n. \<forall>r. updates_le K (c r) n)"
| "updates_le K (DoList p c) = (\<lambda>n. \<forall>r. (\<forall>xs. r = Inr xs \<longrightarrow> (\<forall>x \<in> set xs. prefix p (fst x))) \<longrightarrow> updates_le K (c r) n)"
| "updates_le K (DoNow c) = (\<lambda>n. \<forall>r. updates_le K (c r) n)"
| "updates_le K (DoRand c) = (\<lambda>n. \<forall>r. updates_le K (c r) n)"
| "updates_le K (DoUuid c) = (\<lambda>n. \<forall>r. updates_le K (c r) n)"
| "updates_le K (DoCleanup q c) = (\<lambda>n. \<forall>r. updates_le K (c r) n)"
| "updates_le K (DoSign q c) = (\<lambda>n. \<forall>r. updates_le K (c r) n)"
| "updates_le K (DoCtx c) = (\<lambda>n. \<forall>r. updates_le K (c r) n)"

text \<open>A program that never writes to the store and never asks for a cleanup.\<close>

primrec read_only :: "'a prog \<Rightarrow> bool" where
  "read_only (Ret x) = True"
| "read_only (DoGet k c) = (\<forall>r. read_only (c r))"
| "read_only (DoCreate k v c) = False"
| "read_only (DoUpdate k v m c) = False"
| "read_only (DoDelete k c) = False"
| "read_only (DoDeleteRev k m c) = False"
| "read_only (DoList p c) = (\<forall>r. read_only (c r))"
| "read_only (DoNow c) = (\<forall>r. read_only (c r))"
| "read_only (DoRand c) = (\<forall>r. read_only (c r))"
| "read_only (DoUuid c) = (\<forall>r. read_only (c r))"
| "read_only (DoCleanup q c) = False"
| "read_only (DoSign q c) = (\<forall>r. read_only (c r))"
| "read_only (DoCtx c) = (\<forall>r. read_only (c r))"

section \<open>Running one program alone on a Memory store\<close>

text \<open>
  The environment of a run: the store, the readings of the clock, the random bytes and the
  UUIDs to come, the cleaner and the signer as functions, and the record of the cleanup calls
  and signatures made.
\<close>

record world =
  w_mem :: memory
  w_clock :: "nat \<Rightarrow> time"
  w_ticks :: nat
  w_rand :: "nat \<Rightarrow> err + 8 word list"
  w_rands :: nat
  w_uuid :: "nat \<Rightarrow> string"
  w_uuids :: nat
  w_cleaner :: "cleanup_call \<Rightarrow> err + int"
  w_cleanups :: "cleanup_call list"
  w_signer :: "jwt_claims \<Rightarrow> err + string"
  w_signed :: "jwt_claims list"
  w_ctx :: "err option"

primrec run :: "'a prog \<Rightarrow> world \<Rightarrow> 'a \<times> world" where
  "run (Ret x) = (\<lambda>w. (x, w))"
| "run (DoGet k c) = (\<lambda>w. run (c (mem_get (w_mem w) k)) w)"
| "run (DoCreate k v c) =
     (\<lambda>w. case mem_create (w_mem w) k v of (r, m) \<Rightarrow> run (c r) (w\<lparr>w_mem := m\<rparr>))"
| "run (DoUpdate k v n c) =
     (\<lambda>w. case mem_update (w_mem w) k v n of (r, m) \<Rightarrow> run (c r) (w\<lparr>w_mem := m\<rparr>))"
| "run (DoDelete k c) =
     (\<lambda>w. case mem_delete (w_mem w) k of (r, m) \<Rightarrow> run (c r) (w\<lparr>w_mem := m\<rparr>))"
| "run (DoDeleteRev k n c) =
     (\<lambda>w. case mem_delete_revision (w_mem w) k n of (r, m) \<Rightarrow> run (c r) (w\<lparr>w_mem := m\<rparr>))"
| "run (DoList p c) = (\<lambda>w. run (c (Inr (mem_list (w_mem w) p))) w)"
| "run (DoNow c) = (\<lambda>w. run (c (w_clock w (w_ticks w))) (w\<lparr>w_ticks := w_ticks w + 1\<rparr>))"
| "run (DoRand c) = (\<lambda>w. run (c (w_rand w (w_rands w))) (w\<lparr>w_rands := w_rands w + 1\<rparr>))"
| "run (DoUuid c) = (\<lambda>w. run (c (w_uuid w (w_uuids w))) (w\<lparr>w_uuids := w_uuids w + 1\<rparr>))"
| "run (DoCleanup q c) =
     (\<lambda>w. run (c (w_cleaner w q)) (w\<lparr>w_cleanups := w_cleanups w @ [q]\<rparr>))"
| "run (DoSign q c) =
     (\<lambda>w. run (c (w_signer w q)) (w\<lparr>w_signed := w_signed w @ [q]\<rparr>))"
| "run (DoCtx c) = (\<lambda>w. run (c (w_ctx w)) w)"

lemma run_bind [simp]: "run (prog_bind p f) w = (case run p w of (x, w') \<Rightarrow> run (f x) w')"
  by (induction p arbitrary: w) (auto split: prod.splits)

lemma run_tryp [simp]:
  "run (tryp p f) w =
     (case run p w of (Inl e, w') \<Rightarrow> (Inl e, w') | (Inr x, w') \<Rightarrow> run (f x) w')"
  by (auto simp: tryp_def split: prod.splits sum.splits)

lemma always_run: "always Q p \<Longrightarrow> Q (fst (run p w))"
  by (induction p arbitrary: w) (auto split: prod.splits)

lemma read_only_run: "read_only p \<Longrightarrow> w_mem (snd (run p w)) = w_mem w"
  by (induction p arbitrary: w) auto

text \<open>The parts of the environment no program changes.\<close>

lemma run_frame [simp]:
  "w_clock (snd (run p w)) = w_clock w"
  "w_rand (snd (run p w)) = w_rand w"
  "w_uuid (snd (run p w)) = w_uuid w"
  "w_cleaner (snd (run p w)) = w_cleaner w"
  "w_signer (snd (run p w)) = w_signer w"
  "w_ctx (snd (run p w)) = w_ctx w"
  by (induction p arbitrary: w) (auto split: prod.splits)

lemma run_wf: "mem_wf (w_mem w) \<Longrightarrow> mem_wf (w_mem (snd (run p w)))"
proof (induction p arbitrary: w)
  case (DoCreate k v c)
  then show ?case
    using mem.invar_create [of "w_mem w" k v] by (auto split: prod.splits)
next
  case (DoUpdate k v n c)
  then show ?case
    using mem.invar_update [of "w_mem w" k v n] by (auto split: prod.splits)
next
  case (DoDelete k c)
  then show ?case
    using mem.invar_remove [of "w_mem w" k] by (auto split: prod.splits)
next
  case (DoDeleteRev k n c)
  then show ?case
    using mem.invar_remove_rev [of "w_mem w" k n] by (auto split: prod.splits)
qed auto

end
