(* ===== verification/Encoding.thy ===== *)
theory Encoding
  imports Prelude
begin

text \<open>
  The string functions of the Go standard library the service uses: hex and unpadded URL-safe
  base64 encoding, trimming, and the application id pattern. A string is its bytes, as in Go.
\<close>

section \<open>encoding/hex and encoding/base64\<close>

definition hex_digit :: "nat \<Rightarrow> char" where
  "hex_digit n = ''0123456789abcdef'' ! n"

fun hex_encode :: "8 word list \<Rightarrow> string" where
  "hex_encode [] = []"
| "hex_encode (b # bs) = hex_digit (unat b div 16) # hex_digit (unat b mod 16) # hex_encode bs"

definition b64_digit :: "nat \<Rightarrow> char" where
  "b64_digit n = ''ABCDEFGHIJKLMNOPQRSTUVWXYZabcdefghijklmnopqrstuvwxyz0123456789-_'' ! n"

text \<open>base64.RawURLEncoding: six bits to a character, the last group unpadded.\<close>

fun b64url :: "8 word list \<Rightarrow> string" where
  "b64url [] = []"
| "b64url [a] = [b64_digit (unat a div 4), b64_digit (unat a mod 4 * 16)]"
| "b64url [a, b] =
     [b64_digit (unat a div 4), b64_digit (unat a mod 4 * 16 + unat b div 16),
      b64_digit (unat b mod 16 * 4)]"
| "b64url (a # b # c # rest) =
     [b64_digit (unat a div 4), b64_digit (unat a mod 4 * 16 + unat b div 16),
      b64_digit (unat b mod 16 * 4 + unat c div 64), b64_digit (unat c mod 64)] @ b64url rest"

section \<open>strings.TrimSpace, strings.TrimRight\<close>

text \<open>The UTF-8 encodings of the code points unicode.IsSpace accepts.\<close>

definition space_encodings :: "string list" where
  "space_encodings =
     map (\<lambda>n. [char_of (n :: nat)]) [9, 10, 11, 12, 13, 32] @
     map (map (char_of :: nat \<Rightarrow> char))
       ([[0xC2, 0x85], [0xC2, 0xA0], [0xE1, 0x9A, 0x80]] @
        map (\<lambda>n. [0xE2, 0x80, n])
          [0x80, 0x81, 0x82, 0x83, 0x84, 0x85, 0x86, 0x87, 0x88, 0x89, 0x8A, 0xA8, 0xA9, 0xAF] @
        [[0xE2, 0x81, 0x9F], [0xE3, 0x80, 0x80]])"

lemma space_nonempty: "sp \<in> set space_encodings \<Longrightarrow> sp \<noteq> []"
  by (auto simp: space_encodings_def)

function trim_left_space :: "string \<Rightarrow> string" where
  "trim_left_space s =
     (case find (\<lambda>sp. prefix sp s) space_encodings of
        None \<Rightarrow> s
      | Some sp \<Rightarrow> trim_left_space (drop (length sp) s))"
  by pat_completeness auto
termination
proof (relation "measure length", goal_cases)
  case 1
  then show ?case by simp
next
  case (2 s sp)
  then have "sp \<noteq> []" "prefix sp s"
    by (auto simp: find_Some_iff space_nonempty)
  then show ?case by (cases s) (auto simp: prefix_def)
qed

declare trim_left_space.simps [simp del]

function trim_right_space :: "string \<Rightarrow> string" where
  "trim_right_space s =
     (case find (\<lambda>sp. suffix sp s) space_encodings of
        None \<Rightarrow> s
      | Some sp \<Rightarrow> trim_right_space (take (length s - length sp) s))"
  by pat_completeness auto
termination
proof (relation "measure length", goal_cases)
  case 1
  then show ?case by simp
next
  case (2 s sp)
  then have "sp \<noteq> []" "suffix sp s"
    by (auto simp: find_Some_iff space_nonempty)
  then show ?case by (cases s) (auto simp: suffix_def)
qed

declare trim_right_space.simps [simp del]

definition trim_space :: "string \<Rightarrow> string" where
  "trim_space s = trim_right_space (trim_left_space s)"

definition trim_right :: "char \<Rightarrow> string \<Rightarrow> string" where
  "trim_right c s = rev (dropWhile (\<lambda>x. x = c) (rev s))"

section \<open>The application id pattern (service.go)\<close>

definition is_lower :: "char \<Rightarrow> bool" where
  "is_lower c \<longleftrightarrow> (97 :: nat) \<le> of_char c \<and> of_char c \<le> (122 :: nat)"

definition is_id_char :: "char \<Rightarrow> bool" where
  "is_id_char c \<longleftrightarrow> is_lower c \<or> ((48 :: nat) \<le> of_char c \<and> of_char c \<le> (57 :: nat)) \<or>
     c = CHR ''_'' \<or> c = CHR ''-''"

text \<open>\<open>^[a-z][a-z0-9_-]{0,62}$\<close>\<close>

definition applicationIDPattern :: "string \<Rightarrow> bool" where
  "applicationIDPattern s \<longleftrightarrow>
     (case s of [] \<Rightarrow> False | c # cs \<Rightarrow> is_lower c \<and> length cs \<le> 62 \<and> list_all is_id_char cs)"

section \<open>Lemmas\<close>

lemma hex_digit_inj: "m < 16 \<Longrightarrow> n < 16 \<Longrightarrow> hex_digit m = hex_digit n \<Longrightarrow> m = n"
proof -
  assume *: "m < 16" "n < 16" "hex_digit m = hex_digit n"
  have "distinct ''0123456789abcdef''" by simp
  with * show ?thesis
    by (simp add: hex_digit_def nth_eq_iff_index_eq del: distinct.simps)
qed

lemma byte_less: "unat (b :: 8 word) < 256"
  using unsigned_less [of b, where ?'a = nat] by simp

lemma hex_encode_inj: "hex_encode xs = hex_encode ys \<Longrightarrow> xs = ys"
proof (induction xs arbitrary: ys)
  case Nil
  then show ?case by (cases ys) auto
next
  case (Cons x xs)
  then obtain y zs where ys: "ys = y # zs" by (cases ys) auto
  with Cons.prems have "unat x div 16 = unat y div 16" "unat x mod 16 = unat y mod 16"
    using byte_less [of x] byte_less [of y] by (auto intro!: hex_digit_inj)
  then have "unat x = unat y"
    by (metis div_mult_mod_eq)
  then have "x = y" by (simp add: word_unat_eq_iff)
  with Cons ys show ?case by simp
qed

lemma b64_digit_range: "n < 64 \<Longrightarrow> b64_digit n \<in> set ''ABCDEFGHIJKLMNOPQRSTUVWXYZabcdefghijklmnopqrstuvwxyz0123456789-_''"
  unfolding b64_digit_def by (rule nth_mem) simp

lemma b64_digit_ne: "n < 64 \<Longrightarrow> b64_digit n \<noteq> CHR ''#''"
  using b64_digit_range [of n] by fastforce

lemma byte_sextets:
  "unat (a :: 8 word) div 4 < 64" "unat a mod 4 * 16 + unat b div 16 < 64"
  "unat b mod 16 * 4 + unat (c :: 8 word) div 64 < 64" "unat c mod 64 < 64"
  "unat a mod 4 * 16 < 64" "unat (b :: 8 word) mod 16 * 4 < 64"
  using byte_less [of a] byte_less [of b] byte_less [of c] by auto

lemma b64url_no_hash: "CHR ''#'' \<notin> set (b64url bs)"
  by (induction bs rule: b64url.induct)
     (auto dest!: sym [of "CHR ''#''"] simp: b64_digit_ne byte_sextets)

lemma b64url_nonempty [simp]: "b64url bs = [] \<longleftrightarrow> bs = []"
  by (cases bs rule: b64url.cases) auto

lemma trim_right_snoc [simp]: "trim_right c (s @ [c]) = trim_right c s"
  by (simp add: trim_right_def)

lemma trim_left_space_fix: "find (\<lambda>sp. prefix sp (trim_left_space s)) space_encodings = None"
proof (induction s rule: trim_left_space.induct)
  case (1 s)
  then show ?case
    by (subst trim_left_space.simps, cases "find (\<lambda>sp. prefix sp s) space_encodings") auto
qed

lemma trim_right_space_fix: "find (\<lambda>sp. suffix sp (trim_right_space s)) space_encodings = None"
proof (induction s rule: trim_right_space.induct)
  case (1 s)
  then show ?case
    by (subst trim_right_space.simps, cases "find (\<lambda>sp. suffix sp s) space_encodings") auto
qed

text \<open>A string of ASCII graphic characters has nothing to trim.\<close>

definition graphic :: "char \<Rightarrow> bool" where
  "graphic c \<longleftrightarrow> (33 :: nat) \<le> of_char c \<and> of_char c \<le> (126 :: nat)"

lemma space_not_graphic: "sp \<in> set space_encodings \<Longrightarrow> c \<in> set sp \<Longrightarrow> \<not> graphic c"
  unfolding space_encodings_def graphic_def by auto

lemma trim_graphic:
  assumes "list_all graphic s"
  shows "trim_space s = s"
proof -
  have no: "\<not> (set sp \<subseteq> set s)" if sp: "sp \<in> set space_encodings" for sp
  proof
    assume sub: "set sp \<subseteq> set s"
    from space_nonempty [OF sp] obtain c where "c \<in> set sp" by (cases sp) auto
    with space_not_graphic [OF sp] sub assms show False by (auto simp: list_all_iff)
  qed
  then have "find (\<lambda>sp. prefix sp s) space_encodings = None" "find (\<lambda>sp. suffix sp s) space_encodings = None"
    by (auto simp: find_None_iff dest: set_mono_prefix set_mono_suffix)
  then have "trim_left_space s = s" "trim_right_space s = s"
    by (subst trim_left_space.simps trim_right_space.simps, simp)+
  then show ?thesis by (simp add: trim_space_def)
qed

end
