(* ===== verification/Issuer.thy ===== *)
theory Issuer
  imports Effects Encoding
begin

text \<open>
  The guest token issuer of internal/issuer/issuer.go: the claims Mint signs and the discovery
  document. The signature itself (package jose) is the reply of the environment to
  \<open>DoSign\<close>; the private key and the key set are values of that library.
\<close>

record issuer =
  is_issuerURL :: string
  is_audience :: string
  is_ttl :: duration

record guest =
  gu_Subject :: string
  gu_Name :: string
  gu_Username :: string
  gu_ApplicationID :: string
  gu_EventID :: string
  gu_Slot :: int

definition Mint :: "issuer \<Rightarrow> guest \<Rightarrow> (err + string \<times> time) prog" where
  "Mint i g =
     DoNow (\<lambda>now.
       let expires = time_add now (is_ttl i)
       in DoUuid (\<lambda>jti.
         DoSign \<lparr>jc_Issuer = is_issuerURL i, jc_Subject = gu_Subject g, jc_Audience = [is_audience i],
                 jc_ID = jti, jc_IssuedAt = now, jc_Expiry = expires, jc_Guest = True,
                 jc_Name = gu_Name g, jc_Username = gu_Username g,
                 jc_ApplicationID = gu_ApplicationID g, jc_EventID = gu_EventID g,
                 jc_Slot = gu_Slot g\<rparr>
           (\<lambda>r. case r of Inl e \<Rightarrow> Ret (Inl e) | Inr raw \<Rightarrow> Ret (Inr (raw, expires)))))"

text \<open>The discovery document: every value is a string or a list of strings.\<close>

definition Discovery :: "issuer \<Rightarrow> (string \<times> string list) list" where
  "Discovery i =
     [(''issuer'', [is_issuerURL i]),
      (''jwks_uri'', [is_issuerURL i @ ''/jwks'']),
      (''id_token_signing_alg_values_supported'', [''ES256'']),
      (''response_types_supported'', [''id_token'']),
      (''subject_types_supported'', [''public''])]"

end
