(* ===== verification/Service.thy ===== *)
theory Service
  imports Issuer
begin

text \<open>
  The core of internal/access/service.go that every method uses: the service's configuration,
  its digests and secrets, loading of events and slots, and minting of sessions.

  HMAC-SHA256 is the field \<open>sv_mac\<close> (key, message to bytes), a parameter of the model: what
  the service needs of it is stated where it is needed.
\<close>

record service =
  sv_issuer :: issuer
  sv_mac :: "string \<Rightarrow> string \<Rightarrow> 8 word list"
  sv_hmacKey :: string
  sv_publicDemoURL :: string
  sv_maxCapacity :: int
  sv_leaseTTL :: duration
  sv_gracePeriod :: duration
  sv_cleaner :: bool \<comment> \<open>whether a cleaner is configured\<close>
  sv_cleanupLease :: duration

record session =
  ss_EventID :: string
  ss_Subject :: string
  ss_DisplayName :: string
  ss_Slot :: int
  ss_Token :: string
  ss_TokenExpiresAt :: time
  ss_LeaseExpiresAt :: time
  ss_GraceExpiresAt :: time
  ss_ResumeSecret :: string

text \<open>The constructor New: the demo URL loses trailing slashes, the cleanup lease is 45 seconds.\<close>

definition NewService ::
  "issuer \<Rightarrow> (string \<Rightarrow> string \<Rightarrow> 8 word list) \<Rightarrow> string \<Rightarrow> string \<Rightarrow> int \<Rightarrow> duration \<Rightarrow> duration \<Rightarrow>
   bool \<Rightarrow> service" where
  "NewService iss mac key url maxcap lease grace cleaner =
     \<lparr>sv_issuer = iss, sv_mac = mac, sv_hmacKey = key, sv_publicDemoURL = trim_right (CHR ''/'') url,
      sv_maxCapacity = maxcap, sv_leaseTTL = lease, sv_gracePeriod = grace, sv_cleaner = cleaner,
      sv_cleanupLease = 45 * second\<rparr>"

definition ConfigureCleanupLease :: "service \<Rightarrow> duration \<Rightarrow> service" where
  "ConfigureCleanupLease s timeout = s\<lparr>sv_cleanupLease := timeout + 15 * second\<rparr>"

definition digest :: "service \<Rightarrow> string \<Rightarrow> string" where
  "digest s value = hex_encode (sv_mac s (sv_hmacKey s) value)"

definition invitationURL :: "service \<Rightarrow> string \<Rightarrow> string" where
  "invitationURL s secret = sv_publicDemoURL s @ ''#'' @ secret"

definition randomSecret :: "(err + string) prog" where
  "randomSecret = DoRand (\<lambda>r. case r of Inl e \<Rightarrow> Ret (Inl e) | Inr bs \<Rightarrow> Ret (Inr (b64url bs)))"

definition loadEvent :: "string \<Rightarrow> (err + event \<times> nat) prog" where
  "loadEvent eid =
     DoGet (eventKey eid) (\<lambda>r. case r of
         Inl e \<Rightarrow> if errors_is e StoreNotFound then Ret (Inl ErrNotFound) else Ret (Inl e)
       | Inr en \<Rightarrow> (case decode_event (en_Value en) of
             Inl e \<Rightarrow> Ret (Inl e)
           | Inr ev \<Rightarrow> Ret (Inr (ev, en_Revision en))))"

definition loadSlot :: "string \<Rightarrow> int \<Rightarrow> (err + slot \<times> nat) prog" where
  "loadSlot eid number =
     DoGet (slotKey eid number) (\<lambda>r. case r of
         Inl e \<Rightarrow> Ret (Inl e)
       | Inr en \<Rightarrow> (case decode_slot (en_Value en) of
             Inl e \<Rightarrow> Ret (Inl e)
           | Inr sl \<Rightarrow> Ret (Inr (sl, en_Revision en))))"

definition deleteIfExists :: "string \<Rightarrow> (err + unit) prog" where
  "deleteIfExists key =
     DoDelete key (\<lambda>r. case r of
         Inl e \<Rightarrow> if errors_is e StoreNotFound then Ret (Inr ()) else Ret (Inl e)
       | Inr _ \<Rightarrow> Ret (Inr ()))"

text \<open>Decoding the slots of a listing; the first that does not decode is the error.\<close>

fun decode_slots :: "(string \<times> entry) list \<Rightarrow> err + slot list" where
  "decode_slots [] = Inr []"
| "decode_slots ((k, en) # rest) =
     (case decode_slot (en_Value en) of
        Inl e \<Rightarrow> Inl e
      | Inr sl \<Rightarrow> (case decode_slots rest of Inl e \<Rightarrow> Inl e | Inr sls \<Rightarrow> Inr (sl # sls)))"

definition mint :: "service \<Rightarrow> event \<Rightarrow> slot \<Rightarrow> string \<Rightarrow> (err + session) prog" where
  "mint s ev sl resumeSecret =
     (let display = ''Demo User '' @ itoa (sl_Number sl)
      in tryp (Mint (sv_issuer s)
           \<lparr>gu_Subject = sl_Subject sl, gu_Name = display, gu_Username = ''demo-user-'' @ itoa (sl_Number sl),
            gu_ApplicationID = ev_ApplicationID ev, gu_EventID = ev_ID ev, gu_Slot = sl_Number sl\<rparr>)
         (\<lambda>(token, expires).
           Ret (Inr \<lparr>ss_EventID = ev_ID ev, ss_Subject = sl_Subject sl, ss_DisplayName = display,
                     ss_Slot = sl_Number sl, ss_Token = token, ss_TokenExpiresAt = expires,
                     ss_LeaseExpiresAt = sl_LeaseExpiresAt sl, ss_GraceExpiresAt = sl_GraceExpiresAt sl,
                     ss_ResumeSecret = resumeSecret\<rparr>)))"

section \<open>Runs of the helpers\<close>

lemma run_loadEvent:
  "run (loadEvent eid) w =
     ((case mem_at (w_mem w) (eventKey eid) of
         None \<Rightarrow> Inl ErrNotFound
       | Some en \<Rightarrow> (case decode_event (en_Value en) of
             Inl e \<Rightarrow> Inl e | Inr ev \<Rightarrow> Inr (ev, en_Revision en))), w)"
  by (auto simp: loadEvent_def mem.get_eq split: option.splits sum.splits)

lemma run_loadSlot:
  "run (loadSlot eid n) w =
     ((case mem_at (w_mem w) (slotKey eid n) of
         None \<Rightarrow> Inl StoreNotFound
       | Some en \<Rightarrow> (case decode_slot (en_Value en) of
             Inl e \<Rightarrow> Inl e | Inr sl \<Rightarrow> Inr (sl, en_Revision en))), w)"
  by (auto simp: loadSlot_def mem.get_eq split: option.splits sum.splits)

lemma read_only_load [simp]:
  "read_only (loadEvent eid)" "read_only (loadSlot eid n)"
  by (auto simp: loadEvent_def loadSlot_def split: sum.splits)

lemma decode_slots_Inr:
  "decode_slots xs = Inr sls \<longleftrightarrow> list_all2 (\<lambda>x sl. en_Value (snd x) = VSlot sl) xs sls"
proof
  assume "decode_slots xs = Inr sls"
  then show "list_all2 (\<lambda>x sl. en_Value (snd x) = VSlot sl) xs sls"
    by (induction xs arbitrary: sls rule: decode_slots.induct) (auto split: sum.splits)
next
  assume "list_all2 (\<lambda>x sl. en_Value (snd x) = VSlot sl) xs sls"
  then show "decode_slots xs = Inr sls"
    by (induction rule: list_all2_induct) auto
qed

lemma decode_slots_length: "decode_slots xs = Inr sls \<Longrightarrow> length sls = length xs"
  by (auto simp: decode_slots_Inr dest: list_all2_lengthD)

end
