(* ===== verification/Recovery.thy ===== *)
theory Recovery
  imports Service
begin

text \<open>
  Cleanup and recovery, internal/access/recovery.go with the helpers it shares with service.go:
  claiming and erasing one slot, deleting an event with its receipt, the reconciler, and the
  receipts.
\<close>

section \<open>Claims and backoff\<close>

definition retryDelay :: "int \<Rightarrow> duration" where
  "retryDelay attempt =
     (let attempt = (if attempt > 6 then 6 else attempt);
          attempt = (if attempt < 1 then 1 else attempt)
      in push_bit (nat (attempt - 1)) 1 * 5 * second)"

definition claim_next :: "progress \<Rightarrow> time \<Rightarrow> duration \<Rightarrow> err + progress" where
  "claim_next p now lease =
     (if before now (pg_NextAttemptAt p) then Inl ErrCleanupPending
      else Inr (p\<lparr>pg_Attempts := pg_Attempts p + 1, pg_NextAttemptAt := time_add now lease\<rparr>))"

definition claimCleanup :: "progress option \<Rightarrow> time \<Rightarrow> duration \<Rightarrow> (err + progress) prog" where
  "claimCleanup p now lease =
     (case p of
        None \<Rightarrow> DoUuid (\<lambda>u. Ret (claim_next
          \<lparr>pg_ID = u, pg_Attempts = 0, pg_StartedAt = now, pg_NextAttemptAt = zero_time, pg_LastError = ''''\<rparr>
          now lease))
      | Some p \<Rightarrow> Ret (claim_next p now lease))"

definition failed_attempt :: "progress \<Rightarrow> time \<Rightarrow> progress" where
  "failed_attempt p now =
     p\<lparr>pg_LastError := ''application_cleanup_failed'',
       pg_NextAttemptAt := time_add now (retryDelay (pg_Attempts p))\<rparr>"

text \<open>The error of a cleanup reply: its own, or an incomplete acknowledgement.\<close>

definition cleanup_error :: "err + int \<Rightarrow> int \<Rightarrow> err option" where
  "cleanup_error r expected =
     (case r of
        Inl e \<Rightarrow> Some e
      | Inr count \<Rightarrow>
          if count \<noteq> expected then Some (ErrOther ''incomplete cleanup acknowledgement'') else None)"

definition ack_count :: "err + int \<Rightarrow> int" where
  "ack_count r = (case r of Inl _ \<Rightarrow> 0 | Inr count \<Rightarrow> count)"

definition err_of :: "err + 'a \<Rightarrow> err option" where
  "err_of r = (case r of Inl e \<Rightarrow> Some e | Inr _ \<Rightarrow> None)"

definition not_configured :: err where
  "not_configured = ErrOther ''cleanup is not configured''"

section \<open>One slot\<close>

text \<open>The last part of cleanSlot, after a complete acknowledgement: the session index and the slot go.\<close>

definition release_slot :: "string \<Rightarrow> slot \<Rightarrow> nat \<Rightarrow> (err + unit) prog" where
  "release_slot key sl revision =
     tryp (deleteIfExists (sessionKey (sl_ResumeDigest sl))) (\<lambda>_.
       DoDeleteRev key revision (\<lambda>r. case r of
         Inl e \<Rightarrow> if errors_is e StoreNotFound then Ret (Inr ()) else Ret (Inl e)
       | Inr _ \<Rightarrow> Ret (Inr ())))"

text \<open>A failed cleanup is recorded in the progress, and both errors are joined.\<close>

definition record_failure ::
  "string \<Rightarrow> (progress \<Rightarrow> val) \<Rightarrow> progress \<Rightarrow> nat \<Rightarrow> err \<Rightarrow> (err + 'a) prog" where
  "record_failure key with_progress progress revision cleanErr =
     DoNow (\<lambda>now.
       DoUpdate key (with_progress (failed_attempt progress now)) revision
         (\<lambda>saved. Ret (Inl (Joined (cleanErr # (case err_of saved of None \<Rightarrow> [] | Some e \<Rightarrow> [e]))))))"

text \<open>The middle part: the application erases the guest of a claimed slot.\<close>

definition erase_slot :: "event \<Rightarrow> slot \<Rightarrow> progress \<Rightarrow> nat \<Rightarrow> (err + unit) prog" where
  "erase_slot ev sl progress revision =
     DoCleanup \<lparr>cc_DeletionID = pg_ID progress, cc_ApplicationID = ev_ApplicationID ev,
                cc_EventID = ev_ID ev, cc_Subjects = [sl_Subject sl],
                cc_Reason = ''guest_slot_released''\<rparr>
       (\<lambda>ack. case cleanup_error ack 1 of
          Some cleanErr \<Rightarrow>
            record_failure (slotKey (ev_ID ev) (sl_Number sl))
              (\<lambda>p. VSlot (sl\<lparr>sl_Cleanup := Some p\<rparr>)) progress revision cleanErr
        | None \<Rightarrow> release_slot (slotKey (ev_ID ev) (sl_Number sl)) sl revision)"

definition cleanSlot :: "service \<Rightarrow> event \<Rightarrow> slot \<Rightarrow> nat \<Rightarrow> (err + unit) prog" where
  "cleanSlot s ev sl revision =
     (if \<not> sv_cleaner s then Ret (Inl not_configured)
      else DoNow (\<lambda>now.
        tryp (claimCleanup (sl_Cleanup sl) now (sv_cleanupLease s)) (\<lambda>progress.
          let sl = sl\<lparr>sl_Cleanup := Some progress\<rparr>
          in DoUpdate (slotKey (ev_ID ev) (sl_Number sl)) (VSlot sl) revision (\<lambda>r. case r of
              Inl e \<Rightarrow> Ret (Inl e)
            | Inr revision \<Rightarrow> erase_slot ev sl progress revision))))"

section \<open>Receipts\<close>

definition get_receipt :: "string \<Rightarrow> (err + receipt) prog" where
  "get_receipt eid =
     DoGet (receiptKey eid) (\<lambda>r. case r of
         Inl e \<Rightarrow> if errors_is e StoreNotFound then Ret (Inl ErrNotFound) else Ret (Inl e)
       | Inr en \<Rightarrow> Ret (decode_receipt (en_Value en)))"

definition GetReceipt :: "string \<Rightarrow> string \<Rightarrow> (err + receipt) prog" where
  "GetReceipt pr eid =
     tryp (get_receipt eid) (\<lambda>rc.
       if pr \<noteq> rc_OwnerSubject rc \<and> pr \<noteq> rc_DeletedBySubject rc then Ret (Inl ErrForbidden)
       else Ret (Inr rc))"

fun decode_receipts :: "(string \<times> entry) list \<Rightarrow> err + receipt list" where
  "decode_receipts [] = Inr []"
| "decode_receipts ((k, en) # rest) =
     (case decode_receipt (en_Value en) of
        Inl e \<Rightarrow> Inl e
      | Inr rc \<Rightarrow> (case decode_receipts rest of Inl e \<Rightarrow> Inl e | Inr rcs \<Rightarrow> Inr (rc # rcs)))"

definition visible_receipts :: "string \<Rightarrow> receipt list \<Rightarrow> receipt list" where
  "visible_receipts pr rcs =
     take 100 (sort_key (\<lambda>rc. - rc_DeletedAt rc)
       (filter (\<lambda>rc. pr = rc_OwnerSubject rc \<or> pr = rc_DeletedBySubject rc) rcs))"

definition ListReceipts :: "string \<Rightarrow> (err + receipt list) prog" where
  "ListReceipts pr =
     DoList ''receipt.'' (\<lambda>r. case r of
         Inl e \<Rightarrow> Ret (Inl e)
       | Inr entries \<Rightarrow> (case decode_receipts entries of
             Inl e \<Rightarrow> Ret (Inl e)
           | Inr rcs \<Rightarrow> Ret (Inr (visible_receipts pr rcs))))"

section \<open>Deleting an event\<close>

primrec markSessionDeleted_loop :: "nat \<Rightarrow> slot \<Rightarrow> (err + unit) prog" where
  "markSessionDeleted_loop 0 sl = Ret (Inl ErrConflict)"
| "markSessionDeleted_loop (Suc n) sl =
     DoGet (sessionKey (sl_ResumeDigest sl)) (\<lambda>r. case r of
         Inl e \<Rightarrow> if errors_is e StoreNotFound then Ret (Inr ()) else Ret (Inl e)
       | Inr en \<Rightarrow>
           DoUpdate (sessionKey (sl_ResumeDigest sl))
             (VIndex \<lparr>ix_Deleted = True, ix_EventID = sl_EventID sl, ix_Slot = sl_Number sl\<rparr>) (en_Revision en)
             (\<lambda>u. case u of
                Inl e \<Rightarrow> if errors_is e StoreConflict then markSessionDeleted_loop n sl else Ret (Inl e)
              | Inr _ \<Rightarrow> Ret (Inr ())))"

definition markSessionDeleted :: "slot \<Rightarrow> (err + unit) prog" where
  "markSessionDeleted sl = markSessionDeleted_loop 5 sl"

primrec finalize_slots :: "(string \<times> entry) list \<Rightarrow> (err + unit) prog" where
  "finalize_slots [] = Ret (Inr ())"
| "finalize_slots (x # rest) =
     (case decode_slot (en_Value (snd x)) of
        Inl e \<Rightarrow> Ret (Inl e)
      | Inr sl \<Rightarrow>
          tryp (markSessionDeleted sl) (\<lambda>_.
            DoDeleteRev (fst x) (en_Revision (snd x)) (\<lambda>r. case r of
              Inl e \<Rightarrow> if \<not> errors_is e StoreNotFound then Ret (Inl e) else finalize_slots rest
            | Inr _ \<Rightarrow> finalize_slots rest)))"

definition finalizeEvent :: "event \<Rightarrow> nat \<Rightarrow> (err + unit) prog" where
  "finalizeEvent ev revision =
     DoList (slotPrefix (ev_ID ev)) (\<lambda>r. case r of
         Inl e \<Rightarrow> Ret (Inl e)
       | Inr entries \<Rightarrow>
           tryp (finalize_slots entries) (\<lambda>_.
             tryp (deleteIfExists (invitationKey (ev_InvitationDigest ev))) (\<lambda>_.
               DoDeleteRev (eventKey (ev_ID ev)) revision (\<lambda>r. case r of
                 Inl e \<Rightarrow> if errors_is e StoreNotFound then Ret (Inr ()) else Ret (Inl e)
               | Inr _ \<Rightarrow> Ret (Inr ())))))"

text \<open>A deletion tracked before cleanup progress existed is upgraded in place.\<close>

definition upgrade_tracked :: "event \<Rightarrow> event" where
  "upgrade_tracked ev =
     (if ev_Cleanup ev = None
      then ev\<lparr>ev_Cleanup := Some \<lparr>pg_ID = ev_DeletionID ev, pg_Attempts = 0, pg_StartedAt = ev_UpdatedAt ev,
                                  pg_NextAttemptAt = zero_time, pg_LastError = ''''\<rparr>,
              ev_DeletedBySubject := ev_OwnerSubject ev\<rparr>
      else ev)"

definition receipt_of :: "event \<Rightarrow> time \<Rightarrow> int \<Rightarrow> receipt" where
  "receipt_of ev now count =
     \<lparr>rc_DeletionID = ev_DeletionID ev, rc_EventID = ev_ID ev, rc_ApplicationID = ev_ApplicationID ev,
      rc_OwnerSubject = ev_OwnerSubject ev, rc_DeletedBySubject = ev_DeletedBySubject ev,
      rc_CreatedAt = ev_CreatedAt ev, rc_DeletedAt = now, rc_IdentitiesDeleted = count\<rparr>"

text \<open>The last part of cleanEvent: the receipt is created, or the one that exists is read, and the event finalized.\<close>

definition save_receipt :: "event \<Rightarrow> nat \<Rightarrow> receipt \<Rightarrow> (err + receipt) prog" where
  "save_receipt ev revision rc =
     DoCreate (receiptKey (ev_ID ev)) (VReceipt rc) (\<lambda>r. 
       tryp (case r of
           Inl e \<Rightarrow> if errors_is e StoreExists then get_receipt (ev_ID ev) else Ret (Inl e)
         | Inr _ \<Rightarrow> Ret (Inr rc))
       (\<lambda>rc. tryp (finalizeEvent ev revision) (\<lambda>_. Ret (Inr rc))))"

text \<open>The middle part: the claimed event's identities are listed and handed to the application.\<close>

definition erase_event :: "event \<Rightarrow> progress \<Rightarrow> nat \<Rightarrow> (err + receipt) prog" where
  "erase_event ev progress revision =
     DoList (slotPrefix (ev_ID ev)) (\<lambda>r. case r of
         Inl e \<Rightarrow> Ret (Inl e)
       | Inr entries \<Rightarrow> (case decode_slots entries of
           Inl e \<Rightarrow> Ret (Inl e)
         | Inr sls \<Rightarrow>
             let subjects = sort (map sl_Subject sls)
             in DoCleanup \<lparr>cc_DeletionID = ev_DeletionID ev, cc_ApplicationID = ev_ApplicationID ev,
                           cc_EventID = ev_ID ev, cc_Subjects = subjects, cc_Reason = ''demo_event_deleted''\<rparr>
               (\<lambda>ack. case cleanup_error ack (int (length subjects)) of
                  Some cleanErr \<Rightarrow>
                    record_failure (eventKey (ev_ID ev)) (\<lambda>p. VEvent (ev\<lparr>ev_Cleanup := Some p\<rparr>))
                      progress revision cleanErr
                | None \<Rightarrow>
                    DoNow (\<lambda>now. save_receipt ev revision (receipt_of ev now (ack_count ack))))))"

definition cleanEvent :: "service \<Rightarrow> event \<Rightarrow> nat \<Rightarrow> (err + receipt) prog" where
  "cleanEvent s ev revision =
     prog_bind (get_receipt (ev_ID ev)) (\<lambda>r. case r of
         Inr rc \<Rightarrow> tryp (finalizeEvent ev revision) (\<lambda>_. Ret (Inr rc))
       | Inl e \<Rightarrow>
           if \<not> errors_is e ErrNotFound then Ret (Inl e)
           else if \<not> sv_cleaner s then Ret (Inl not_configured)
           else
             let ev = upgrade_tracked ev
             in DoNow (\<lambda>now.
               tryp (claimCleanup (ev_Cleanup ev) now (sv_cleanupLease s)) (\<lambda>progress.
                 let ev = ev\<lparr>ev_Cleanup := Some progress\<rparr>
                 in DoUpdate (eventKey (ev_ID ev)) (VEvent ev) revision (\<lambda>r. case r of
                     Inl e \<Rightarrow> Ret (Inl e)
                   | Inr revision \<Rightarrow> erase_event ev progress revision))))"

section \<open>The reconciler\<close>

record recovery_report =
  rr_Pending :: int
  rr_Attempted :: int
  rr_Completed :: int
  rr_Failed :: int
  rr_Oldest :: int \<comment> \<open>OldestSeconds, in nanoseconds\<close>

record cleanup_task =
  tk_event :: event
  tk_slot :: "slot option"
  tk_revision :: nat
  tk_due :: time
  tk_started :: time

definition empty_report :: recovery_report where
  "empty_report = \<lparr>rr_Pending = 0, rr_Attempted = 0, rr_Completed = 0, rr_Failed = 0, rr_Oldest = 0\<rparr>"

definition event_task :: "event \<Rightarrow> nat \<Rightarrow> cleanup_task" where
  "event_task ev revision =
     (case ev_Cleanup ev of
        None \<Rightarrow> \<lparr>tk_event = ev, tk_slot = None, tk_revision = revision, tk_due = zero_time,
                tk_started = ev_UpdatedAt ev\<rparr>
      | Some p \<Rightarrow> \<lparr>tk_event = ev, tk_slot = None, tk_revision = revision, tk_due = pg_NextAttemptAt p,
                tk_started = pg_StartedAt p\<rparr>)"

definition slot_task :: "event \<Rightarrow> time \<Rightarrow> slot \<Rightarrow> nat \<Rightarrow> cleanup_task option" where
  "slot_task ev now sl revision =
     (case sl_Cleanup sl of
        Some p \<Rightarrow> Some \<lparr>tk_event = ev, tk_slot = Some sl, tk_revision = revision,
                       tk_due = pg_NextAttemptAt p, tk_started = pg_StartedAt p\<rparr>
      | None \<Rightarrow>
          if ev_State ev \<noteq> Open \<or> sl_Reserved sl \<or> before now (sl_GraceExpiresAt sl) then None
          else Some \<lparr>tk_event = ev, tk_slot = Some sl, tk_revision = revision,
                     tk_due = sl_GraceExpiresAt sl, tk_started = sl_GraceExpiresAt sl\<rparr>)"

fun slot_tasks :: "event \<Rightarrow> time \<Rightarrow> (string \<times> entry) list \<Rightarrow> err + cleanup_task list" where
  "slot_tasks ev now [] = Inr []"
| "slot_tasks ev now ((k, en) # rest) =
     (case decode_slot (en_Value en) of
        Inl e \<Rightarrow> Inl e
      | Inr sl \<Rightarrow> (case slot_tasks ev now rest of
            Inl e \<Rightarrow> Inl e
          | Inr ts \<Rightarrow> Inr ((case slot_task ev now sl (en_Revision en) of None \<Rightarrow> [] | Some t \<Rightarrow> [t]) @ ts)))"

primrec gather_tasks :: "time \<Rightarrow> (string \<times> entry) list \<Rightarrow> (err + cleanup_task list) prog" where
  "gather_tasks now [] = Ret (Inr [])"
| "gather_tasks now (x # rest) =
     (case decode_event (en_Value (snd x)) of
        Inl e \<Rightarrow> Ret (Inl (Wrapped ''decode recovery event'' e))
      | Inr ev \<Rightarrow>
          if ev_State ev = Deleting
          then tryp (gather_tasks now rest) (\<lambda>ts. Ret (Inr (event_task ev (en_Revision (snd x)) # ts)))
          else DoList (slotPrefix (ev_ID ev)) (\<lambda>r. case r of
              Inl e \<Rightarrow> Ret (Inl e)
            | Inr slots \<Rightarrow> (case slot_tasks ev now slots of
                  Inl e \<Rightarrow> Ret (Inl e)
                | Inr ts \<Rightarrow> tryp (gather_tasks now rest) (\<lambda>ts'. Ret (Inr (ts @ ts'))))))"

definition run_task :: "service \<Rightarrow> cleanup_task \<Rightarrow> (err + unit) prog" where
  "run_task s t =
     (case tk_slot t of
        None \<Rightarrow> tryp (cleanEvent s (tk_event t) (tk_revision t)) (\<lambda>_. Ret (Inr ()))
      | Some sl \<Rightarrow> cleanSlot s (tk_event t) sl (tk_revision t))"

definition count_result :: "err + unit \<Rightarrow> recovery_report \<Rightarrow> recovery_report" where
  "count_result r rep =
     (case r of
        Inr _ \<Rightarrow> rep\<lparr>rr_Completed := rr_Completed rep + 1, rr_Pending := rr_Pending rep - 1\<rparr>
      | Inl e \<Rightarrow>
          if \<not> errors_is e StoreConflict \<and> \<not> errors_is e StoreNotFound \<and> \<not> errors_is e ErrCleanupPending
          then rep\<lparr>rr_Failed := rr_Failed rep + 1\<rparr> else rep)"

primrec process_tasks ::
  "service \<Rightarrow> time \<Rightarrow> int \<Rightarrow> cleanup_task list \<Rightarrow> recovery_report \<Rightarrow> (recovery_report \<times> err option) prog" where
  "process_tasks s now batch [] = (\<lambda>rep. Ret (rep, None))"
| "process_tasks s now batch (t # ts) = (\<lambda>rep.
     let rep = rep\<lparr>rr_Oldest := max (rr_Oldest rep) (time_sub now (tk_started t))\<rparr>
     in if before now (tk_due t) \<or> rr_Attempted rep \<ge> batch then process_tasks s now batch ts rep
        else DoCtx (\<lambda>c. case c of
            Some e \<Rightarrow> Ret (rep, Some e)
          | None \<Rightarrow>
              let rep = rep\<lparr>rr_Attempted := rr_Attempted rep + 1\<rparr>
              in prog_bind (run_task s t) (\<lambda>r. process_tasks s now batch ts (count_result r rep))))"

definition Reconcile :: "service \<Rightarrow> int \<Rightarrow> (recovery_report \<times> err option) prog" where
  "Reconcile s batch =
     (if batch < 1 \<or> \<not> sv_cleaner s then Ret (empty_report, None)
      else DoList ''event.'' (\<lambda>r. case r of
          Inl e \<Rightarrow> Ret (empty_report, Some e)
        | Inr events \<Rightarrow>
            DoNow (\<lambda>now.
              prog_bind (gather_tasks now events) (\<lambda>r. case r of
                  Inl e \<Rightarrow> Ret (empty_report, Some e)
                | Inr tasks \<Rightarrow>
                    process_tasks s now batch (sort_key tk_due tasks)
                      (empty_report\<lparr>rr_Pending := int (length tasks)\<rparr>)))))"

end
