(* ===== verification/Management.thy ===== *)
theory Management
  imports Recovery
begin

text \<open>
  The presenter's methods of internal/access/service.go: creating, listing and reading events,
  their state, capacity, invitation and cohosts, the slots, and release and deletion.

  Every write is a compare-and-set on the revision that was read; where the code retries a
  conflict five times, the loop is a recursion on the attempts left. The retry of
  \<open>reserveSlots\<close> is unbounded in the code: it takes fuel here, one unit for each time it
  starts over, and yields \<open>OutOfFuel\<close> when that is spent.
\<close>

section \<open>Creating, listing, reading\<close>

record create_input =
  ci_ApplicationID :: string
  ci_Name :: string
  ci_Capacity :: int
  ci_InspectLive :: bool

definition invalid_event :: err where
  "invalid_event = Wrapped ''invalid event'' ErrConflict"

definition valid_input :: "service \<Rightarrow> string \<Rightarrow> create_input \<Rightarrow> bool" where
  "valid_input s owner input \<longleftrightarrow>
     \<not> (owner = '''' \<or> ci_Name input = '''' \<or> length (ci_Name input) > 200 \<or>
        \<not> applicationIDPattern (ci_ApplicationID input) \<or>
        ci_Capacity input < 0 \<or> ci_Capacity input > sv_maxCapacity s)"

definition new_event :: "string \<Rightarrow> create_input \<Rightarrow> string \<Rightarrow> string \<Rightarrow> time \<Rightarrow> event" where
  "new_event owner input eid dig now =
     \<lparr>ev_Cleanup = None, ev_DeletedBySubject = '''', ev_ID = eid,
      ev_ApplicationID = ci_ApplicationID input, ev_Name = ci_Name input, ev_OwnerSubject = owner,
      ev_Capacity = ci_Capacity input, ev_InspectLive = ci_InspectLive input, ev_State = Draft,
      ev_InvitationDigest = dig, ev_DeletionID = '''', ev_Cohosts = [], ev_CreatedAt = now,
      ev_UpdatedAt = now\<rparr>"

definition CreateEvent :: "service \<Rightarrow> string \<Rightarrow> create_input \<Rightarrow> (err + event \<times> string) prog" where
  "CreateEvent s owner input =
     (let input = input\<lparr>ci_Name := trim_space (ci_Name input),
                        ci_ApplicationID := trim_space (ci_ApplicationID input)\<rparr>
      in if \<not> valid_input s owner input then Ret (Inl invalid_event)
         else tryp randomSecret (\<lambda>secret.
           DoNow (\<lambda>now. DoUuid (\<lambda>eid.
             let ev = new_event owner input eid (digest s secret) now
             in DoCreate (eventKey (ev_ID ev)) (VEvent ev) (\<lambda>r. case r of
                 Inl e \<Rightarrow> Ret (Inl e)
               | Inr _ \<Rightarrow>
                   DoCreate (invitationKey (ev_InvitationDigest ev)) (VText (ev_ID ev)) (\<lambda>r. case r of
                     Inl e \<Rightarrow> DoDelete (eventKey (ev_ID ev)) (\<lambda>_. Ret (Inl e))
                   | Inr _ \<Rightarrow> Ret (Inr (ev, invitationURL s secret))))))))"

fun visible_events :: "string \<Rightarrow> (string \<times> entry) list \<Rightarrow> event list" where
  "visible_events pr [] = []"
| "visible_events pr ((k, en) # rest) =
     (case decode_event (en_Value en) of
        Inl _ \<Rightarrow> visible_events pr rest
      | Inr ev \<Rightarrow> if can_see ev pr then ev # visible_events pr rest else visible_events pr rest)"

definition ListEvents :: "string \<Rightarrow> (err + event list) prog" where
  "ListEvents pr =
     DoList ''event.'' (\<lambda>r. case r of
         Inl e \<Rightarrow> Ret (Inl e)
       | Inr entries \<Rightarrow> Ret (Inr (sort_key ev_CreatedAt (visible_events pr entries))))"

definition GetEvent :: "string \<Rightarrow> string \<Rightarrow> (err + event) prog" where
  "GetEvent pr eid =
     tryp (loadEvent eid) (\<lambda>(ev, _).
       if \<not> can_see ev pr then Ret (Inl ErrForbidden) else Ret (Inr ev))"

section \<open>State changes\<close>

primrec reserve_loop :: "(err + unit) prog \<Rightarrow> (string \<times> entry) list \<Rightarrow> (err + unit) prog" where
  "reserve_loop again [] = Ret (Inr ())"
| "reserve_loop again (x # rest) =
     (case decode_slot (en_Value (snd x)) of
        Inl e \<Rightarrow> Ret (Inl e)
      | Inr sl \<Rightarrow>
          if sl_Reserved sl \<or> sl_Cleanup sl \<noteq> None then reserve_loop again rest
          else DoUpdate (fst x) (VSlot (sl\<lparr>sl_Reserved := True\<rparr>)) (en_Revision (snd x)) (\<lambda>r. case r of
              Inl e \<Rightarrow> if errors_is e StoreConflict then again else Ret (Inl e)
            | Inr _ \<Rightarrow> reserve_loop again rest))"

primrec reserveSlots :: "nat \<Rightarrow> string \<Rightarrow> (err + unit) prog" where
  "reserveSlots 0 eid = Ret (Inl OutOfFuel)"
| "reserveSlots (Suc fuel) eid =
     DoList (slotPrefix eid) (\<lambda>r. case r of
         Inl e \<Rightarrow> Ret (Inl e)
       | Inr entries \<Rightarrow> reserve_loop (reserveSlots fuel eid) entries)"

definition transition_error :: err where
  "transition_error = Wrapped ''cannot transition'' ErrConflict"

primrec SetState_loop ::
  "nat \<Rightarrow> nat \<Rightarrow> string \<Rightarrow> string \<Rightarrow> event_state \<Rightarrow> (err + event) prog" where
  "SetState_loop fuel 0 pr eid target = Ret (Inl ErrConflict)"
| "SetState_loop fuel (Suc n) pr eid target =
     tryp (loadEvent eid) (\<lambda>(ev, revision).
       if \<not> can ev pr CapOperate then Ret (Inl ErrForbidden)
       else if ev_State ev \<noteq> target \<and> \<not> validTransition (ev_State ev) target
       then Ret (Inl transition_error)
       else DoNow (\<lambda>now.
         let ev = ev\<lparr>ev_State := target, ev_UpdatedAt := now\<rparr>
         in DoUpdate (eventKey eid) (VEvent ev) revision (\<lambda>r. case r of
             Inl e \<Rightarrow> if errors_is e StoreConflict then SetState_loop fuel n pr eid target
                      else Ret (Inl e)
           | Inr _ \<Rightarrow>
               if target = Paused then tryp (reserveSlots fuel eid) (\<lambda>_. Ret (Inr ev))
               else Ret (Inr ev))))"

definition SetState :: "nat \<Rightarrow> string \<Rightarrow> string \<Rightarrow> event_state \<Rightarrow> (err + event) prog" where
  "SetState fuel pr eid target = SetState_loop fuel 5 pr eid target"

primrec UpdateCapacity_loop :: "nat \<Rightarrow> string \<Rightarrow> string \<Rightarrow> int \<Rightarrow> (err + event) prog" where
  "UpdateCapacity_loop 0 pr eid capacity = Ret (Inl ErrConflict)"
| "UpdateCapacity_loop (Suc n) pr eid capacity =
     tryp (loadEvent eid) (\<lambda>(ev, revision).
       if \<not> can ev pr CapOperate then Ret (Inl ErrForbidden)
       else if ev_State ev = Deleting then Ret (Inl ErrConflict)
       else DoNow (\<lambda>now.
         let ev = ev\<lparr>ev_Capacity := capacity, ev_UpdatedAt := now\<rparr>
         in DoUpdate (eventKey eid) (VEvent ev) revision (\<lambda>r. case r of
             Inl e \<Rightarrow> if errors_is e StoreConflict then UpdateCapacity_loop n pr eid capacity
                      else Ret (Inl e)
           | Inr _ \<Rightarrow> Ret (Inr ev))))"

definition UpdateCapacity :: "service \<Rightarrow> string \<Rightarrow> string \<Rightarrow> int \<Rightarrow> (err + event) prog" where
  "UpdateCapacity s pr eid capacity =
     (if capacity < 0 \<or> capacity > sv_maxCapacity s
      then Ret (Inl (Wrapped ''invalid capacity'' ErrConflict))
      else UpdateCapacity_loop 5 pr eid capacity)"

definition RotateInvitation :: "service \<Rightarrow> string \<Rightarrow> string \<Rightarrow> (err + string) prog" where
  "RotateInvitation s pr eid =
     tryp (loadEvent eid) (\<lambda>(ev, revision).
       if \<not> can ev pr CapOperate then Ret (Inl ErrForbidden)
       else if ev_State ev = Deleting then Ret (Inl ErrConflict)
       else tryp randomSecret (\<lambda>secret.
         let newDigest = digest s secret
         in DoCreate (invitationKey newDigest) (VText eid) (\<lambda>r. case r of
             Inl e \<Rightarrow> Ret (Inl e)
           | Inr _ \<Rightarrow>
               DoNow (\<lambda>now.
                 let oldDigest = ev_InvitationDigest ev;
                     ev = ev\<lparr>ev_InvitationDigest := newDigest, ev_UpdatedAt := now\<rparr>
                 in DoUpdate (eventKey eid) (VEvent ev) revision (\<lambda>r. case r of
                     Inl e \<Rightarrow> DoDelete (invitationKey newDigest) (\<lambda>_. Ret (Inl e))
                   | Inr _ \<Rightarrow>
                       DoDelete (invitationKey oldDigest) (\<lambda>_. Ret (Inr (invitationURL s secret))))))))"

definition valid_capability :: "capability \<Rightarrow> bool" where
  "valid_capability c \<longleftrightarrow> \<not> (c \<noteq> CapOperate \<and> c \<noteq> CapInspect \<and> c \<noteq> CapDelete)"

definition set_cohost :: "event \<Rightarrow> string \<Rightarrow> capability list \<Rightarrow> event" where
  "set_cohost ev cohost caps =
     (if caps = [] then ev\<lparr>ev_Cohosts := AList.delete cohost (ev_Cohosts ev)\<rparr>
      else ev\<lparr>ev_Cohosts := AList.update cohost caps (ev_Cohosts ev)\<rparr>)"

primrec SetCohost_loop ::
  "nat \<Rightarrow> string \<Rightarrow> string \<Rightarrow> string \<Rightarrow> capability list \<Rightarrow> (err + event) prog" where
  "SetCohost_loop 0 pr eid cohost caps = Ret (Inl ErrConflict)"
| "SetCohost_loop (Suc n) pr eid cohost caps =
     tryp (loadEvent eid) (\<lambda>(ev, revision).
       if ev_OwnerSubject ev \<noteq> pr \<or> cohost = '''' \<or> cohost = pr then Ret (Inl ErrForbidden)
       else if ev_State ev = Deleting then Ret (Inl ErrConflict)
       else DoNow (\<lambda>now.
         let ev = (set_cohost ev cohost caps)\<lparr>ev_UpdatedAt := now\<rparr>
         in DoUpdate (eventKey eid) (VEvent ev) revision (\<lambda>r. case r of
             Inl e \<Rightarrow> if errors_is e StoreConflict then SetCohost_loop n pr eid cohost caps
                      else Ret (Inl e)
           | Inr _ \<Rightarrow> Ret (Inr ev))))"

definition SetCohost :: "string \<Rightarrow> string \<Rightarrow> string \<Rightarrow> capability list \<Rightarrow> (err + event) prog" where
  "SetCohost pr eid cohost caps =
     (if \<exists>c \<in> set caps. \<not> valid_capability c
      then Ret (Inl (Wrapped ''invalid capability'' ErrConflict))
      else SetCohost_loop 5 pr eid cohost caps)"

section \<open>Slots, release, deletion\<close>

fun decodable_slots :: "(string \<times> entry) list \<Rightarrow> slot list" where
  "decodable_slots [] = []"
| "decodable_slots ((k, en) # rest) =
     (case decode_slot (en_Value en) of
        Inl _ \<Rightarrow> decodable_slots rest | Inr sl \<Rightarrow> sl # decodable_slots rest)"

definition ListSlots :: "string \<Rightarrow> string \<Rightarrow> (err + slot list) prog" where
  "ListSlots pr eid =
     tryp (GetEvent pr eid) (\<lambda>ev.
       if \<not> can ev pr CapInspect \<and> \<not> can ev pr CapOperate then Ret (Inl ErrForbidden)
       else DoList (slotPrefix eid) (\<lambda>r. case r of
           Inl e \<Rightarrow> Ret (Inl e)
         | Inr entries \<Rightarrow> Ret (Inr (sort_key sl_Number (decodable_slots entries)))))"

definition ReleaseSlot :: "service \<Rightarrow> string \<Rightarrow> string \<Rightarrow> int \<Rightarrow> (err + unit) prog" where
  "ReleaseSlot s pr eid number =
     tryp (GetEvent pr eid) (\<lambda>ev.
       if \<not> can ev pr CapOperate then Ret (Inl ErrForbidden)
       else if ev_State ev = Deleting then Ret (Inl ErrConflict)
       else tryp (loadSlot eid number) (\<lambda>(sl, revision). cleanSlot s ev sl revision))"

definition start_deleting :: "event \<Rightarrow> string \<Rightarrow> string \<Rightarrow> time \<Rightarrow> time \<Rightarrow> event" where
  "start_deleting ev pr delid now1 now2 =
     ev\<lparr>ev_State := Deleting, ev_DeletionID := delid, ev_DeletedBySubject := pr,
        ev_Cleanup := Some \<lparr>pg_ID = delid, pg_Attempts = 0, pg_StartedAt = now1,
                           pg_NextAttemptAt = zero_time, pg_LastError = ''''\<rparr>,
        ev_UpdatedAt := now2\<rparr>"

definition DeleteEvent :: "service \<Rightarrow> string \<Rightarrow> string \<Rightarrow> (err + receipt) prog" where
  "DeleteEvent s pr eid =
     prog_bind (loadEvent eid) (\<lambda>r. case r of
         Inl e \<Rightarrow> if errors_is e ErrNotFound then GetReceipt pr eid else Ret (Inl e)
       | Inr (ev, revision) \<Rightarrow>
           if \<not> can ev pr CapDelete then Ret (Inl ErrForbidden)
           else if \<not> sv_cleaner s then Ret (Inl not_configured)
           else if ev_State ev \<noteq> Deleting
           then DoUuid (\<lambda>delid. DoNow (\<lambda>now1. DoNow (\<lambda>now2.
             let ev = start_deleting ev pr delid now1 now2
             in DoUpdate (eventKey eid) (VEvent ev) revision (\<lambda>r. case r of
                 Inl e \<Rightarrow> Ret (Inl e)
               | Inr revision \<Rightarrow> cleanEvent s ev revision))))
           else cleanEvent s ev revision)"

end
