(* ===== verification/Sessions.thy ===== *)
theory Sessions
  imports Management
begin

text \<open>
  The guest's methods of internal/access/service.go: starting a session on the first free slot
  of an open event, and renewing its lease.
\<close>

section \<open>Starting a session\<close>

definition new_slot :: "service \<Rightarrow> event \<Rightarrow> int \<Rightarrow> string \<Rightarrow> string \<Rightarrow> time \<Rightarrow> slot" where
  "new_slot s ev number generation secret now =
     \<lparr>sl_Cleanup = None, sl_EventID = ev_ID ev, sl_Number = number, sl_Generation = generation,
      sl_Subject = ''guest:'' @ ev_ID ev @ '':'' @ generation,
      sl_ResumeDigest = digest s secret, sl_Reserved = False,
      sl_LeaseExpiresAt = time_add now (sv_leaseTTL s),
      sl_GraceExpiresAt = time_add now (sv_leaseTTL s + sv_gracePeriod s),
      sl_CreatedAt = now, sl_LastSeenAt = now\<rparr>"

text \<open>
  The part of the loop body after the slot was created at \<open>slotRevision\<close>: the event is read
  again, and the slot is rolled back unless the event still admits it.
\<close>

definition admit :: "service \<Rightarrow> event \<Rightarrow> slot \<Rightarrow> string \<Rightarrow> nat \<Rightarrow> (err + session) prog \<Rightarrow> (err + session) prog" where
  "admit s ev sl secret slotRevision next_number =
     (let key = slotKey (ev_ID ev) (sl_Number sl)
      in prog_bind (loadEvent (ev_ID ev)) (\<lambda>r. case r of
          Inl loadErr \<Rightarrow> DoDeleteRev key slotRevision (\<lambda>_. Ret (Inl loadErr))
        | Inr (currentEvent, _) \<Rightarrow>
            if ev_State currentEvent \<noteq> Open \<or> sl_Number sl > ev_Capacity currentEvent
            then DoDeleteRev key slotRevision (\<lambda>_. Ret (Inl ErrAdmissionClosed))
            else DoCreate (sessionKey (sl_ResumeDigest sl))
                   (VIndex \<lparr>ix_Deleted = False, ix_EventID = ev_ID ev, ix_Slot = sl_Number sl\<rparr>)
                   (\<lambda>r. case r of
                      Inl _ \<Rightarrow> DoDeleteRev key slotRevision (\<lambda>_. next_number)
                    | Inr _ \<Rightarrow> mint s ev sl secret)))"

definition occupied :: "slot \<Rightarrow> time \<Rightarrow> bool" where
  "occupied sl now \<longleftrightarrow> sl_Cleanup sl = None \<and> (sl_Reserved sl \<or> before now (sl_GraceExpiresAt sl))"

primrec start_loop :: "service \<Rightarrow> event \<Rightarrow> time \<Rightarrow> nat \<Rightarrow> int \<Rightarrow> (err + session) prog" where
  "start_loop s ev now 0 number = Ret (Inl ErrCapacity)"
| "start_loop s ev now (Suc n) number =
     tryp randomSecret (\<lambda>secret.
       DoUuid (\<lambda>generation.
         let sl = new_slot s ev number generation secret now;
             key = slotKey (ev_ID ev) number;
             next_number = start_loop s ev now n (number + 1)
         in DoCreate key (VSlot sl) (\<lambda>r. case r of
             Inr slotRevision \<Rightarrow> admit s ev sl secret slotRevision next_number
           | Inl createErr \<Rightarrow>
               if errors_is createErr StoreExists then
                 prog_bind (loadSlot (ev_ID ev) number) (\<lambda>l. case l of
                     Inl _ \<Rightarrow> next_number
                   | Inr (existing, revision) \<Rightarrow>
                       if occupied existing now then next_number
                       else prog_bind (cleanSlot s ev existing revision) (\<lambda>c. case c of
                           Inl _ \<Rightarrow> next_number
                         | Inr _ \<Rightarrow>
                             DoCreate key (VSlot sl) (\<lambda>r. case r of
                               Inr slotRevision \<Rightarrow> admit s ev sl secret slotRevision next_number
                             | Inl createErr \<Rightarrow>
                                 if errors_is createErr StoreExists then next_number
                                 else Ret (Inl createErr))))
               else Ret (Inl createErr))))"

definition StartSession :: "service \<Rightarrow> string \<Rightarrow> (err + session) prog" where
  "StartSession s invitation =
     (if sv_maxCapacity s = 0 then Ret (Inl ErrAdmissionClosed)
      else DoGet (invitationKey (digest s invitation)) (\<lambda>r. case r of
          Inl e \<Rightarrow> if errors_is e StoreNotFound then Ret (Inl ErrNotFound) else Ret (Inl e)
        | Inr index \<Rightarrow>
            tryp (loadEvent (text_of (en_Value index))) (\<lambda>(ev, _).
              if ev_State ev = Paused then Ret (Inl ErrEventPaused)
              else if ev_State ev \<noteq> Open \<or> ev_Capacity ev = 0 then Ret (Inl ErrAdmissionClosed)
              else DoNow (\<lambda>now. start_loop s ev now (nat (ev_Capacity ev)) 1))))"

section \<open>Renewing a lease\<close>

definition renewed :: "service \<Rightarrow> slot \<Rightarrow> time \<Rightarrow> slot" where
  "renewed s sl now =
     (let lease = time_add now (sv_leaseTTL s)
      in sl\<lparr>sl_LastSeenAt := now, sl_Reserved := False, sl_LeaseExpiresAt := lease,
            sl_GraceExpiresAt := time_add lease (sv_gracePeriod s)\<rparr>)"

primrec renewLease_loop :: "service \<Rightarrow> nat \<Rightarrow> string \<Rightarrow> session_index \<Rightarrow> (err + event \<times> slot) prog" where
  "renewLease_loop s 0 dig index = Ret (Inl ErrConflict)"
| "renewLease_loop s (Suc n) dig index =
     tryp (loadEvent (ix_EventID index)) (\<lambda>(ev, _).
       if ev_State ev = Paused then Ret (Inl ErrEventPaused)
       else if ev_State ev = Deleting \<or> ev_State ev = Deleted then Ret (Inl ErrEventDeleted)
       else if ev_State ev \<noteq> Open then Ret (Inl ErrAdmissionClosed)
       else prog_bind (loadSlot (ix_EventID index) (ix_Slot index)) (\<lambda>l. case l of
           Inl _ \<Rightarrow> Ret (Inl ErrSessionExpired)
         | Inr (sl, revision) \<Rightarrow>
             if sl_ResumeDigest sl \<noteq> dig then Ret (Inl ErrSessionExpired)
             else DoNow (\<lambda>now.
               if sl_Cleanup sl \<noteq> None \<or> (\<not> sl_Reserved sl \<and> \<not> before now (sl_GraceExpiresAt sl))
               then Ret (Inl ErrSessionExpired)
               else
                 let sl = renewed s sl now
                 in DoUpdate (slotKey (ix_EventID index) (ix_Slot index)) (VSlot sl) revision (\<lambda>r. case r of
                     Inl e \<Rightarrow> if errors_is e StoreConflict then renewLease_loop s n dig index
                              else Ret (Inl e)
                   | Inr _ \<Rightarrow> Ret (Inr (ev, sl))))))"

definition renewLease :: "service \<Rightarrow> string \<Rightarrow> (err + event \<times> slot) prog" where
  "renewLease s resumeSecret =
     (let dig = digest s resumeSecret
      in DoGet (sessionKey dig) (\<lambda>r. case r of
          Inl e \<Rightarrow> if errors_is e StoreNotFound then Ret (Inl ErrSessionExpired) else Ret (Inl e)
        | Inr en \<Rightarrow> (case decode_index (en_Value en) of
              Inl e \<Rightarrow> Ret (Inl e)
            | Inr index \<Rightarrow>
                if ix_Deleted index then Ret (Inl ErrEventDeleted)
                else renewLease_loop s 5 dig index)))"

definition RenewSession :: "service \<Rightarrow> string \<Rightarrow> (err + session) prog" where
  "RenewSession s resumeSecret =
     tryp (renewLease s resumeSecret) (\<lambda>(ev, sl). mint s ev sl resumeSecret)"

definition HeartbeatSession :: "service \<Rightarrow> string \<Rightarrow> (err + time) prog" where
  "HeartbeatSession s resumeSecret =
     tryp (renewLease s resumeSecret) (\<lambda>(ev, sl). Ret (Inr (sl_LeaseExpiresAt sl)))"

end
