(* ===== verification/Calls.thy ===== *)
theory Calls
  imports Sessions
begin

text \<open>
  The service as one interface: every exported method of access.Service as a call, and what it
  returns as a reply. This is what a request handler or the recovery controller runs.
\<close>

datatype call =
    CallCreateEvent string create_input
  | CallListEvents string
  | CallGetEvent string string
  | CallSetState nat string string event_state
  | CallUpdateCapacity string string int
  | CallRotateInvitation string string
  | CallSetCohost string string string "capability list"
  | CallStartSession string
  | CallRenewSession string
  | CallHeartbeatSession string
  | CallListSlots string string
  | CallReleaseSlot string string int
  | CallDeleteEvent string string
  | CallGetReceipt string string
  | CallListReceipts string
  | CallReconcile int

datatype reply =
    ReplyCreated "err + event \<times> string"
  | ReplyEvents "err + event list"
  | ReplyEvent "err + event"
  | ReplyURL "err + string"
  | ReplySession "err + session"
  | ReplyTime "err + time"
  | ReplySlots "err + slot list"
  | ReplyUnit "err + unit"
  | ReplyReceipt "err + receipt"
  | ReplyReceipts "err + receipt list"
  | ReplyReport "recovery_report \<times> err option"

definition replying :: "('a \<Rightarrow> reply) \<Rightarrow> 'a prog \<Rightarrow> reply prog" where
  "replying f p = prog_bind p (\<lambda>x. Ret (f x))"

fun serve :: "service \<Rightarrow> call \<Rightarrow> reply prog" where
  "serve s (CallCreateEvent owner input) = replying ReplyCreated (CreateEvent s owner input)"
| "serve s (CallListEvents pr) = replying ReplyEvents (ListEvents pr)"
| "serve s (CallGetEvent pr eid) = replying ReplyEvent (GetEvent pr eid)"
| "serve s (CallSetState fuel pr eid target) = replying ReplyEvent (SetState fuel pr eid target)"
| "serve s (CallUpdateCapacity pr eid capacity) = replying ReplyEvent (UpdateCapacity s pr eid capacity)"
| "serve s (CallRotateInvitation pr eid) = replying ReplyURL (RotateInvitation s pr eid)"
| "serve s (CallSetCohost pr eid cohost caps) = replying ReplyEvent (SetCohost pr eid cohost caps)"
| "serve s (CallStartSession invitation) = replying ReplySession (StartSession s invitation)"
| "serve s (CallRenewSession secret) = replying ReplySession (RenewSession s secret)"
| "serve s (CallHeartbeatSession secret) = replying ReplyTime (HeartbeatSession s secret)"
| "serve s (CallListSlots pr eid) = replying ReplySlots (ListSlots pr eid)"
| "serve s (CallReleaseSlot pr eid number) = replying ReplyUnit (ReleaseSlot s pr eid number)"
| "serve s (CallDeleteEvent pr eid) = replying ReplyReceipt (DeleteEvent s pr eid)"
| "serve s (CallGetReceipt pr eid) = replying ReplyReceipt (GetReceipt pr eid)"
| "serve s (CallListReceipts pr) = replying ReplyReceipts (ListReceipts pr)"
| "serve s (CallReconcile batch) = replying ReplyReport (Reconcile s batch)"

end
