(* ===== verification/Concurrency.thy ===== *)
theory Concurrency
  imports Calls "HOL-Library.Multiset"
begin

text \<open>
  Any number of calls of the service run at once against one store. A step of the system is
  one operation of one call; between two operations of a call every other call may move, a call
  may stop for ever (a crash), and every operation may fail. A failed write may still have
  happened (a lost acknowledgement). Listings come in any order, clock readings are arbitrary.
  A listing is one operation, as that of Memory is under its lock; the listing of NATS reads the
  keys one after another, which \<open>nats_list\<close> of Nats_Store models and this system does not: its
  histories are those in which no write falls between the reads of one listing.

  What the environment promises: a UUID was not handed out before and has no dot in it, and the
  digest of 32 fresh random bytes was not seen before.
\<close>

section \<open>The shared environment\<close>

record env =
  en_mem :: memory
  en_uuids :: "string set"    \<comment> \<open>UUIDs handed out so far\<close>
  en_digests :: "string set"  \<comment> \<open>digests of the secrets handed out so far\<close>
  en_erased :: "string set"   \<comment> \<open>subjects whose erasure the application acknowledged in full\<close>
  en_signed :: "(string \<times> string) set"  \<comment> \<open>event id and subject of every token signed\<close>

definition empty_env :: env where
  "empty_env = \<lparr>en_mem = NewMemory, en_uuids = {}, en_digests = {}, en_erased = {}, en_signed = {}\<rparr>"

definition uuid_format :: "string \<Rightarrow> bool" where
  "uuid_format u \<longleftrightarrow> length u = 36 \<and> list_all (\<lambda>c. c \<in> set ''0123456789abcdef-'') u"

lemma uuid_no_dot: "uuid_format u \<Longrightarrow> CHR ''.'' \<notin> set u"
proof
  assume "uuid_format u" "CHR ''.'' \<in> set u"
  then have "CHR ''.'' \<in> set ''0123456789abcdef-''"
    unfolding uuid_format_def list_all_iff by blast
  then show False by simp
qed

text \<open>A store call with faults: it takes effect and answers, fails, or takes effect and fails.\<close>

inductive faulty :: "(err + 'r) \<times> memory \<Rightarrow> memory \<Rightarrow> err + 'r \<Rightarrow> memory \<Rightarrow> bool" where
  answered: "faulty (r, m') m r m'"
| failed: "faulty (r, m') m (Inl (ErrOther e)) m"
| lost: "faulty (r, m') m (Inl (ErrOther e)) m'"

inductive_cases faultyE: "faulty (r0, m0) m r m'"

text \<open>The subjects an acknowledgement with count \<open>n\<close> erases: all of them, or none that can be relied on.\<close>

definition acknowledged :: "cleanup_call \<Rightarrow> int \<Rightarrow> string set" where
  "acknowledged q n = (if n = int (length (cc_Subjects q)) then set (cc_Subjects q) else {})"

section \<open>One operation\<close>

inductive op_step :: "service \<Rightarrow> 'a prog \<Rightarrow> env \<Rightarrow> 'a prog \<Rightarrow> env \<Rightarrow> bool" for s where
  get: "op_step s (DoGet k c) E (c (mem_get (en_mem E) k)) E"
| get_failed: "op_step s (DoGet k c) E (c (Inl (ErrOther e))) E"
| create: "faulty (mem_create (en_mem E) k v) (en_mem E) r m \<Longrightarrow>
    op_step s (DoCreate k v c) E (c r) (E\<lparr>en_mem := m\<rparr>)"
| update: "faulty (mem_update (en_mem E) k v n) (en_mem E) r m \<Longrightarrow>
    op_step s (DoUpdate k v n c) E (c r) (E\<lparr>en_mem := m\<rparr>)"
| update_gone: "mem_at (en_mem E) k = None \<Longrightarrow> op_step s (DoUpdate k v n c) E (c (Inl StoreConflict)) E"
| delete: "faulty (mem_delete (en_mem E) k) (en_mem E) r m \<Longrightarrow>
    op_step s (DoDelete k c) E (c r) (E\<lparr>en_mem := m\<rparr>)"
| delete_gone: "mem_at (en_mem E) k = None \<Longrightarrow> op_step s (DoDelete k c) E (c (Inr ())) E"
| delete_rev: "faulty (mem_delete_revision (en_mem E) k n) (en_mem E) r m \<Longrightarrow>
    op_step s (DoDeleteRev k n c) E (c r) (E\<lparr>en_mem := m\<rparr>)"
| delete_rev_gone: "mem_at (en_mem E) k = None \<Longrightarrow>
    op_step s (DoDeleteRev k n c) E (c (Inl StoreConflict)) E"
| list: "mset xs = mset (mem_list (en_mem E) p) \<Longrightarrow> op_step s (DoList p c) E (c (Inr xs)) E"
| list_failed: "op_step s (DoList p c) E (c (Inl (ErrOther e))) E"
| now: "op_step s (DoNow c) E (c t) E"
| rand: "length bs = 32 \<Longrightarrow> digest s (b64url bs) \<notin> en_digests E \<Longrightarrow>
    op_step s (DoRand c) E (c (Inr bs)) (E\<lparr>en_digests := insert (digest s (b64url bs)) (en_digests E)\<rparr>)"
| rand_failed: "op_step s (DoRand c) E (c (Inl (ErrOther e))) E"
| uuid: "uuid_format u \<Longrightarrow> u \<notin> en_uuids E \<Longrightarrow>
    op_step s (DoUuid c) E (c u) (E\<lparr>en_uuids := insert u (en_uuids E)\<rparr>)"
| cleanup: "op_step s (DoCleanup q c) E (c (Inr n)) (E\<lparr>en_erased := en_erased E \<union> acknowledged q n\<rparr>)"
| cleanup_failed: "op_step s (DoCleanup q c) E (c (Inl (ErrOther e))) E"
| sign: "op_step s (DoSign q c) E (c (Inr token)) (E\<lparr>en_signed := insert (jc_EventID q, jc_Subject q) (en_signed E)\<rparr>)"
| sign_failed: "op_step s (DoSign q c) E (c (Inl (ErrOther e))) E"
| ctx: "op_step s (DoCtx c) E (c r) E"

inductive_cases op_step_RetE [elim!]: "op_step s (Ret x) E p E'"
inductive_cases op_step_GetE: "op_step s (DoGet k c) E p E'"
inductive_cases op_step_CreateE: "op_step s (DoCreate k v c) E p E'"
inductive_cases op_step_UpdateE: "op_step s (DoUpdate k v n c) E p E'"
inductive_cases op_step_DeleteE: "op_step s (DoDelete k c) E p E'"
inductive_cases op_step_DeleteRevE: "op_step s (DoDeleteRev k n c) E p E'"
inductive_cases op_step_ListE: "op_step s (DoList p' c) E p E'"
inductive_cases op_step_NowE: "op_step s (DoNow c) E p E'"
inductive_cases op_step_RandE: "op_step s (DoRand c) E p E'"
inductive_cases op_step_UuidE: "op_step s (DoUuid c) E p E'"
inductive_cases op_step_CleanupE: "op_step s (DoCleanup q c) E p E'"
inductive_cases op_step_SignE: "op_step s (DoSign q c) E p E'"
inductive_cases op_step_CtxE: "op_step s (DoCtx c) E p E'"

lemmas op_stepEs = op_step_GetE op_step_CreateE op_step_UpdateE op_step_DeleteE op_step_DeleteRevE
  op_step_ListE op_step_NowE op_step_RandE op_step_UuidE op_step_CleanupE op_step_SignE op_step_CtxE

section \<open>The system\<close>

record sys =
  sy_env :: env
  sy_pool :: "nat \<Rightarrow> reply prog option"

definition init_sys :: sys where
  "init_sys = \<lparr>sy_env = empty_env, sy_pool = (\<lambda>_. None)\<rparr>"

inductive sys_step :: "service \<Rightarrow> sys \<Rightarrow> sys \<Rightarrow> bool" for s where
  start: "sy_pool S i = None \<Longrightarrow> sys_step s S (S\<lparr>sy_pool := (sy_pool S)(i \<mapsto> serve s cl)\<rparr>)"
| move: "sy_pool S i = Some p \<Longrightarrow> op_step s p (sy_env S) p' E' \<Longrightarrow>
    sys_step s S (S\<lparr>sy_env := E', sy_pool := (sy_pool S)(i \<mapsto> p')\<rparr>)"

inductive steps :: "service \<Rightarrow> sys \<Rightarrow> sys \<Rightarrow> bool" for s where
  stay: "steps s S S"
| onward: "steps s S S' \<Longrightarrow> sys_step s S' S'' \<Longrightarrow> steps s S S''"

definition reachable :: "service \<Rightarrow> sys \<Rightarrow> bool" where
  "reachable s S \<longleftrightarrow> steps s init_sys S"

lemma steps_trans: "steps s S S' \<Longrightarrow> steps s S' S'' \<Longrightarrow> steps s S S''"
  by (rotate_tac, induction rule: steps.induct) (auto intro: steps.onward)

end
