(* ===== verification/Protocol.thy ===== *)
theory Protocol
  imports Concurrency
begin

text \<open>
  The protocol each call keeps with the calls it runs beside, as a logic of programs. What a
  call knows of the shared state is a set of facts that no other call can take away: the values
  revisions had, the subjects erased, the identities admitted or withdrawn, the events closed
  for deletion. What it alone holds are tokens: a fresh UUID or secret digest it was given and
  has not used up, a slot it created, an identity it admitted and has not signed. \<open>safe s Q p w T\<close> says that a program \<open>p\<close>, started with the facts \<open>w\<close> and the tokens \<open>T\<close>,
  makes only writes the protocol allows at every later set of facts, and ends with \<open>Q\<close>.

  An identity is the pair of an event id and a slot generation; it is admitted at the moment
  the call that created its slot reads the event again and finds it open. It is withdrawn when
  that call then deletes the slot at the revision it created it at, without having signed.
\<close>

section \<open>Facts\<close>

record facts =
  fa_hist :: "nat \<Rightarrow> (string \<times> val) option"    \<comment> \<open>the key and value each revision wrote\<close>
  fa_erased :: "string set"
  fa_adm :: "(string \<times> string) set"             \<comment> \<open>admitted identities\<close>
  fa_closed :: "string set"                      \<comment> \<open>events that are being or have been deleted\<close>
  fa_ret :: "string set"                         \<comment> \<open>generations withdrawn before a token was signed\<close>

text \<open>
  A UUID not used yet, a digest not used yet, the slot of a generation created at a revision
  and not admitted, and the same slot once admitted and not signed by its creator.
\<close>

datatype token = TokU string | TokD string | TokS string nat | TokA string nat

definition subj :: "string \<Rightarrow> string \<Rightarrow> string" where
  "subj eid generation = ''guest:'' @ eid @ '':'' @ generation"

text \<open>
  All identities ever admitted to the event are erased or were withdrawn, and none can be admitted
  any more.
\<close>

definition drained :: "facts \<Rightarrow> string \<Rightarrow> bool" where
  "drained w eid \<longleftrightarrow> eid \<in> fa_closed w \<and> (\<forall>g. (eid, g) \<in> fa_adm w \<longrightarrow> subj eid g \<in> fa_erased w \<or> g \<in> fa_ret w)"

definition slot_ok :: "service \<Rightarrow> slot \<Rightarrow> bool" where
  "slot_ok s sl \<longleftrightarrow> 1 \<le> sl_Number sl \<and> sl_Number sl \<le> sv_maxCapacity s \<and>
     sl_Subject sl = subj (sl_EventID sl) (sl_Generation sl) \<and> CHR ''.'' \<notin> set (sl_EventID sl)"

definition event_ok :: "service \<Rightarrow> event \<Rightarrow> bool" where
  "event_ok s ev \<longleftrightarrow> 0 \<le> ev_Capacity ev \<and> ev_Capacity ev \<le> sv_maxCapacity s \<and> CHR ''.'' \<notin> set (ev_ID ev)"

definition slot_at :: "facts \<Rightarrow> nat \<Rightarrow> slot \<Rightarrow> bool" where
  "slot_at w r sl \<longleftrightarrow> fa_hist w r = Some (slotKey (sl_EventID sl) (sl_Number sl), VSlot sl)"

text \<open>The slot of the generation was updated after it was created: it cannot be withdrawn any more.\<close>

definition confirmed :: "facts \<Rightarrow> string \<Rightarrow> bool" where
  "confirmed w g \<longleftrightarrow> (\<exists>r r' a b. r \<noteq> r' \<and> slot_at w r a \<and> slot_at w r' b \<and> sl_Generation a = g \<and> sl_Generation b = g)"

text \<open>A live session index names an admitted identity, whose slot carries the digest of the key.\<close>

definition index_ok :: "facts \<Rightarrow> string \<Rightarrow> session_index \<Rightarrow> bool" where
  "index_ok w d ix \<longleftrightarrow> ix_Deleted ix \<or>
     (\<exists>r sl. slot_at w r sl \<and> sl_ResumeDigest sl = d \<and> sl_EventID sl = ix_EventID ix \<and>
             (sl_EventID sl, sl_Generation sl) \<in> fa_adm w)"

definition entry_ok :: "service \<Rightarrow> facts \<Rightarrow> string \<Rightarrow> val \<Rightarrow> bool" where
  "entry_ok s w k v =
     (case v of
        VEvent ev \<Rightarrow> k = eventKey (ev_ID ev) \<and> event_ok s ev \<and> (ev_State ev = Deleting \<longrightarrow> ev_ID ev \<in> fa_closed w)
      | VSlot sl \<Rightarrow> k = slotKey (sl_EventID sl) (sl_Number sl) \<and> slot_ok s sl
      | VIndex ix \<Rightarrow> (\<exists>d. k = sessionKey d \<and> index_ok w d ix)
      | VReceipt rc \<Rightarrow> k = receiptKey (rc_EventID rc) \<and> drained w (rc_EventID rc)
      | VText t \<Rightarrow> (\<exists>d. k = invitationKey d))"

definition facts_ok :: "service \<Rightarrow> facts \<Rightarrow> bool" where
  "facts_ok s w \<longleftrightarrow>
     (\<forall>r k v. fa_hist w r = Some (k, v) \<longrightarrow> entry_ok s w k v) \<and>
     (\<forall>r r' a b. slot_at w r a \<longrightarrow> slot_at w r' b \<longrightarrow> sl_ResumeDigest a = sl_ResumeDigest b \<longrightarrow>
        sl_EventID a = sl_EventID b \<and> sl_Generation a = sl_Generation b)"

text \<open>Facts only grow, and no identity of a closed event is admitted.\<close>

definition fle :: "facts \<Rightarrow> facts \<Rightarrow> bool" where
  "fle w w' \<longleftrightarrow> fa_hist w \<subseteq>\<^sub>m fa_hist w' \<and> fa_erased w \<subseteq> fa_erased w' \<and> fa_adm w \<subseteq> fa_adm w' \<and>
     fa_closed w \<subseteq> fa_closed w' \<and> fa_ret w \<subseteq> fa_ret w' \<and>
     (\<forall>e g. (e, g) \<in> fa_adm w' \<longrightarrow> (e, g) \<in> fa_adm w \<or> e \<notin> fa_closed w)"

definition later :: "service \<Rightarrow> facts \<Rightarrow> facts \<Rightarrow> bool" where
  "later s w w' \<longleftrightarrow> fle w w' \<and> facts_ok s w'"

named_theorems fmono \<open>facts that hold of all later facts\<close>

lemma fle_refl [simp]: "fle w w"
  by (simp add: fle_def)

lemma fle_trans: "fle w w' \<Longrightarrow> fle w' w'' \<Longrightarrow> fle w w''"
  unfolding fle_def by (meson map_le_trans subset_iff subset_trans)

lemma later_trans: "later s w w' \<Longrightarrow> later s w' w'' \<Longrightarrow> later s w w''"
  by (auto simp: later_def intro: fle_trans)

lemma later_ok: "later s w w' \<Longrightarrow> facts_ok s w'"
  by (simp add: later_def)

lemma later_self: "later s w w' \<Longrightarrow> later s w' w'"
  by (simp add: later_def)

lemma hist_fle: "fle w w' \<Longrightarrow> fa_hist w r = Some x \<Longrightarrow> fa_hist w' r = Some x"
  by (metis domI fle_def map_le_def)

lemma hist_later [fmono]: "later s w w' \<Longrightarrow> fa_hist w r = Some x \<Longrightarrow> fa_hist w' r = Some x"
  by (auto simp: later_def intro: hist_fle)

lemma slot_at_later [fmono]: "later s w w' \<Longrightarrow> slot_at w r sl \<Longrightarrow> slot_at w' r sl"
  unfolding slot_at_def by (rule hist_later)

lemma erased_later [fmono]: "later s w w' \<Longrightarrow> x \<in> fa_erased w \<Longrightarrow> x \<in> fa_erased w'"
  by (auto simp: later_def fle_def)

lemma adm_later [fmono]: "later s w w' \<Longrightarrow> x \<in> fa_adm w \<Longrightarrow> x \<in> fa_adm w'"
  by (auto simp: later_def fle_def)

lemma closed_later [fmono]: "later s w w' \<Longrightarrow> x \<in> fa_closed w \<Longrightarrow> x \<in> fa_closed w'"
  by (auto simp: later_def fle_def)

lemma ret_later [fmono]: "later s w w' \<Longrightarrow> x \<in> fa_ret w \<Longrightarrow> x \<in> fa_ret w'"
  by (auto simp: later_def fle_def)

lemma confirmed_later [fmono]: "later s w w' \<Longrightarrow> confirmed w g \<Longrightarrow> confirmed w' g"
  unfolding confirmed_def by (blast intro: slot_at_later)

lemma drained_fle: "fle w w' \<Longrightarrow> drained w e \<Longrightarrow> drained w' e"
  unfolding fle_def drained_def by blast

lemma drained_later [fmono]: "later s w w' \<Longrightarrow> drained w e \<Longrightarrow> drained w' e"
  by (auto simp: later_def intro: drained_fle)

lemma fle_parts:
  "fle w w' \<Longrightarrow> x \<in> fa_adm w \<Longrightarrow> x \<in> fa_adm w'"
  "fle w w' \<Longrightarrow> e \<in> fa_closed w \<Longrightarrow> e \<in> fa_closed w'"
  "fle w w' \<Longrightarrow> slot_at w r sl \<Longrightarrow> slot_at w' r sl"
  unfolding slot_at_def by (auto intro: hist_fle) (auto simp: fle_def)

lemma index_ok_fle: "fle w w' \<Longrightarrow> index_ok w d ix \<Longrightarrow> index_ok w' d ix"
  unfolding index_ok_def by (blast intro: fle_parts)

lemma entry_ok_fle: "fle w w' \<Longrightarrow> entry_ok s w k v \<Longrightarrow> entry_ok s w' k v"
  by (cases v) (auto simp: entry_ok_def intro: drained_fle index_ok_fle fle_parts)

text \<open>What the value of a key is, by the kind of key.\<close>

lemma facts_entry: "facts_ok s w \<Longrightarrow> fa_hist w r = Some (k, v) \<Longrightarrow> entry_ok s w k v"
  by (auto simp: facts_ok_def)

lemma entry_ok_slotKey:
  "entry_ok s w (slotKey e n) v \<Longrightarrow> \<exists>sl. v = VSlot sl \<and> slotKey e n = slotKey (sl_EventID sl) (sl_Number sl) \<and> slot_ok s sl"
  by (auto simp: entry_ok_def split: val.splits)

lemma entry_ok_eventKey:
  "entry_ok s w (eventKey e) v \<Longrightarrow> \<exists>ev. v = VEvent ev \<and> ev_ID ev = e \<and> event_ok s ev \<and>
     (ev_State ev = Deleting \<longrightarrow> e \<in> fa_closed w)"
  by (auto simp: entry_ok_def split: val.splits)

lemma entry_ok_simps [simp]:
  "entry_ok s w k (VEvent ev) \<longleftrightarrow> k = eventKey (ev_ID ev) \<and> event_ok s ev \<and> (ev_State ev = Deleting \<longrightarrow> ev_ID ev \<in> fa_closed w)"
  "entry_ok s w k (VSlot sl) \<longleftrightarrow> k = slotKey (sl_EventID sl) (sl_Number sl) \<and> slot_ok s sl"
  "entry_ok s w k (VReceipt rc) \<longleftrightarrow> k = receiptKey (rc_EventID rc) \<and> drained w (rc_EventID rc)"
  "entry_ok s w k (VIndex ix) \<longleftrightarrow> (\<exists>d. k = sessionKey d \<and> index_ok w d ix)"
  "entry_ok s w k (VText t) \<longleftrightarrow> (\<exists>d. k = invitationKey d)"
  by (auto simp: entry_ok_def)

section \<open>What each operation may do\<close>

definition store_error :: "err \<Rightarrow> bool" where
  "store_error e \<longleftrightarrow> e = StoreNotFound \<or> e = StoreConflict \<or> e = StoreExists \<or> (\<exists>m. e = ErrOther m)"

definition get_reply :: "facts \<Rightarrow> string \<Rightarrow> err + entry \<Rightarrow> bool" where
  "get_reply w k r =
     (case r of
        Inl e \<Rightarrow> store_error e
      | Inr en \<Rightarrow> fa_hist w (en_Revision en) = Some (k, en_Value en) \<and>
          (\<forall>ev. en_Value en = VEvent ev \<longrightarrow> ev_State ev \<noteq> Deleting \<longrightarrow> ev_ID ev \<notin> fa_closed w))"

text \<open>
  A read that shows an event not being deleted shows that it is not closed, and it may admit
  an identity the call created: the reply shows its event open, and the slot within its capacity.
\<close>

definition admission :: "facts \<Rightarrow> token set \<Rightarrow> string \<Rightarrow> err + entry \<Rightarrow> facts \<Rightarrow> token set \<Rightarrow> bool" where
  "admission w T k r w' T' \<longleftrightarrow>
     (\<exists>en ev sl rev. r = Inr en \<and> en_Value en = VEvent ev \<and> k = eventKey (ev_ID ev) \<and> ev_State ev = Open \<and>
        ev_ID ev \<notin> fa_closed w \<and> slot_at w rev sl \<and> sl_EventID sl = ev_ID ev \<and> sl_Number sl \<le> ev_Capacity ev \<and> TokS (sl_Generation sl) rev \<in> T \<and>
        w' = w\<lparr>fa_adm := insert (sl_EventID sl, sl_Generation sl) (fa_adm w)\<rparr> \<and>
        T' = insert (TokA (sl_Generation sl) rev) (T - {TokS (sl_Generation sl) rev}))"

definition wrote :: "facts \<Rightarrow> nat \<Rightarrow> string \<Rightarrow> val \<Rightarrow> facts" where
  "wrote w n k v =
     w\<lparr>fa_hist := (fa_hist w)(n \<mapsto> (k, v)),
       fa_closed := (case v of VEvent ev \<Rightarrow> if ev_State ev = Deleting then insert (ev_ID ev) (fa_closed w) else fa_closed w
                             | _ \<Rightarrow> fa_closed w)\<rparr>"

text \<open>The tokens a create uses up, and those a successful one gives.\<close>

definition create_needs :: "val \<Rightarrow> token set" where
  "create_needs v =
     (case v of VEvent ev \<Rightarrow> {TokU (ev_ID ev)}
              | VSlot sl \<Rightarrow> {TokU (sl_Generation sl), TokD (sl_ResumeDigest sl)}
              | _ \<Rightarrow> {})"

definition create_gives :: "val \<Rightarrow> nat \<Rightarrow> token set" where
  "create_gives v n = (case v of VSlot sl \<Rightarrow> {TokS (sl_Generation sl) n} | _ \<Rightarrow> {})"

definition create_ok :: "service \<Rightarrow> facts \<Rightarrow> token set \<Rightarrow> string \<Rightarrow> val \<Rightarrow> bool" where
  "create_ok s w T k v \<longleftrightarrow> entry_ok s w k v \<and> create_needs v \<subseteq> T \<and>
     (case v of VEvent ev \<Rightarrow> ev_State ev = Draft | _ \<Rightarrow> True)"

text \<open>The states of an event go by the table of transitions, and to deletion at any time, which is final.\<close>

definition may_become :: "event_state \<Rightarrow> event_state \<Rightarrow> bool" where
  "may_become f t \<longleftrightarrow> t = f \<or> validTransition f t \<or> t = Deleting"

lemma may_become_simps [simp]: "may_become f f" "may_become f Deleting" "may_become Deleting t \<longleftrightarrow> t = Deleting"
  by (auto simp: may_become_def validTransition_def)

text \<open>An update keeps the identity of what it updates, and follows that table.\<close>

definition update_ok :: "service \<Rightarrow> facts \<Rightarrow> string \<Rightarrow> val \<Rightarrow> val \<Rightarrow> bool" where
  "update_ok s w k old new =
     (case new of
        VEvent b \<Rightarrow> (\<exists>a. old = VEvent a \<and> ev_ID a = ev_ID b \<and> may_become (ev_State a) (ev_State b)) \<and>
                    event_ok s b \<and> k = eventKey (ev_ID b)
      | VSlot b \<Rightarrow> (\<exists>a. old = VSlot a \<and> sl_EventID a = sl_EventID b \<and> sl_Generation a = sl_Generation b \<and>
                       sl_ResumeDigest a = sl_ResumeDigest b) \<and>
                   slot_ok s b \<and> k = slotKey (sl_EventID b) (sl_Number b)
      | VIndex b \<Rightarrow> ix_Deleted b \<and> (\<exists>d. k = sessionKey d)
      | _ \<Rightarrow> False)"

definition delete_ok :: "string \<Rightarrow> bool" where
  "delete_ok k \<longleftrightarrow> (\<exists>d. k = invitationKey d \<or> k = sessionKey d \<or> k = eventKey d)"

text \<open>
  A slot is deleted at a revision only if its subject is erased, or its event is drained, or
  the call created it at that revision, has not signed for it and gives its token up.
\<close>

definition delete_rev_ok :: "facts \<Rightarrow> token set \<Rightarrow> token set \<Rightarrow> string \<Rightarrow> nat \<Rightarrow> bool" where
  "delete_rev_ok w T T' k n \<longleftrightarrow> T' \<subseteq> T \<and>
     (\<forall>v. fa_hist w n = Some (k, v) \<longrightarrow>
        (case v of
           VSlot sl \<Rightarrow> sl_Subject sl \<in> fa_erased w \<or> drained w (sl_EventID sl) \<or>
                       (\<exists>t \<in> {TokS (sl_Generation sl) n, TokA (sl_Generation sl) n}. t \<in> T \<and> t \<notin> T')
         | VReceipt _ \<Rightarrow> False
         | _ \<Rightarrow> True))"

text \<open>A listing of an event's slots shows every admitted identity that is neither erased nor withdrawn.\<close>

definition list_reply :: "facts \<Rightarrow> string \<Rightarrow> err + (string \<times> entry) list \<Rightarrow> bool" where
  "list_reply w p r =
     (case r of
        Inl e \<Rightarrow> store_error e
      | Inr xs \<Rightarrow>
          (\<forall>(k, en) \<in> set xs. prefix p k \<and> fa_hist w (en_Revision en) = Some (k, en_Value en)) \<and>
          (\<forall>e g. p = slotPrefix e \<longrightarrow> (e, g) \<in> fa_adm w \<longrightarrow> subj e g \<notin> fa_erased w \<longrightarrow> g \<notin> fa_ret w \<longrightarrow>
             (\<exists>(k, en) \<in> set xs. \<exists>sl. en_Value en = VSlot sl \<and> sl_EventID sl = e \<and> sl_Generation sl = g)))"

definition erase :: "facts \<Rightarrow> cleanup_call \<Rightarrow> err + int \<Rightarrow> facts" where
  "erase w q r = (case r of Inl _ \<Rightarrow> w | Inr n \<Rightarrow> w\<lparr>fa_erased := fa_erased w \<union> acknowledged q n\<rparr>)"

text \<open>
  A token is signed for an admitted identity that cannot be withdrawn any more: its slot was
  updated, or its creator gives up the token that would let it.
\<close>

definition sign_ok :: "facts \<Rightarrow> token set \<Rightarrow> token set \<Rightarrow> jwt_claims \<Rightarrow> bool" where
  "sign_ok w T T' q \<longleftrightarrow> T' \<subseteq> T \<and>
     (\<exists>g. (jc_EventID q, g) \<in> fa_adm w \<and> jc_Subject q = subj (jc_EventID q) g \<and>
          (confirmed w g \<or> (\<exists>n. TokA g n \<in> T \<and> TokA g n \<notin> T')))"

section \<open>Safe programs\<close>

primrec safe :: "service \<Rightarrow> ('a \<Rightarrow> facts \<Rightarrow> token set \<Rightarrow> bool) \<Rightarrow> 'a prog \<Rightarrow> facts \<Rightarrow> token set \<Rightarrow> bool" where
  "safe s Q (Ret x) = (\<lambda>w T. \<forall>w'. later s w w' \<longrightarrow> Q x w' T)"
| "safe s Q (DoGet k c) = (\<lambda>w T. \<forall>w'. later s w w' \<longrightarrow> (\<forall>r. get_reply w' k r \<longrightarrow>
     safe s Q (c r) w' T \<or> (\<exists>w'' T'. admission w' T k r w'' T' \<and> safe s Q (c r) w'' T')))"
| "safe s Q (DoCreate k v c) = (\<lambda>w T. \<forall>w'. later s w w' \<longrightarrow> create_ok s w' T k v \<and>
     (\<forall>n. fa_hist w' n = None \<longrightarrow> safe s Q (c (Inr n)) (wrote w' n k v) (T - create_needs v \<union> create_gives v n)) \<and>
     safe s Q (c (Inl StoreExists)) w' T \<and>
     (\<forall>e. safe s Q (c (Inl (ErrOther e))) w' (T - create_needs v)))"
| "safe s Q (DoUpdate k v n c) = (\<lambda>w T. \<forall>w'. later s w w' \<longrightarrow>
     (\<forall>v0. fa_hist w' n = Some (k, v0) \<longrightarrow> update_ok s w' k v0 v) \<and>
     (\<forall>n' v0. fa_hist w' n = Some (k, v0) \<longrightarrow> fa_hist w' n' = None \<longrightarrow> safe s Q (c (Inr n')) (wrote w' n' k v) T) \<and>
     (\<forall>e. store_error e \<longrightarrow> safe s Q (c (Inl e)) w' T))"
| "safe s Q (DoDelete k c) = (\<lambda>w T. \<forall>w'. later s w w' \<longrightarrow> delete_ok k \<and>
     (\<forall>r. (\<forall>e. r = Inl e \<longrightarrow> store_error e) \<longrightarrow> safe s Q (c r) w' T))"
| "safe s Q (DoDeleteRev k n c) = (\<lambda>w T. \<forall>w'. later s w w' \<longrightarrow> (\<exists>T'. delete_rev_ok w' T T' k n \<and>
     (\<forall>r. (\<forall>e. r = Inl e \<longrightarrow> store_error e) \<longrightarrow> safe s Q (c r) w' T')))"
| "safe s Q (DoList p c) = (\<lambda>w T. \<forall>w'. later s w w' \<longrightarrow> (\<forall>r. list_reply w' p r \<longrightarrow> safe s Q (c r) w' T))"
| "safe s Q (DoNow c) = (\<lambda>w T. \<forall>w'. later s w w' \<longrightarrow> (\<forall>t. safe s Q (c t) w' T))"
| "safe s Q (DoRand c) = (\<lambda>w T. \<forall>w'. later s w w' \<longrightarrow>
     (\<forall>bs. safe s Q (c (Inr bs)) w' (insert (TokD (digest s (b64url bs))) T)) \<and>
     (\<forall>e. safe s Q (c (Inl (ErrOther e))) w' T))"
| "safe s Q (DoUuid c) = (\<lambda>w T. \<forall>w'. later s w w' \<longrightarrow>
     (\<forall>u. uuid_format u \<longrightarrow> safe s Q (c u) w' (insert (TokU u) T)))"
| "safe s Q (DoCleanup q c) = (\<lambda>w T. \<forall>w'. later s w w' \<longrightarrow> (\<forall>r. (\<forall>e. r = Inl e \<longrightarrow> store_error e) \<longrightarrow>
     safe s Q (c r) (erase w' q r) T))"
| "safe s Q (DoSign q c) = (\<lambda>w T. \<forall>w'. later s w w' \<longrightarrow> (\<exists>T'. sign_ok w' T T' q \<and>
     (\<forall>r. safe s Q (c r) w' T')))"
| "safe s Q (DoCtx c) = (\<lambda>w T. \<forall>w'. later s w w' \<longrightarrow> (\<forall>r. safe s Q (c r) w' T))"

text \<open>Safety holds on as others move; and it may be shown at every later set of facts.\<close>

lemma safe_later: "safe s Q p w T \<Longrightarrow> later s w w' \<Longrightarrow> safe s Q p w' T"
  by (cases p) (simp_all, (blast intro: later_trans)+)

lemma safe_delay: "(\<And>w'. later s w w' \<Longrightarrow> safe s Q p w' T) \<Longrightarrow> safe s Q p w T"
  by (cases p) (simp_all, (blast dest: later_self)+)

lemma safe_bind: "safe s (\<lambda>x w T. safe s Q (f x) w T) p w T \<Longrightarrow> safe s Q (prog_bind p f) w T"
proof (induction p arbitrary: w T)
  case (Ret x)
  then show ?case by (auto intro: safe_delay)
next
  case (DoGet k c)
  note IH = DoGet.IH [OF rangeI]
  from DoGet.prems show ?case by simp (blast intro: IH)
next
  case (DoCreate k v c)
  note IH = DoCreate.IH [OF rangeI]
  from DoCreate.prems show ?case by simp (blast intro: IH)
next
  case (DoUpdate k v n c)
  note IH = DoUpdate.IH [OF rangeI]
  from DoUpdate.prems show ?case by simp (blast intro: IH)
next
  case (DoDelete k c)
  note IH = DoDelete.IH [OF rangeI]
  from DoDelete.prems show ?case by simp (blast intro: IH)
next
  case (DoDeleteRev k n c)
  note IH = DoDeleteRev.IH [OF rangeI]
  from DoDeleteRev.prems show ?case by simp (blast intro: IH)
next
  case (DoList p c)
  note IH = DoList.IH [OF rangeI]
  from DoList.prems show ?case by simp (blast intro: IH)
next
  case (DoNow c)
  note IH = DoNow.IH [OF rangeI]
  from DoNow.prems show ?case by simp (blast intro: IH)
next
  case (DoRand c)
  note IH = DoRand.IH [OF rangeI]
  from DoRand.prems show ?case by simp (blast intro: IH)
next
  case (DoUuid c)
  note IH = DoUuid.IH [OF rangeI]
  from DoUuid.prems show ?case by simp (blast intro: IH)
next
  case (DoCleanup q c)
  note IH = DoCleanup.IH [OF rangeI]
  from DoCleanup.prems show ?case by simp (blast intro: IH)
next
  case (DoSign q c)
  note IH = DoSign.IH [OF rangeI]
  from DoSign.prems show ?case by simp (blast intro: IH)
next
  case (DoCtx c)
  note IH = DoCtx.IH [OF rangeI]
  from DoCtx.prems show ?case by simp (blast intro: IH)
qed

lemma safe_post:
  assumes "safe s P p w T" and "\<And>x w' T'. facts_ok s w' \<Longrightarrow> P x w' T' \<Longrightarrow> Q x w' T'"
  shows "safe s Q p w T"
  using assms(1)
proof (induction p arbitrary: w T)
  case (Ret x)
  then show ?case by (auto dest: later_ok intro: assms(2))
next
  case (DoGet k c)
  note IH = DoGet.IH [OF rangeI]
  from DoGet.prems show ?case by simp (blast intro: IH)
next
  case (DoCreate k v c)
  note IH = DoCreate.IH [OF rangeI]
  from DoCreate.prems show ?case by simp (blast intro: IH)
next
  case (DoUpdate k v n c)
  note IH = DoUpdate.IH [OF rangeI]
  from DoUpdate.prems show ?case by simp (blast intro: IH)
next
  case (DoDelete k c)
  note IH = DoDelete.IH [OF rangeI]
  from DoDelete.prems show ?case by simp (blast intro: IH)
next
  case (DoDeleteRev k n c)
  note IH = DoDeleteRev.IH [OF rangeI]
  from DoDeleteRev.prems show ?case by simp (blast intro: IH)
next
  case (DoList p c)
  note IH = DoList.IH [OF rangeI]
  from DoList.prems show ?case by simp (blast intro: IH)
next
  case (DoNow c)
  note IH = DoNow.IH [OF rangeI]
  from DoNow.prems show ?case by simp (blast intro: IH)
next
  case (DoRand c)
  note IH = DoRand.IH [OF rangeI]
  from DoRand.prems show ?case by simp (blast intro: IH)
next
  case (DoUuid c)
  note IH = DoUuid.IH [OF rangeI]
  from DoUuid.prems show ?case by simp (blast intro: IH)
next
  case (DoCleanup q c)
  note IH = DoCleanup.IH [OF rangeI]
  from DoCleanup.prems show ?case by simp (blast intro: IH)
next
  case (DoSign q c)
  note IH = DoSign.IH [OF rangeI]
  from DoSign.prems show ?case by simp (blast intro: IH)
next
  case (DoCtx c)
  note IH = DoCtx.IH [OF rangeI]
  from DoCtx.prems show ?case by simp (blast intro: IH)
qed

text \<open>Facts are never lost along a program, so a spec composes with what follows it.\<close>

lemma fle_wrote: "fa_hist w n = None \<Longrightarrow> fle w (wrote w n k v)"
  by (auto simp: fle_def wrote_def map_le_def split: val.splits)

lemma fle_erase: "fle w (erase w q r)"
  by (auto simp: fle_def erase_def split: sum.splits)

lemma fle_admission: "admission w T k r w' T' \<Longrightarrow> fle w w'"
  by (auto simp: fle_def admission_def)

lemma fle_extend:
  "fle w0 w \<Longrightarrow> later s w w' \<Longrightarrow> fle w0 w'"
  "fle w0 w \<Longrightarrow> fa_hist w n = None \<Longrightarrow> fle w0 (wrote w n k v)"
  "fle w0 w \<Longrightarrow> fle w0 (erase w q r)"
  "fle w0 w \<Longrightarrow> admission w T k r' w' T' \<Longrightarrow> fle w0 w'"
  by (auto simp: later_def intro: fle_trans [OF _ fle_wrote] fle_trans [OF _ fle_erase]
      fle_trans [OF _ fle_admission] fle_trans)

lemma safe_frame:
  assumes "safe s Q p w T" and "fle w0 w"
  shows "safe s (\<lambda>x w' T'. Q x w' T' \<and> fle w0 w') p w T"
  using assms
proof (induction p arbitrary: w T)
  case (Ret x)
  then show ?case by (auto simp: later_def intro: fle_trans)
next
  case (DoGet k c)
  note IH = DoGet.IH [OF rangeI]
  from DoGet.prems show ?case
    by simp (blast intro: IH fle_extend)
next
  case (DoCreate k v c)
  note IH = DoCreate.IH [OF rangeI]
  from DoCreate.prems show ?case
    by simp (blast intro: IH fle_extend)
next
  case (DoUpdate k v n c)
  note IH = DoUpdate.IH [OF rangeI]
  from DoUpdate.prems show ?case
    by simp (blast intro: IH fle_extend)
next
  case (DoDelete k c)
  note IH = DoDelete.IH [OF rangeI]
  from DoDelete.prems show ?case
    by simp (blast intro: IH fle_extend)
next
  case (DoDeleteRev k n c)
  note IH = DoDeleteRev.IH [OF rangeI]
  from DoDeleteRev.prems show ?case
    by simp (blast intro: IH fle_extend)
next
  case (DoList p c)
  note IH = DoList.IH [OF rangeI]
  from DoList.prems show ?case
    by simp (blast intro: IH fle_extend)
next
  case (DoNow c)
  note IH = DoNow.IH [OF rangeI]
  from DoNow.prems show ?case
    by simp (blast intro: IH fle_extend)
next
  case (DoRand c)
  note IH = DoRand.IH [OF rangeI]
  from DoRand.prems show ?case
    by simp (blast intro: IH fle_extend)
next
  case (DoUuid c)
  note IH = DoUuid.IH [OF rangeI]
  from DoUuid.prems show ?case
    by simp (blast intro: IH fle_extend)
next
  case (DoCleanup q c)
  note IH = DoCleanup.IH [OF rangeI]
  from DoCleanup.prems show ?case
    by simp (blast intro: IH fle_extend)
next
  case (DoSign q c)
  note IH = DoSign.IH [OF rangeI]
  from DoSign.prems show ?case
    by simp (blast intro: IH fle_extend)
next
  case (DoCtx c)
  note IH = DoCtx.IH [OF rangeI]
  from DoCtx.prems show ?case
    by simp (blast intro: IH fle_extend)
qed

lemma safe_seq:
  assumes "safe s P p w T"
    and "\<And>x w' T'. later s w w' \<Longrightarrow> P x w' T' \<Longrightarrow> safe s Q (f x) w' T'"
  shows "safe s Q (prog_bind p f) w T"
proof (rule safe_bind, rule safe_post)
  show "safe s (\<lambda>x w' T'. P x w' T' \<and> fle w w') p w T"
    using assms(1) by (rule safe_frame) simp
qed (auto simp: later_def intro: assms(2))

lemma safe_tryp:
  assumes "safe s P p w T"
    and "\<And>e w' T'. later s w w' \<Longrightarrow> P (Inl e) w' T' \<Longrightarrow> safe s Q (Ret (Inl e)) w' T'"
    and "\<And>x w' T'. later s w w' \<Longrightarrow> P (Inr x) w' T' \<Longrightarrow> safe s Q (f x) w' T'"
  shows "safe s Q (tryp p f) w T"
  unfolding tryp_def
  by (rule safe_seq [OF assms(1)]) (auto split: sum.splits intro: assms(2,3) simp del: safe.simps)

end
