(* ===== verification/Protocol_Calls.thy ===== *)
theory Protocol_Calls
  imports Protocol
begin

text \<open>
  Every method of the service keeps the protocol. First one introduction rule per operation,
  then one rule per helper, then the methods.
\<close>

section \<open>Rules for single operations\<close>

abbreviation anything :: "'a \<Rightarrow> facts \<Rightarrow> token set \<Rightarrow> bool" where
  "anything \<equiv> \<lambda>_ _ _. True"

lemma safe_RetI: "(\<And>w'. later s w w' \<Longrightarrow> Q x w' T) \<Longrightarrow> safe s Q (Ret x) w T"
  by simp

lemma safe_Ret_anything [simp]: "safe s anything (Ret x) w T"
  by simp

lemma safe_GetI:
  assumes "\<And>w' e. later s w w' \<Longrightarrow> store_error e \<Longrightarrow> safe s Q (c (Inl e)) w' T"
    and "\<And>w' en. later s w w' \<Longrightarrow> fa_hist w' (en_Revision en) = Some (k, en_Value en) \<Longrightarrow> safe s Q (c (Inr en)) w' T"
  shows "safe s Q (DoGet k c) w T"
  using assms by (auto simp: get_reply_def split: sum.splits)

lemma safe_CreateI:
  assumes "\<And>w'. later s w w' \<Longrightarrow> create_ok s w' T k v"
    and "\<And>w' n. later s w w' \<Longrightarrow> create_ok s w' T k v \<Longrightarrow> fa_hist w' n = None \<Longrightarrow> safe s Q (c (Inr n)) (wrote w' n k v) (T - create_needs v \<union> create_gives v n)"
    and "\<And>w'. later s w w' \<Longrightarrow> safe s Q (c (Inl StoreExists)) w' T"
    and "\<And>w' e. later s w w' \<Longrightarrow> safe s Q (c (Inl (ErrOther e))) w' (T - create_needs v)"
  shows "safe s Q (DoCreate k v c) w T"
  using assms by simp

lemma safe_UpdateI:
  assumes "\<And>w' v0. later s w w' \<Longrightarrow> fa_hist w' n = Some (k, v0) \<Longrightarrow> update_ok s w' k v0 v"
    and "\<And>w' n' v0. later s w w' \<Longrightarrow> fa_hist w' n = Some (k, v0) \<Longrightarrow> fa_hist w' n' = None \<Longrightarrow> safe s Q (c (Inr n')) (wrote w' n' k v) T"
    and "\<And>w' e. later s w w' \<Longrightarrow> store_error e \<Longrightarrow> safe s Q (c (Inl e)) w' T"
  shows "safe s Q (DoUpdate k v n c) w T"
  using assms unfolding safe.simps by blast

lemma safe_DeleteI:
  assumes "delete_ok k" and "\<And>w' r. later s w w' \<Longrightarrow> safe s Q (c r) w' T"
  shows "safe s Q (DoDelete k c) w T"
  using assms by simp

lemma safe_DeleteRevI:
  assumes "\<And>w'. later s w w' \<Longrightarrow> delete_rev_ok w' T T' k n"
    and "\<And>w' r. later s w w' \<Longrightarrow> safe s Q (c r) w' T'"
  shows "safe s Q (DoDeleteRev k n c) w T"
  using assms by fastforce

lemma safe_ListI:
  assumes "\<And>w' r. later s w w' \<Longrightarrow> list_reply w' p r \<Longrightarrow> safe s Q (c r) w' T"
  shows "safe s Q (DoList p c) w T"
  using assms by simp

lemma safe_NowI: "(\<And>w' t. later s w w' \<Longrightarrow> safe s Q (c t) w' T) \<Longrightarrow> safe s Q (DoNow c) w T"
  by simp

lemma safe_RandI:
  assumes "\<And>w' bs. later s w w' \<Longrightarrow> safe s Q (c (Inr bs)) w' (insert (TokD (digest s (b64url bs))) T)"
    and "\<And>w' e. later s w w' \<Longrightarrow> safe s Q (c (Inl (ErrOther e))) w' T"
  shows "safe s Q (DoRand c) w T"
  using assms by simp

lemma safe_UuidI:
  assumes "\<And>w' u. later s w w' \<Longrightarrow> uuid_format u \<Longrightarrow> safe s Q (c u) w' (insert (TokU u) T)"
  shows "safe s Q (DoUuid c) w T"
  using assms by simp

lemma safe_CleanupI:
  assumes "\<And>w' r. later s w w' \<Longrightarrow> safe s Q (c r) (erase w' q r) T"
  shows "safe s Q (DoCleanup q c) w T"
  using assms by simp

lemma safe_SignI:
  assumes "\<And>w'. later s w w' \<Longrightarrow> sign_ok w' T T' q" and "\<And>w' r. later s w w' \<Longrightarrow> safe s Q (c r) w' T'"
  shows "safe s Q (DoSign q c) w T"
  using assms by fastforce

lemma safe_CtxI: "(\<And>w' r. later s w w' \<Longrightarrow> safe s Q (c r) w' T) \<Longrightarrow> safe s Q (DoCtx c) w T"
  by simp

declare safe.simps(2-13) [simp del]

lemma later_wrote: "later s (wrote w n k v) w' \<Longrightarrow> fa_hist w' n = Some (k, v)"
  by (erule hist_later) (simp add: wrote_def)

lemma later_erase: "later s (erase w q r) w' \<Longrightarrow> x \<in> acknowledged q n \<Longrightarrow> r = Inr n \<Longrightarrow> x \<in> fa_erased w'"
  by (erule erased_later) (simp add: erase_def)

lemma wrote_sel [simp]:
  "fa_hist (wrote w n k v) = (fa_hist w)(n \<mapsto> (k, v))"
  "fa_erased (wrote w n k v) = fa_erased w"
  "fa_adm (wrote w n k v) = fa_adm w"
  "fa_ret (wrote w n k v) = fa_ret w"
  by (simp_all add: wrote_def)

lemma erase_sel [simp]:
  "fa_hist (erase w q r) = fa_hist w" "fa_ret (erase w q r) = fa_ret w" "fa_adm (erase w q r) = fa_adm w" "fa_closed (erase w q r) = fa_closed w"
  by (auto simp: erase_def split: sum.splits)

text \<open>Erasing facts and overwriting an unused revision keep what was known of erasure and closing.\<close>

lemma drained_wrote: "drained w e \<Longrightarrow> drained (wrote w n k v) e"
  by (auto simp: drained_def wrote_def split: val.splits)

lemma drained_erase: "drained w e \<Longrightarrow> drained (erase w q r) e"
  by (auto simp: drained_def erase_def split: sum.splits)

lemma closed_wrote: "e \<in> fa_closed w \<Longrightarrow> e \<in> fa_closed (wrote w n k v)"
  by (auto simp: wrote_def split: val.splits)

section \<open>Rules for the helpers\<close>

lemma safe_loadEvent:
  assumes "\<And>w' e. later s w w' \<Longrightarrow> safe s Q (f (Inl e)) w' T"
    and "\<And>w' ev n. later s w w' \<Longrightarrow> fa_hist w' n = Some (eventKey eid, VEvent ev) \<Longrightarrow> ev_ID ev = eid \<Longrightarrow>
      event_ok s ev \<Longrightarrow> (ev_State ev = Deleting \<longrightarrow> eid \<in> fa_closed w') \<Longrightarrow> safe s Q (f (Inr (ev, n))) w' T"
  shows "safe s Q (prog_bind (loadEvent eid) f) w T"
  unfolding loadEvent_def prog_bind.simps
proof (rule safe_GetI)
  fix w' en
  assume w': "later s w w'" and h: "fa_hist w' (en_Revision en) = Some (eventKey eid, en_Value en)"
  from facts_entry [OF later_ok [OF w'] h] obtain ev where
    "en_Value en = VEvent ev" "ev_ID ev = eid" "event_ok s ev" "ev_State ev = Deleting \<longrightarrow> eid \<in> fa_closed w'"
    by (auto dest: entry_ok_eventKey)
  with w' h assms(2) show "safe s Q (prog_bind (case Inr en of
       Inl e \<Rightarrow> if errors_is e StoreNotFound then Ret (Inl ErrNotFound) else Ret (Inl e)
     | Inr en \<Rightarrow> case decode_event (en_Value en) of Inl e \<Rightarrow> Ret (Inl e)
                | Inr ev \<Rightarrow> Ret (Inr (ev, en_Revision en))) f) w' T"
    by simp
qed (simp add: assms(1))

lemma safe_loadSlot:
  assumes "\<And>w' e. later s w w' \<Longrightarrow> safe s Q (f (Inl e)) w' T"
    and "\<And>w' sl n. later s w w' \<Longrightarrow> fa_hist w' n = Some (slotKey eid number, VSlot sl) \<Longrightarrow>
      slotKey eid number = slotKey (sl_EventID sl) (sl_Number sl) \<Longrightarrow> slot_ok s sl \<Longrightarrow> safe s Q (f (Inr (sl, n))) w' T"
  shows "safe s Q (prog_bind (loadSlot eid number) f) w T"
  unfolding loadSlot_def prog_bind.simps
proof (rule safe_GetI)
  fix w' en
  assume w': "later s w w'" and h: "fa_hist w' (en_Revision en) = Some (slotKey eid number, en_Value en)"
  from facts_entry [OF later_ok [OF w'] h] obtain sl where
    "en_Value en = VSlot sl" "slotKey eid number = slotKey (sl_EventID sl) (sl_Number sl)" "slot_ok s sl"
    by (auto dest: entry_ok_slotKey)
  with w' h assms(2) [OF w'] show "safe s Q (prog_bind (case Inr en of
       Inl e \<Rightarrow> Ret (Inl e)
     | Inr en \<Rightarrow> case decode_slot (en_Value en) of Inl e \<Rightarrow> Ret (Inl e)
                | Inr sl \<Rightarrow> Ret (Inr (sl, en_Revision en))) f) w' T"
    by simp
qed (simp add: assms(1))

lemma safe_randomSecret:
  assumes "\<And>w' e. later s w w' \<Longrightarrow> safe s Q (f (Inl e)) w' T"
    and "\<And>w' secret. later s w w' \<Longrightarrow> safe s Q (f (Inr secret)) w' (insert (TokD (digest s secret)) T)"
  shows "safe s Q (prog_bind randomSecret f) w T"
  unfolding randomSecret_def prog_bind.simps
  by (rule safe_RandI) (simp_all add: assms)

lemma safe_deleteIfExists:
  assumes "delete_ok k" and "\<And>w' r. later s w w' \<Longrightarrow> safe s Q (f r) w' T"
  shows "safe s Q (prog_bind (deleteIfExists k) f) w T"
  unfolding deleteIfExists_def prog_bind.simps
  by (rule safe_DeleteI) (auto simp: assms split: sum.splits)

lemma safe_get_receipt:
  assumes "\<And>w' e. later s w w' \<Longrightarrow> safe s Q (f (Inl e)) w' T"
    and "\<And>w' rc. later s w w' \<Longrightarrow> drained w' eid \<Longrightarrow> safe s Q (f (Inr rc)) w' T"
  shows "safe s Q (prog_bind (get_receipt eid) f) w T"
  unfolding get_receipt_def prog_bind.simps
proof (rule safe_GetI)
  fix w' en
  assume w': "later s w w'" and h: "fa_hist w' (en_Revision en) = Some (receiptKey eid, en_Value en)"
  from facts_entry [OF later_ok [OF w'] h] have "drained w' eid"
    by (auto simp: entry_ok_def split: val.splits)
  with w' show "safe s Q (prog_bind (case Inr en of
       Inl e \<Rightarrow> if errors_is e StoreNotFound then Ret (Inl ErrNotFound) else Ret (Inl e)
     | Inr en \<Rightarrow> Ret (decode_receipt (en_Value en))) f) w' T"
    by (cases "decode_receipt (en_Value en)") (auto simp: assms)
qed (simp add: assms(1))

lemma safe_claimCleanup: "safe s (\<lambda>_ _ T'. T \<subseteq> T') (claimCleanup p now lease) w T"
  by (cases p) (auto simp: claimCleanup_def intro!: safe_UuidI)

section \<open>Cleaning one slot\<close>

lemma slot_ok_upd [simp]:
  "slot_ok s (sl\<lparr>sl_Cleanup := c\<rparr>) = slot_ok s sl"
  "slot_ok s (sl\<lparr>sl_Reserved := b\<rparr>) = slot_ok s sl"
  by (simp_all add: slot_ok_def)

lemma update_ok_slotI:
  assumes "old = VSlot a" "sl_EventID a = sl_EventID b" "sl_Generation a = sl_Generation b"
    and "sl_ResumeDigest a = sl_ResumeDigest b" "slot_ok s b" "k = slotKey (sl_EventID b) (sl_Number b)"
  shows "update_ok s w k old (VSlot b)"
  using assms by (simp add: update_ok_def)

lemma update_ok_eventI:
  assumes "old = VEvent a" "ev_ID a = ev_ID b" "may_become (ev_State a) (ev_State b)"
    and "event_ok s b" "k = eventKey (ev_ID b)"
  shows "update_ok s w k old (VEvent b)"
  using assms by (simp add: update_ok_def)

lemma later_hist_eq:
  "later s w w' \<Longrightarrow> fa_hist w n = Some (k, v) \<Longrightarrow> fa_hist w' n = Some (k', v') \<Longrightarrow> v' = v"
  by (drule (1) hist_later) simp

lemma delete_ok_simps [simp]:
  "delete_ok (sessionKey d)" "delete_ok (invitationKey d)" "delete_ok (eventKey d)"
  by (auto simp: delete_ok_def)

lemma safe_release_slot:
  assumes "fa_hist w n = Some (k, VSlot sl)" "sl_Subject sl \<in> fa_erased w"
  shows "safe s (\<lambda>_ _ T'. T \<subseteq> T') (release_slot k sl n) w T"
  unfolding release_slot_def tryp_def
proof (rule safe_deleteIfExists)
  fix w' and r :: "err + unit"
  assume w': "later s w w'"
  have "safe s (\<lambda>_ _ T'. T \<subseteq> T') (DoDeleteRev k n (\<lambda>r. case r of
         Inl e \<Rightarrow> if errors_is e StoreNotFound then Ret (Inr ()) else Ret (Inl e)
       | Inr _ \<Rightarrow> Ret (Inr ()))) w' T"
  proof (rule safe_DeleteRevI)
    fix w'' assume "later s w' w''"
    with w' have l: "later s w w''" by (rule later_trans)
    then have "fa_hist w'' n = Some (k, VSlot sl)" "sl_Subject sl \<in> fa_erased w''"
      by (blast intro: hist_later erased_later assms)+
    then show "delete_rev_ok w'' T T k n"
      by (simp add: delete_rev_ok_def)
  qed (auto split: sum.splits)
  then show "safe s (\<lambda>_ _ T'. T \<subseteq> T') (case r of Inl e \<Rightarrow> Ret (Inl e) | Inr x \<Rightarrow> DoDeleteRev k n (\<lambda>r. case r of
         Inl e \<Rightarrow> if errors_is e StoreNotFound then Ret (Inr ()) else Ret (Inl e)
       | Inr _ \<Rightarrow> Ret (Inr ()))) w' T"
    by (cases r) auto
qed simp

lemma safe_record_failure:
  assumes "\<And>w' p v0. later s w w' \<Longrightarrow> fa_hist w' n = Some (k, v0) \<Longrightarrow> update_ok s w' k v0 (f p)"
  shows "safe s (\<lambda>_ _ T'. T \<subseteq> T') (record_failure k f p n e) w T"
  unfolding record_failure_def
  by (rule safe_NowI, rule safe_UpdateI) (auto intro: assms later_trans)

lemma safe_erase_slot:
  assumes h: "fa_hist w n = Some (k, VSlot sl)" and k: "k = slotKey (ev_ID ev) (sl_Number sl)"
    and k': "k = slotKey (sl_EventID sl) (sl_Number sl)" and ok: "slot_ok s sl"
  shows "safe s (\<lambda>_ _ T'. T \<subseteq> T') (erase_slot ev sl p n) w T"
  unfolding erase_slot_def k [symmetric]
proof (rule safe_CleanupI, goal_cases)
  case (1 w' r)
  let ?q = "\<lparr>cc_DeletionID = pg_ID p, cc_ApplicationID = ev_ApplicationID ev, cc_EventID = ev_ID ev,
    cc_Subjects = [sl_Subject sl], cc_Reason = ''guest_slot_released''\<rparr>"
  have h': "fa_hist (erase w' ?q r) n = Some (k, VSlot sl)"
    using 1 h by (auto dest: hist_later)
  show ?case
  proof (cases "cleanup_error r 1")
    case None
    then have "sl_Subject sl \<in> fa_erased (erase w' ?q r)"
      by (auto simp: cleanup_error_def erase_def acknowledged_def split: sum.splits if_splits)
    with h' None show ?thesis by (simp add: safe_release_slot)
  next
    case (Some e)
    show ?thesis
      unfolding Some option.case
    proof (rule safe_record_failure)
      fix w'' p' v0
      assume "later s (erase w' ?q r) w''" "fa_hist w'' n = Some (k, v0)"
      with h' have "v0 = VSlot sl" by (blast dest: later_hist_eq)
      with ok k' show "update_ok s w'' k v0 (VSlot (sl\<lparr>sl_Cleanup := Some p'\<rparr>))"
        by (auto intro!: update_ok_slotI)
    qed
  qed
qed

lemma safe_cleanSlot:
  assumes h: "fa_hist w n = Some (k, VSlot sl)" and k: "k = slotKey (ev_ID ev) (sl_Number sl)"
    and k': "k = slotKey (sl_EventID sl) (sl_Number sl)" and ok: "slot_ok s sl"
  shows "safe s (\<lambda>_ _ T'. T \<subseteq> T') (cleanSlot s ev sl n) w T"
proof (cases "sv_cleaner s")
  case False
  then show ?thesis by (simp add: cleanSlot_def)
next
  case True
  have "safe s (\<lambda>_ _ T'. T \<subseteq> T')
     (tryp (claimCleanup (sl_Cleanup sl) now (sv_cleanupLease s)) (\<lambda>p.
        DoUpdate k (VSlot (sl\<lparr>sl_Cleanup := Some p\<rparr>)) n (\<lambda>r. case r of
            Inl e \<Rightarrow> Ret (Inl e)
          | Inr n \<Rightarrow> erase_slot ev (sl\<lparr>sl_Cleanup := Some p\<rparr>) p n))) w1 T"
    if w1: "later s w w1" for now w1
  proof (rule safe_tryp [OF safe_claimCleanup])
    fix p w2 T2
    assume w2: "later s w1 w2" and T2: "T \<subseteq> T2"
    from w1 w2 h have h2: "fa_hist w2 n = Some (k, VSlot sl)"
      by (blast dest: hist_later)
    show "safe s (\<lambda>_ _ T'. T \<subseteq> T') (DoUpdate k (VSlot (sl\<lparr>sl_Cleanup := Some p\<rparr>)) n (\<lambda>r. case r of
            Inl e \<Rightarrow> Ret (Inl e)
          | Inr n \<Rightarrow> erase_slot ev (sl\<lparr>sl_Cleanup := Some p\<rparr>) p n)) w2 T2"
    proof (rule safe_UpdateI, goal_cases)
      case (1 w' v0)
      with h2 have "v0 = VSlot sl" by (blast dest: later_hist_eq)
      with ok k' show ?case by (auto intro!: update_ok_slotI)
    next
      case (2 w' n' v0)
      show ?case
        unfolding sum.case
        by (rule safe_post, rule safe_erase_slot) (use ok k k' T2 in auto)
    next
      case (3 w' e)
      with T2 show ?case by auto
    qed
  qed auto
  with True show ?thesis
    by (auto simp: cleanSlot_def Let_def k intro!: safe_NowI)
qed

section \<open>Deleting an event\<close>

lemma event_ok_upd [simp]:
  "event_ok s (ev\<lparr>ev_Cleanup := c\<rparr>) = event_ok s ev"
  "event_ok s (ev\<lparr>ev_DeletedBySubject := d\<rparr>) = event_ok s ev"
  "event_ok s (ev\<lparr>ev_State := st\<rparr>) = event_ok s ev"
  "event_ok s (ev\<lparr>ev_UpdatedAt := t\<rparr>) = event_ok s ev"
  "event_ok s (ev\<lparr>ev_InvitationDigest := i\<rparr>) = event_ok s ev"
  "event_ok s (ev\<lparr>ev_Cohosts := h\<rparr>) = event_ok s ev"
  "event_ok s (ev\<lparr>ev_DeletionID := i\<rparr>) = event_ok s ev"
  by (simp_all add: event_ok_def)

lemma upgrade_tracked_sel [simp]:
  "ev_ID (upgrade_tracked ev) = ev_ID ev" "ev_State (upgrade_tracked ev) = ev_State ev"
  "event_ok s (upgrade_tracked ev) = event_ok s ev"
  by (simp_all add: upgrade_tracked_def)

lemma safe_markSessionDeleted_loop: "safe s (\<lambda>_ _ T'. T \<subseteq> T') (markSessionDeleted_loop n sl) w T"
proof (induction n arbitrary: w)
  case 0
  then show ?case by simp
next
  case (Suc n)
  show ?case
    unfolding markSessionDeleted_loop.simps
  proof (rule safe_GetI)
    fix w' en
    show "safe s (\<lambda>_ _ T'. T \<subseteq> T') (case Inr en of
         Inl e \<Rightarrow> if errors_is e StoreNotFound then Ret (Inr ()) else Ret (Inl e)
       | Inr en \<Rightarrow>
           DoUpdate (sessionKey (sl_ResumeDigest sl))
             (VIndex \<lparr>ix_Deleted = True, ix_EventID = sl_EventID sl, ix_Slot = sl_Number sl\<rparr>) (en_Revision en)
             (\<lambda>u. case u of
                Inl e \<Rightarrow> if errors_is e StoreConflict then markSessionDeleted_loop n sl else Ret (Inl e)
              | Inr _ \<Rightarrow> Ret (Inr ()))) w' T"
      unfolding sum.case by (rule safe_UpdateI) (auto simp: update_ok_def intro: Suc.IH)
  qed auto
qed

lemma safe_markSessionDeleted: "safe s (\<lambda>_ _ T'. T \<subseteq> T') (markSessionDeleted sl) w T"
  unfolding markSessionDeleted_def by (rule safe_markSessionDeleted_loop)

text \<open>A listed slot of a drained event may be deleted at its revision.\<close>

definition listed :: "facts \<Rightarrow> string \<Rightarrow> (string \<times> entry) list \<Rightarrow> bool" where
  "listed w p xs \<longleftrightarrow> (\<forall>x \<in> set xs. prefix p (fst x) \<and> fa_hist w (en_Revision (snd x)) = Some (fst x, en_Value (snd x)))"

lemma listed_later: "later s w w' \<Longrightarrow> listed w p xs \<Longrightarrow> listed w' p xs"
  by (auto simp: listed_def dest: hist_later)

lemma list_reply_listed: "list_reply w p (Inr xs) \<Longrightarrow> listed w p xs"
  by (auto simp: list_reply_def listed_def)

lemma listed_slot:
  assumes "facts_ok s w" "listed w (slotPrefix e) xs" "x \<in> set xs" "CHR ''.'' \<notin> set e"
  shows "\<exists>sl. en_Value (snd x) = VSlot sl \<and> sl_EventID sl = e \<and> slot_ok s sl \<and> fst x = slotKey e (sl_Number sl)"
proof -
  from assms have ok: "entry_ok s w (fst x) (en_Value (snd x))" and p: "prefix (slotPrefix e) (fst x)"
    by (auto simp: listed_def intro: facts_entry)
  from ok p obtain sl where sl: "en_Value (snd x) = VSlot sl" "fst x = slotKey (sl_EventID sl) (sl_Number sl)" "slot_ok s sl"
    by (cases "en_Value (snd x)") auto
  with p assms(4) have "sl_EventID sl = e"
    by (auto simp: prefix_slotKey slot_ok_def)
  with sl show ?thesis by auto
qed

lemma safe_finalize_slots:
  assumes "facts_ok s w" "listed w (slotPrefix e) xs" "drained w e" "CHR ''.'' \<notin> set e"
  shows "safe s (\<lambda>_ _ T'. T \<subseteq> T') (finalize_slots xs) w T"
  using assms
proof (induction xs arbitrary: w T)
  case Nil
  then show ?case by simp
next
  case (Cons x xs)
  from listed_slot [OF Cons.prems(1,2) _ Cons.prems(4), of x] obtain sl where
    sl: "en_Value (snd x) = VSlot sl" "sl_EventID sl = e" by auto
  have tail: "safe s (\<lambda>_ _ T'. T \<subseteq> T') (finalize_slots xs) w' T1" if "later s w w'" "T \<subseteq> T1" for w' T1
  proof (rule safe_post, rule Cons.IH)
    from Cons.prems(2) have "listed w (slotPrefix e) xs" by (simp add: listed_def)
    with that show "listed w' (slotPrefix e) xs" by (auto intro: listed_later)
  qed (use that Cons.prems in \<open>auto intro: drained_later later_ok\<close>)
  show ?case
    unfolding finalize_slots.simps sl(1) decode_encode sum.case
  proof (rule safe_tryp [OF safe_markSessionDeleted])
    fix u w1 T1 assume w1: "later s w w1" and T1: "T \<subseteq> T1"
    show "safe s (\<lambda>_ _ T'. T \<subseteq> T') (DoDeleteRev (fst x) (en_Revision (snd x)) (\<lambda>r. case r of
              Inl e \<Rightarrow> if \<not> errors_is e StoreNotFound then Ret (Inl e) else finalize_slots xs
            | Inr _ \<Rightarrow> finalize_slots xs)) w1 T1"
    proof (rule safe_DeleteRevI)
      fix w2 assume "later s w1 w2"
      with w1 have l: "later s w w2" by (rule later_trans)
      from Cons.prems(2) have "fa_hist w (en_Revision (snd x)) = Some (fst x, VSlot sl)"
        by (simp add: listed_def sl)
      with l have "fa_hist w2 (en_Revision (snd x)) = Some (fst x, VSlot sl)" by (rule hist_later)
      with l Cons.prems(3) sl show "delete_rev_ok w2 T1 T1 (fst x) (en_Revision (snd x))"
        by (simp add: delete_rev_ok_def drained_later)
    next
      fix w2 and r :: "err + unit" assume "later s w1 w2"
      with w1 have "later s w w2" by (rule later_trans)
      then show "safe s (\<lambda>_ _ T'. T \<subseteq> T') (case r of
              Inl e \<Rightarrow> if \<not> errors_is e StoreNotFound then Ret (Inl e) else finalize_slots xs
            | Inr _ \<Rightarrow> finalize_slots xs) w2 T1"
        using T1 by (auto split: sum.splits intro: tail)
    qed
  qed auto
qed

lemma safe_finalizeEvent:
  assumes "drained w (ev_ID ev)" "event_ok s ev"
  shows "safe s anything (finalizeEvent ev n) w T"
  unfolding finalizeEvent_def
proof (rule safe_ListI)
  fix w' r assume w': "later s w w'" and r: "list_reply w' (slotPrefix (ev_ID ev)) r"
  show "safe s anything (case r of
         Inl e \<Rightarrow> Ret (Inl e)
       | Inr entries \<Rightarrow>
           tryp (finalize_slots entries) (\<lambda>_.
             tryp (deleteIfExists (invitationKey (ev_InvitationDigest ev))) (\<lambda>_.
               DoDeleteRev (eventKey (ev_ID ev)) n (\<lambda>r. case r of
                 Inl e \<Rightarrow> if errors_is e StoreNotFound then Ret (Inr ()) else Ret (Inl e)
               | Inr _ \<Rightarrow> Ret (Inr ()))))) w' T"
  proof (cases r)
    case (Inr xs)
    have del: "safe s anything (DoDeleteRev (eventKey (ev_ID ev)) n (\<lambda>r. case r of
                 Inl e \<Rightarrow> if errors_is e StoreNotFound then Ret (Inr ()) else Ret (Inl e)
               | Inr _ \<Rightarrow> Ret (Inr ()))) w'' T''" for w'' T''
      by (rule safe_DeleteRevI [where T' = T''])
         (auto simp: delete_rev_ok_def split: val.splits sum.splits dest!: later_ok dest: facts_entry)
    show ?thesis
      unfolding Inr sum.case
    proof (rule safe_tryp [OF safe_finalize_slots])
      show "facts_ok s w'" using w' by (rule later_ok)
      show "listed w' (slotPrefix (ev_ID ev)) xs" using r Inr by (auto intro: list_reply_listed)
      show "drained w' (ev_ID ev)" using w' assms(1) by (rule drained_later)
      show "CHR ''.'' \<notin> set (ev_ID ev)" using assms(2) by (simp add: event_ok_def)
    qed (auto simp: tryp_def intro!: safe_deleteIfExists del split: sum.splits)
  qed simp
qed

lemma safe_save_receipt:
  assumes "drained w (ev_ID ev)" "event_ok s ev" "rc_EventID rc = ev_ID ev"
  shows "safe s anything (save_receipt ev n rc) w T"
proof -
  have fin: "safe s anything (tryp (finalizeEvent ev n) (\<lambda>_. Ret (Inr rc'))) w' T'"
    if "drained w' (ev_ID ev)" for rc' :: receipt and w' T'
    by (rule safe_tryp [OF safe_finalizeEvent]) (use that assms in auto)
  show ?thesis
    unfolding save_receipt_def
  proof (rule safe_CreateI)
    fix w' assume "later s w w'"
    with assms show "create_ok s w' T (receiptKey (ev_ID ev)) (VReceipt rc)"
      by (auto simp: create_ok_def create_needs_def intro: drained_later)
  next
    fix w' n' assume w': "later s w w'"
    show "safe s anything (tryp (case Inr n' of
           Inl e \<Rightarrow> if errors_is e StoreExists then get_receipt (ev_ID ev) else Ret (Inl e)
         | Inr _ \<Rightarrow> Ret (Inr rc)) (\<lambda>rc. tryp (finalizeEvent ev n) (\<lambda>_. Ret (Inr rc))))
      (wrote w' n' (receiptKey (ev_ID ev)) (VReceipt rc)) (T - create_needs (VReceipt rc) \<union> create_gives (VReceipt rc) n')"
      unfolding sum.case tryp_def [of "Ret _"]
      by (simp, rule fin) (use w' assms in \<open>auto intro: drained_wrote drained_later\<close>)
  next
    fix w' assume "later s w w'"
    then show "safe s anything (tryp (case Inl StoreExists of
           Inl e \<Rightarrow> if errors_is e StoreExists then get_receipt (ev_ID ev) else Ret (Inl e)
         | Inr _ \<Rightarrow> Ret (Inr rc)) (\<lambda>rc. tryp (finalizeEvent ev n) (\<lambda>_. Ret (Inr rc)))) w' T"
      by (auto simp: tryp_def [of "get_receipt _"] intro!: safe_get_receipt fin)
  qed (simp add: tryp_def)
qed

lemma drained_after_ack:
  assumes l: "list_reply w1 (slotPrefix e) (Inr xs)" and ok: "facts_ok s w1" and dot: "CHR ''.'' \<notin> set e"
    and c: "e \<in> fa_closed w1" and sls: "decode_slots xs = Inr sls"
    and w2: "later s w1 w2" and ack: "set (map sl_Subject sls) \<subseteq> acknowledged q n" and r: "r = Inr n"
  shows "drained (erase w2 q r) e"
proof -
  have "subj e g \<in> fa_erased w2 \<union> acknowledged q n \<or> g \<in> fa_ret w2" if g: "(e, g) \<in> fa_adm w2" for g
  proof (cases "subj e g \<in> fa_erased w1 \<or> g \<in> fa_ret w1")
    case True
    with w2 show ?thesis by (auto intro: erased_later ret_later)
  next
    case False
    from g c w2 have "(e, g) \<in> fa_adm w1" by (auto simp: later_def fle_def)
    with l False obtain x sl where x: "x \<in> set xs" "en_Value (snd x) = VSlot sl" "sl_EventID sl = e" "sl_Generation sl = g"
      by (fastforce simp: list_reply_def)
    from listed_slot [OF ok list_reply_listed [OF l] x(1) dot] x(2-4) have "sl_Subject sl = subj e g"
      by (auto simp: slot_ok_def)
    moreover from sls x(1,2) have "sl \<in> set sls"
      by (fastforce simp: decode_slots_Inr list_all2_conv_all_nth in_set_conv_nth)
    ultimately show ?thesis using ack by force
  qed
  with w2 c r show ?thesis
    by (auto simp: drained_def erase_def intro: closed_later)
qed

end
