(* ===== verification/Protocol_Methods.thy ===== *)
theory Protocol_Methods
  imports Protocol_Calls
begin

text \<open>The methods of the service keep the protocol: cleaning an event, then each exported method.\<close>

section \<open>Cleaning an event\<close>

lemma safe_erase_event:
  assumes h: "fa_hist w n = Some (eventKey (ev_ID ev), VEvent ev)" and st: "ev_State ev = Deleting"
    and ok: "event_ok s ev" and c: "ev_ID ev \<in> fa_closed w"
  shows "safe s anything (erase_event ev p n) w T"
  unfolding erase_event_def
proof (rule safe_ListI)
  fix w1 r assume w1: "later s w w1" and r: "list_reply w1 (slotPrefix (ev_ID ev)) r"
  have dot: "CHR ''.'' \<notin> set (ev_ID ev)" using ok by (simp add: event_ok_def)
  show "safe s anything (case r of
         Inl e \<Rightarrow> Ret (Inl e)
       | Inr entries \<Rightarrow> (case decode_slots entries of
           Inl e \<Rightarrow> Ret (Inl e)
         | Inr sls \<Rightarrow>
             let subjects = sort (map sl_Subject sls)
             in DoCleanup \<lparr>cc_DeletionID = ev_DeletionID ev, cc_ApplicationID = ev_ApplicationID ev,
                           cc_EventID = ev_ID ev, cc_Subjects = subjects, cc_Reason = ''demo_event_deleted''\<rparr>
               (\<lambda>ack. case cleanup_error ack (int (length subjects)) of
                  Some cleanErr \<Rightarrow>
                    record_failure (eventKey (ev_ID ev)) (\<lambda>p. VEvent (ev\<lparr>ev_Cleanup := Some p\<rparr>))
                      p n cleanErr
                | None \<Rightarrow>
                    DoNow (\<lambda>now. save_receipt ev n (receipt_of ev now (ack_count ack)))))) w1 T"
  proof (cases r)
    case (Inr xs)
    show ?thesis
    proof (cases "decode_slots xs")
      case (Inr sls)
      show ?thesis
        unfolding \<open>r = Inr xs\<close> Inr sum.case Let_def
      proof (rule safe_CleanupI)
        fix w2 ack assume w2: "later s w1 w2"
        let ?q = "\<lparr>cc_DeletionID = ev_DeletionID ev, cc_ApplicationID = ev_ApplicationID ev,
                           cc_EventID = ev_ID ev, cc_Subjects = sort (map sl_Subject sls), cc_Reason = ''demo_event_deleted''\<rparr>"
        from w1 w2 have ww2: "later s w w2" by (rule later_trans)
        show "safe s anything (case cleanup_error ack (int (length (sort (map sl_Subject sls)))) of
                  None \<Rightarrow>
                    DoNow (\<lambda>now. save_receipt ev n (receipt_of ev now (ack_count ack)))
                | Some cleanErr \<Rightarrow>
                    record_failure (eventKey (ev_ID ev)) (\<lambda>p. VEvent (ev\<lparr>ev_Cleanup := Some p\<rparr>))
                      p n cleanErr) (erase w2 ?q ack) T"
        proof (cases "cleanup_error ack (int (length (sort (map sl_Subject sls))))")
          case None
          then have ack: "ack = Inr (int (length (cc_Subjects ?q)))"
            by (auto simp: cleanup_error_def split: sum.splits if_splits)
          have dr: "drained (erase w2 ?q ack) (ev_ID ev)"
            using drained_after_ack [OF r [unfolded \<open>r = Inr xs\<close>] later_ok [OF w1] dot
                closed_later [OF w1 c] Inr w2 _ ack]
            by (simp add: acknowledged_def)
          have "safe s anything (save_receipt ev n (receipt_of ev now (ack_count ack))) w3 T"
            if "later s (erase w2 ?q ack) w3" for now w3
            using that dr ok by (intro safe_save_receipt) (auto simp: receipt_of_def intro: drained_later)
          then show ?thesis
            unfolding None option.case by (rule safe_NowI)
        next
          case (Some e)
          have "update_ok s w' (eventKey (ev_ID ev)) v0 (VEvent (ev\<lparr>ev_Cleanup := Some p\<rparr>))"
            if "later s (erase w2 ?q ack) w'" "fa_hist w' n = Some (eventKey (ev_ID ev), v0)" for w' p v0
          proof -
            have "fa_hist (erase w2 ?q ack) n = Some (eventKey (ev_ID ev), VEvent ev)"
              using hist_later [OF ww2 h] by simp
            from later_hist_eq [OF that(1) this that(2)] have "v0 = VEvent ev" .
            with ok show ?thesis by (auto intro!: update_ok_eventI)
          qed
          then show ?thesis
            unfolding Some option.case by (rule safe_post [OF safe_record_failure]) simp_all
        qed
      qed
    qed (simp add: \<open>r = Inr xs\<close>)
  qed simp
qed

lemma safe_cleanEvent:
  assumes h: "fa_hist w n = Some (eventKey (ev_ID ev), VEvent ev)" and st: "ev_State ev = Deleting"
    and ok: "event_ok s ev"
  shows "safe s anything (cleanEvent s ev n) w T"
  unfolding cleanEvent_def
proof (rule safe_get_receipt)
  fix w1 rc assume "later s w w1" "drained w1 (ev_ID ev)"
  then show "safe s anything (case Inr rc of Inr rc \<Rightarrow> tryp (finalizeEvent ev n) (\<lambda>_. Ret (Inr rc))
       | Inl e \<Rightarrow>
           if \<not> errors_is e ErrNotFound then Ret (Inl e)
           else if \<not> sv_cleaner s then Ret (Inl not_configured)
           else
             let ev = upgrade_tracked ev
             in DoNow (\<lambda>now.
               tryp (claimCleanup (ev_Cleanup ev) now (sv_cleanupLease s)) (\<lambda>progress.
                 let ev = ev\<lparr>ev_Cleanup := Some progress\<rparr>
                 in DoUpdate (eventKey (ev_ID ev)) (VEvent ev) n (\<lambda>r. case r of
                     Inl e \<Rightarrow> Ret (Inl e)
                   | Inr revision \<Rightarrow> erase_event ev progress revision)))) w1 T"
    unfolding sum.case
    by (intro safe_tryp [OF safe_finalizeEvent]) (use ok in auto)
next
  fix w1 e assume w1: "later s w w1"
  let ?ev = "\<lambda>p. (upgrade_tracked ev)\<lparr>ev_Cleanup := Some p\<rparr>"
  have "safe s anything (DoUpdate (eventKey (ev_ID ev)) (VEvent (?ev p)) n (\<lambda>r. case r of
                     Inl e \<Rightarrow> Ret (Inl e)
                   | Inr revision \<Rightarrow> erase_event (?ev p) p revision)) w2 T2"
    if w2: "later s w w2" for w2 T2 p
  proof (rule safe_UpdateI, goal_cases)
    case (1 w' v0)
    from 1 w2 h have "v0 = VEvent ev" by (blast dest: hist_later later_hist_eq)
    with ok st show ?case by (auto intro!: update_ok_eventI)
  next
    case (2 w' n' v0)
    have a: "fa_hist (wrote w' n' (eventKey (ev_ID ev)) (VEvent (?ev p))) n' = Some (eventKey (ev_ID (?ev p)), VEvent (?ev p))"
      by simp
    have b: "ev_ID (?ev p) \<in> fa_closed (wrote w' n' (eventKey (ev_ID ev)) (VEvent (?ev p)))"
      using st by (simp add: wrote_def)
    show ?case
      unfolding sum.case by (rule safe_erase_event [OF a _ _ b]) (use st ok in auto)
  next
    case (3 w' e)
    then show ?case by simp
  qed
  note upd = this
  have "safe s anything (tryp (claimCleanup c now (sv_cleanupLease s)) (\<lambda>p.
                 DoUpdate (eventKey (ev_ID ev)) (VEvent (?ev p)) n (\<lambda>r. case r of
                     Inl e \<Rightarrow> Ret (Inl e)
                   | Inr revision \<Rightarrow> erase_event (?ev p) p revision))) w2 T" if "later s w w2" for w2 c now
    by (rule safe_tryp [OF safe_claimCleanup]) (simp, rule upd [OF later_trans [OF that]])
  with w1 show "safe s anything (case Inl e of Inr rc \<Rightarrow> tryp (finalizeEvent ev n) (\<lambda>_. Ret (Inr rc))
       | Inl e \<Rightarrow>
           if \<not> errors_is e ErrNotFound then Ret (Inl e)
           else if \<not> sv_cleaner s then Ret (Inl not_configured)
           else
             let ev = upgrade_tracked ev
             in DoNow (\<lambda>now.
               tryp (claimCleanup (ev_Cleanup ev) now (sv_cleanupLease s)) (\<lambda>progress.
                 let ev = ev\<lparr>ev_Cleanup := Some progress\<rparr>
                 in DoUpdate (eventKey (ev_ID ev)) (VEvent ev) n (\<lambda>r. case r of
                     Inl e \<Rightarrow> Ret (Inl e)
                   | Inr revision \<Rightarrow> erase_event ev progress revision)))) w1 T"
    by (auto simp: Let_def intro!: safe_NowI intro: later_trans)
qed

section \<open>Reading\<close>

lemma safe_tryp_Ret: "(\<And>x w' T'. later s w w' \<Longrightarrow> safe s anything (f x) w' T') \<Longrightarrow> safe s anything p w T \<Longrightarrow> safe s anything (tryp p f) w T"
  by (rule safe_tryp [where P = anything]) auto

lemma safe_GetEvent:
  assumes "\<And>w' e. later s w w' \<Longrightarrow> safe s Q (f (Inl e)) w' T"
    and "\<And>w' ev. later s w w' \<Longrightarrow> ev_ID ev = eid \<Longrightarrow> event_ok s ev \<Longrightarrow> safe s Q (f (Inr ev)) w' T"
  shows "safe s Q (prog_bind (GetEvent pr eid) f) w T"
  unfolding GetEvent_def tryp_def prog_bind_assoc
  by (rule safe_loadEvent) (use assms in auto)

lemma safe_reads:
  "safe s anything (GetEvent pr eid) w T"
  "safe s anything (ListEvents pr) w T"
  "safe s anything (ListSlots pr eid) w T"
  "safe s anything (GetReceipt pr eid) w T"
  "safe s anything (ListReceipts pr) w T"
proof -
  show "safe s anything (GetEvent pr eid) w T"
    using safe_GetEvent [of s w anything Ret T eid pr] by simp
  show "safe s anything (ListEvents pr) w T"
    by (auto simp: ListEvents_def intro!: safe_ListI split: sum.splits)
  show "safe s anything (ListSlots pr eid) w T"
    unfolding ListSlots_def tryp_def
    by (rule safe_GetEvent) (auto intro!: safe_ListI split: sum.splits)
  show "safe s anything (GetReceipt pr eid) w T"
    unfolding GetReceipt_def tryp_def
    by (rule safe_get_receipt) auto
  show "safe s anything (ListReceipts pr) w T"
    by (auto simp: ListReceipts_def intro!: safe_ListI split: sum.splits)
qed

section \<open>Managing an event\<close>

lemma safe_CreateEvent: "safe s anything (CreateEvent s owner input) w T"
proof -
  have "safe s anything (DoCreate (eventKey (ev_ID ev)) (VEvent ev) (\<lambda>r. case r of
                 Inl e \<Rightarrow> Ret (Inl e)
               | Inr _ \<Rightarrow>
                   DoCreate (invitationKey (ev_InvitationDigest ev)) (VText (ev_ID ev)) (\<lambda>r. case r of
                     Inl e \<Rightarrow> DoDelete (eventKey (ev_ID ev)) (\<lambda>_. Ret (Inl e))
                   | Inr _ \<Rightarrow> Ret (Inr (ev, invitationURL s secret)))))
          w1 (insert (TokU eid) T1)"
    if "valid_input s owner i" "uuid_format eid" "ev = new_event owner i eid dig now"
    for w1 T1 eid ev secret dig i now
    by (rule safe_CreateI)
      (use that in \<open>auto simp: create_ok_def create_needs_def event_ok_def new_event_def valid_input_def uuid_no_dot
         split: sum.splits intro!: safe_CreateI safe_DeleteI\<close>)
  then show ?thesis
    by (auto simp: CreateEvent_def Let_def tryp_def intro!: safe_randomSecret safe_NowI safe_UuidI)
qed

lemma safe_event_update:
  assumes "fa_hist w n = Some (eventKey (ev_ID a), VEvent a)" "ev_ID b = ev_ID a" "event_ok s b"
    and "may_become (ev_State a) (ev_State b)"
    and "\<And>w' n' v0. later s w w' \<Longrightarrow> fa_hist w' n' = None \<Longrightarrow>
      safe s Q (c (Inr n')) (wrote w' n' (eventKey (ev_ID a)) (VEvent b)) T"
    and "\<And>w' e. later s w w' \<Longrightarrow> safe s Q (c (Inl e)) w' T"
  shows "safe s Q (DoUpdate (eventKey (ev_ID a)) (VEvent b) n c) w T"
proof (rule safe_UpdateI, goal_cases)
  case (1 w' v0)
  then have "v0 = VEvent a" using assms(1) by (blast dest: later_hist_eq)
  with assms(2-4) show ?case by (auto intro!: update_ok_eventI)
qed (use assms(5,6) in blast)+

lemma event_ok_capacity: "event_ok s ev \<Longrightarrow> 0 \<le> c \<Longrightarrow> c \<le> sv_maxCapacity s \<Longrightarrow> event_ok s (ev\<lparr>ev_Capacity := c\<rparr>)"
  by (simp add: event_ok_def)

lemma set_cohost_sel [simp]:
  "ev_ID (set_cohost ev c caps) = ev_ID ev" "ev_State (set_cohost ev c caps) = ev_State ev"
  "event_ok s (set_cohost ev c caps) = event_ok s ev"
  by (simp_all add: set_cohost_def)

lemma safe_UpdateCapacity: "safe s anything (UpdateCapacity s pr eid capacity) w T"
proof -
  have "safe s anything (UpdateCapacity_loop n pr eid capacity) w T" 
    if c: "0 \<le> capacity" "capacity \<le> sv_maxCapacity s" for n w
  proof (induction n arbitrary: w)
    case (Suc n)
    show ?case
      unfolding UpdateCapacity_loop.simps tryp_def
    proof (rule safe_loadEvent, goal_cases)
      case (2 w' ev m)
      with c Suc show ?case
        by (auto simp: Let_def split: sum.splits intro!: safe_NowI safe_event_update event_ok_capacity
            elim: hist_later)
    qed simp
  qed simp
  then show ?thesis by (simp add: UpdateCapacity_def)
qed

lemma safe_SetCohost: "safe s anything (SetCohost pr eid cohost caps) w T"
proof -
  have "safe s anything (SetCohost_loop n pr eid cohost caps) w T" for n w
  proof (induction n arbitrary: w)
    case (Suc n)
    show ?case
      unfolding SetCohost_loop.simps tryp_def
    proof (rule safe_loadEvent, goal_cases)
      case (2 w' ev m)
      with Suc show ?case
        by (auto simp: Let_def split: sum.splits intro!: safe_NowI safe_event_update elim: hist_later)
    qed simp
  qed simp
  then show ?thesis by (simp add: SetCohost_def)
qed

lemma later_refl: "facts_ok s w \<Longrightarrow> later s w w"
  by (simp add: later_def)

lemma later_of_wrote:
  "later s w w' \<Longrightarrow> fa_hist w' n = None \<Longrightarrow> later s (wrote w' n k v) w'' \<Longrightarrow> later s w w''"
  unfolding later_def by (blast intro: fle_trans fle_wrote)

lemma safe_reserve_loop:
  assumes "facts_ok s w" "listed w p xs" and again: "\<And>w'. later s w w' \<Longrightarrow> safe s anything again w' T"
  shows "safe s anything (reserve_loop again xs) w T"
  using assms
proof (induction xs arbitrary: w)
  case (Cons x xs)
  have tail: "safe s anything (reserve_loop again xs) w' T" if "later s w w'" for w'
  proof (rule Cons.IH)
    from Cons.prems(2) have "listed w p xs" by (simp add: listed_def)
    with that show "listed w' p xs" by (rule listed_later)
  qed (use that Cons.prems(3) in \<open>auto intro: later_ok later_trans\<close>)
  from Cons.prems(2) have h: "fa_hist w (en_Revision (snd x)) = Some (fst x, en_Value (snd x))"
    by (simp add: listed_def)
  show ?case
  proof (cases "decode_slot (en_Value (snd x))")
    case (Inr sl)
    then have v: "en_Value (snd x) = VSlot sl" by simp
    have upd: "update_ok s w' (fst x) v0 (VSlot (sl\<lparr>sl_Reserved := True\<rparr>))"
      if "later s w w'" "fa_hist w' (en_Revision (snd x)) = Some (fst x, v0)" for w' v0
    proof -
      from that h v have "v0 = VSlot sl" by (auto dest: later_hist_eq)
      moreover from facts_entry [OF Cons.prems(1) h] v have "fst x = slotKey (sl_EventID sl) (sl_Number sl)" "slot_ok s sl"
        by auto
      ultimately show ?thesis by (auto intro!: update_ok_slotI)
    qed
    have "safe s anything (DoUpdate (fst x) (VSlot (sl\<lparr>sl_Reserved := True\<rparr>)) (en_Revision (snd x)) (\<lambda>r. case r of
              Inl e \<Rightarrow> if errors_is e StoreConflict then again else Ret (Inl e)
            | Inr _ \<Rightarrow> reserve_loop again xs)) w T"
    proof (rule safe_UpdateI, goal_cases)
      case (2 w' n' v0)
      show ?case
        unfolding sum.case by (rule safe_delay, rule tail, rule later_of_wrote [OF 2(1,3)])
    qed (use upd again in \<open>auto intro: Cons.prems(3)\<close>)
    with tail [OF later_refl [OF Cons.prems(1)]] Inr show ?thesis by auto
  qed simp
qed simp

lemma safe_reserveSlots: "safe s anything (reserveSlots fuel eid) w T"
proof (induction fuel arbitrary: w)
  case (Suc fuel)
  show ?case
    unfolding reserveSlots.simps
  proof (rule safe_ListI)
    fix w' r assume "later s w w'" "list_reply w' (slotPrefix eid) r"
    then show "safe s anything (case r of Inl e \<Rightarrow> Ret (Inl e)
         | Inr entries \<Rightarrow> reserve_loop (reserveSlots fuel eid) entries) w' T"
      using Suc.IH by (cases r) (auto intro: safe_reserve_loop later_ok list_reply_listed)
  qed
qed simp

lemma safe_SetState: "safe s anything (SetState fuel pr eid target) w T"
proof -
  have "safe s anything (SetState_loop fuel n pr eid target) w T" for n w
  proof (induction n arbitrary: w)
    case (Suc n)
    have res: "safe s anything (tryp (reserveSlots fuel eid) (\<lambda>_. Ret (Inr ev))) w' T" for ev :: event and w'
      by (rule safe_tryp [OF safe_reserveSlots]) auto
    show ?case
      unfolding SetState_loop.simps tryp_def [of "loadEvent _"]
    proof (rule safe_loadEvent, goal_cases)
      case (2 w' ev m)
      with Suc res show ?case
        by (auto simp: Let_def may_become_def split: sum.splits intro!: safe_NowI safe_event_update elim: hist_later)
    qed simp
  qed simp
  then show ?thesis by (simp add: SetState_def)
qed

lemma safe_RotateInvitation: "safe s anything (RotateInvitation s pr eid) w T"
  unfolding RotateInvitation_def tryp_def [of "loadEvent _"]
proof (rule safe_loadEvent, goal_cases)
  case (2 w1 ev m)
  have upd: "safe s anything (DoUpdate (eventKey eid) (VEvent (ev\<lparr>ev_InvitationDigest := d, ev_UpdatedAt := now\<rparr>)) m (\<lambda>r. case r of
                     Inl e \<Rightarrow> DoDelete (invitationKey d) (\<lambda>_. Ret (Inl e))
                   | Inr _ \<Rightarrow>
                       DoDelete (invitationKey (ev_InvitationDigest ev)) (\<lambda>_. Ret (Inr (invitationURL s secret))))) w2 T2"
    if "later s w1 w2" for d now secret w2 T2
    unfolding 2(3) [symmetric]
    by (rule safe_event_update) (use 2 that in \<open>auto intro!: safe_DeleteI elim: hist_later\<close>)
  have "safe s anything (DoCreate (invitationKey d) (VText eid) (\<lambda>r. case r of
             Inl e \<Rightarrow> Ret (Inl e)
           | Inr _ \<Rightarrow>
               DoNow (\<lambda>now.
                 let oldDigest = ev_InvitationDigest ev;
                     ev = ev\<lparr>ev_InvitationDigest := d, ev_UpdatedAt := now\<rparr>
                 in DoUpdate (eventKey eid) (VEvent ev) m (\<lambda>r. case r of
                     Inl e \<Rightarrow> DoDelete (invitationKey d) (\<lambda>_. Ret (Inl e))
                   | Inr _ \<Rightarrow>
                       DoDelete (invitationKey oldDigest) (\<lambda>_. Ret (Inr (invitationURL s secret))))))) w2 T2"
    if "later s w1 w2" for d secret w2 T2
  proof (rule safe_CreateI, goal_cases)
    case (2 w' n)
    show ?case
      unfolding sum.case Let_def
      by (rule safe_NowI, rule upd, rule later_trans [OF that], rule later_of_wrote [OF 2(1,3)])
  qed (auto simp: create_ok_def create_needs_def)
  note post = this [unfolded Let_def]
  show ?case
    by (auto simp: tryp_def Let_def intro!: safe_randomSecret post)
qed simp

lemma slotKey_same: "slotKey a m = slotKey b n \<Longrightarrow> a = b \<and> format_03d m = format_03d n"
  by (simp add: slotKey_def, drule append_dot_inj) simp_all

lemma slotKey_own: "slotKey e n = slotKey (sl_EventID sl) (sl_Number sl) \<Longrightarrow> slotKey e n = slotKey e (sl_Number sl) \<and> sl_EventID sl = e"
  by (drule slotKey_same) (simp add: slotKey_def)

lemma safe_ReleaseSlot: "safe s anything (ReleaseSlot s pr eid number) w T"
  unfolding ReleaseSlot_def tryp_def
proof (rule safe_GetEvent, goal_cases)
  case (2 w1 ev)
  have "safe s anything (prog_bind (loadSlot eid number) (case_sum (\<lambda>e. Ret (Inl e)) (\<lambda>(sl, revision). cleanSlot s ev sl revision))) w1 T"
  proof (rule safe_loadSlot, goal_cases)
    case (2 w2 sl n)
    from slotKey_own [OF 2(3)] \<open>ev_ID ev = eid\<close>
    have "slotKey eid number = slotKey (ev_ID ev) (sl_Number sl)" by simp
    from safe_cleanSlot [OF 2(2) this 2(3,4)] show ?case
      by simp (rule safe_post, auto)
  qed simp
  then show ?case by simp
qed simp

lemma safe_DeleteEvent: "safe s anything (DeleteEvent s pr eid) w T"
  unfolding DeleteEvent_def
proof (rule safe_loadEvent, goal_cases)
  case (1 w' e)
  then show ?case by (auto intro: safe_reads)
next
  case (2 w1 ev n)
  have "safe s anything (DoUpdate (eventKey eid) (VEvent (start_deleting ev pr d t1 t2)) n (\<lambda>r. case r of
                 Inl e \<Rightarrow> Ret (Inl e)
               | Inr revision \<Rightarrow> cleanEvent s (start_deleting ev pr d t1 t2) revision)) w2 T2"
    if "later s w1 w2" for w2 T2 d t1 t2
    unfolding 2(3) [symmetric]
    by (rule safe_event_update)
       (use 2 that in \<open>auto simp: start_deleting_def intro!: safe_cleanEvent elim: hist_later\<close>)
  note upd = this
  have "safe s anything (DoUuid (\<lambda>delid. DoNow (\<lambda>now1. DoNow (\<lambda>now2.
          DoUpdate (eventKey eid) (VEvent (start_deleting ev pr delid now1 now2)) n (\<lambda>r. case r of
                 Inl e \<Rightarrow> Ret (Inl e)
               | Inr revision \<Rightarrow> cleanEvent s (start_deleting ev pr delid now1 now2) revision))))) w1 T"
    by (rule safe_UuidI, rule safe_NowI, rule safe_NowI, rule upd) (blast intro: later_trans)
  with 2 show ?case
    by (auto simp: Let_def intro!: safe_cleanEvent)
qed

end
