(* ===== verification/Protocol_Sessions.thy ===== *)
theory Protocol_Sessions
  imports Protocol_Methods
begin

text \<open>
  The guest's methods and the reconciler keep the protocol: a session is minted for an admitted
  identity only, and a slot is withdrawn only by the call that created it.
\<close>

section \<open>Sessions\<close>

lemma safe_mint:
  assumes adm: "(ev_ID ev, sl_Generation sl) \<in> fa_adm w" and sub: "sl_Subject sl = subj (ev_ID ev) (sl_Generation sl)"
    and c: "confirmed w (sl_Generation sl) \<or> TokA (sl_Generation sl) n \<in> T"
  shows "safe s anything (mint s ev sl secret) w T"
proof -
  have "safe s anything (DoSign q (case_sum (\<lambda>e. Ret (Inl e)) (\<lambda>raw. Ret (Inr (raw, expires))))) w' (insert t T)"
    if w': "later s w w'" and q: "jc_EventID q = ev_ID ev" "jc_Subject q = sl_Subject sl" for q w' t and expires :: time
  proof (rule safe_SignI [where T' = "insert t T - {TokA (sl_Generation sl) n}"])
    fix w2 assume "later s w' w2"
    with w' have l: "later s w w2" by (rule later_trans)
    have "confirmed w2 (sl_Generation sl) \<or> TokA (sl_Generation sl) n \<in> T"
      using c l by (blast intro: confirmed_later)
    with adm_later [OF l adm] sub q show "sign_ok w2 (insert t T) (insert t T - {TokA (sl_Generation sl) n}) q"
      by (auto simp: sign_ok_def)
  qed (auto split: sum.splits)
  note sign = this
  have "safe s anything (Mint i g) w T"
    if "gu_EventID g = ev_ID ev" "gu_Subject g = sl_Subject sl" for i g
    unfolding Mint_def Let_def
    by (rule safe_NowI, rule safe_UuidI, rule sign) (use that in \<open>auto intro: later_trans\<close>)
  then show ?thesis
    by (auto simp: mint_def Let_def intro!: safe_tryp_Ret)
qed

text \<open>What a renewed lease shows of the identity it names.\<close>

definition may_sign :: "facts \<Rightarrow> event \<times> slot \<Rightarrow> bool" where
  "may_sign w x = (case x of (ev, sl) \<Rightarrow> (ev_ID ev, sl_Generation sl) \<in> fa_adm w \<and>
     sl_Subject sl = subj (ev_ID ev) (sl_Generation sl) \<and> confirmed w (sl_Generation sl))"

abbreviation renewal :: "err + event \<times> slot \<Rightarrow> facts \<Rightarrow> token set \<Rightarrow> bool" where
  "renewal \<equiv> \<lambda>r w T. case r of Inl _ \<Rightarrow> True | Inr x \<Rightarrow> may_sign w x"

lemma renewed_sel [simp]:
  "sl_EventID (renewed s sl t) = sl_EventID sl" "sl_Generation (renewed s sl t) = sl_Generation sl"
  "sl_ResumeDigest (renewed s sl t) = sl_ResumeDigest sl" "sl_Number (renewed s sl t) = sl_Number sl"
  "sl_Subject (renewed s sl t) = sl_Subject sl" "slot_ok s' (renewed s sl t) = slot_ok s' sl"
  by (simp_all add: renewed_def Let_def slot_ok_def)

lemma index_identity:
  assumes ok: "facts_ok s w" and ix: "index_ok w d ix" "\<not> ix_Deleted ix"
    and sl: "slot_at w n sl" "sl_ResumeDigest sl = d"
  shows "(ix_EventID ix, sl_Generation sl) \<in> fa_adm w \<and> sl_EventID sl = ix_EventID ix"
proof -
  from ix obtain r sl0 where sl0: "slot_at w r sl0" "sl_ResumeDigest sl0 = d" "sl_EventID sl0 = ix_EventID ix"
    "(sl_EventID sl0, sl_Generation sl0) \<in> fa_adm w"
    by (auto simp: index_ok_def)
  with ok sl have "sl_EventID sl0 = sl_EventID sl \<and> sl_Generation sl0 = sl_Generation sl"
    unfolding facts_ok_def by metis
  with sl0 show ?thesis by simp
qed

lemma safe_renewLease_loop:
  assumes "index_ok w d ix" "\<not> ix_Deleted ix"
  shows "safe s renewal (renewLease_loop s n d ix) w T"
  using assms(1)
proof (induction n arbitrary: w)
  case (Suc n)
  have upd: "safe s renewal (DoUpdate (slotKey (ix_EventID ix) (ix_Slot ix)) (VSlot (renewed s sl now)) rev (\<lambda>r. case r of
                     Inl e \<Rightarrow> if errors_is e StoreConflict then renewLease_loop s n d ix
                              else Ret (Inl e)
                   | Inr _ \<Rightarrow> Ret (Inr (ev, renewed s sl now)))) w1 T"
    if w1: "later s w w1" and h: "fa_hist w1 rev = Some (slotKey (ix_EventID ix) (ix_Slot ix), VSlot sl)"
      and k: "slotKey (ix_EventID ix) (ix_Slot ix) = slotKey (sl_EventID sl) (sl_Number sl)"
      and ok: "slot_ok s sl" and d: "sl_ResumeDigest sl = d" and ev: "ev_ID ev = ix_EventID ix"
    for w1 ev sl rev now
  proof (rule safe_UpdateI, goal_cases)
    case (1 w' v0)
    with h have "v0 = VSlot sl" by (blast dest: later_hist_eq)
    with ok k show ?case by (auto intro!: update_ok_slotI)
  next
    case (2 w' n' v0)
    have "renewal (Inr (ev, renewed s sl now)) w2 T" if w2: "later s (wrote w' n' (slotKey (ix_EventID ix) (ix_Slot ix)) (VSlot (renewed s sl now))) w2" for w2
    proof -
      from w1 2 w2 have l: "later s w1 w2" and l0: "later s w w2" by (blast intro: later_trans later_of_wrote)+
      have s1: "slot_at w2 rev sl" using hist_later [OF l h] k by (simp add: slot_at_def)
      have s2: "slot_at w2 n' (renewed s sl now)" using later_wrote [OF w2] k by (simp add: slot_at_def)
      from s1 2(1,3) h have ne: "n' \<noteq> rev" by (auto dest: hist_later)
      from l0 Suc.prems have "index_ok w2 d ix" by (auto simp: later_def intro: index_ok_fle)
      from index_identity [OF later_ok [OF w2] this assms(2) s1 d]
      have "(ix_EventID ix, sl_Generation sl) \<in> fa_adm w2" "sl_EventID sl = ix_EventID ix" by auto
      moreover have "confirmed w2 (sl_Generation sl)"
        unfolding confirmed_def using s1 s2 ne by (metis renewed_sel(2))
      ultimately show ?thesis
        using ok ev by (simp add: may_sign_def slot_ok_def)
    qed
    then show ?case by (simp only: sum.case safe.simps) blast
  next
    case (3 w' e)
    from w1 3 have "later s w w'" by (blast intro: later_trans)
    then have "index_ok w' d ix" using Suc.prems by (auto simp: later_def intro: index_ok_fle)
    then show ?case using Suc.IH by auto
  qed
  show ?case
    unfolding renewLease_loop.simps tryp_def [of "loadEvent _"]
  proof (rule safe_loadEvent, goal_cases)
    case (2 w1 ev m)
    note ev = 2
    have "safe s renewal (prog_bind (loadSlot (ix_EventID ix) (ix_Slot ix)) (\<lambda>l. case l of
           Inl _ \<Rightarrow> Ret (Inl ErrSessionExpired)
         | Inr (sl, revision) \<Rightarrow>
             if sl_ResumeDigest sl \<noteq> d then Ret (Inl ErrSessionExpired)
             else DoNow (\<lambda>now.
               if sl_Cleanup sl \<noteq> None \<or> (\<not> sl_Reserved sl \<and> \<not> before now (sl_GraceExpiresAt sl))
               then Ret (Inl ErrSessionExpired)
               else
                 let sl = renewed s sl now
                 in DoUpdate (slotKey (ix_EventID ix) (ix_Slot ix)) (VSlot sl) revision (\<lambda>r. case r of
                     Inl e \<Rightarrow> if errors_is e StoreConflict then renewLease_loop s n d ix
                              else Ret (Inl e)
                   | Inr _ \<Rightarrow> Ret (Inr (ev, sl)))))) w1 T"
    proof (rule safe_loadSlot, goal_cases)
      case (2 w2 sl rev)
      have "safe s renewal (DoUpdate (slotKey (ix_EventID ix) (ix_Slot ix)) (VSlot (renewed s sl now)) rev (\<lambda>r. case r of
                     Inl e \<Rightarrow> if errors_is e StoreConflict then renewLease_loop s n d ix
                              else Ret (Inl e)
                   | Inr _ \<Rightarrow> Ret (Inr (ev, renewed s sl now)))) w3 T"
        if "later s w2 w3" "sl_ResumeDigest sl = d" for w3 now
        by (rule upd) (use 2 ev that in \<open>auto elim: hist_later intro: later_trans\<close>)
      then show ?case by (auto simp: Let_def intro!: safe_NowI)
    qed simp
    then show ?case by simp
  qed simp
qed simp

lemma safe_renewLease: "safe s renewal (renewLease s secret) w T"
  unfolding renewLease_def Let_def
proof (rule safe_GetI, goal_cases)
  case (2 w1 en)
  show ?case
  proof (cases "decode_index (en_Value en)")
    case (Inr ix)
    with facts_entry [OF later_ok [OF 2(1)] 2(2)] have "index_ok w1 (digest s secret) ix" by auto
    with Inr show ?thesis by (auto intro: safe_renewLease_loop)
  qed simp
qed simp

lemma safe_RenewSession: "safe s anything (RenewSession s secret) w T"
  unfolding RenewSession_def
  by (rule safe_tryp [OF safe_renewLease]) (auto simp: may_sign_def intro: safe_mint)

lemma safe_HeartbeatSession: "safe s anything (HeartbeatSession s secret) w T"
  unfolding HeartbeatSession_def
  by (rule safe_tryp [OF safe_renewLease]) auto


text \<open>Deleting a slot at the revision it was created at, before a token was signed for it.\<close>

lemma safe_withdraw:
  assumes h: "fa_hist w n = Some (k, VSlot sl)" and t: "t \<in> {TokS (sl_Generation sl) n, TokA (sl_Generation sl) n}" "t \<in> T"
    and c: "\<And>w'. later s w w' \<Longrightarrow> safe s Q p w' (T - {t})"
  shows "safe s Q (DoDeleteRev k n (\<lambda>_. p)) w T"
proof (rule safe_DeleteRevI [where T' = "T - {t}"])
  fix w' assume "later s w w'"
  then have "fa_hist w' n = Some (k, VSlot sl)" using h by (rule hist_later)
  then show "delete_rev_ok w' T (T - {t}) k n" using t by (auto simp: delete_rev_ok_def)
qed (rule c)

lemma later_admission:
  "later s w w' \<Longrightarrow> admission w' T k r w'' T' \<Longrightarrow> later s w'' w3 \<Longrightarrow> later s w w3"
  unfolding later_def by (blast intro: fle_trans fle_admission)

lemma safe_admit:
  assumes h: "fa_hist w n = Some (slotKey (ev_ID ev) (sl_Number sl), VSlot sl)" and e: "sl_EventID sl = ev_ID ev"
    and T: "TokS (sl_Generation sl) n \<in> T" and sub: "sl_Subject sl = subj (sl_EventID sl) (sl_Generation sl)"
    and tail: "\<And>w' T'. later s w w' \<Longrightarrow> safe s anything tail w' T'"
  shows "safe s anything (admit s ev sl secret n tail) w T"
proof -
  let ?key = "slotKey (ev_ID ev) (sl_Number sl)"
  let ?g = "sl_Generation sl"
  have unwind: "safe s anything (DoDeleteRev ?key n (\<lambda>_. Ret (Inl err))) w' T" if "later s w w'" for w' and err
    by (rule safe_withdraw [OF hist_later [OF that h], of "TokS ?g n"]) (use T in auto)
  have adm: "safe s anything (DoCreate (sessionKey (sl_ResumeDigest sl))
                   (VIndex \<lparr>ix_Deleted = False, ix_EventID = ev_ID ev, ix_Slot = sl_Number sl\<rparr>)
                   (\<lambda>r. case r of
                      Inl _ \<Rightarrow> DoDeleteRev ?key n (\<lambda>_. tail)
                    | Inr _ \<Rightarrow> mint s ev sl secret)) w2 T2"
    if w1: "later s w w1" and a: "admission w1 T k r w2 T2" and T2: "TokA ?g n \<in> T2" and g: "(ev_ID ev, ?g) \<in> fa_adm w2"
    for w1 w2 T2 k r
  proof -
    have l: "later s w w3" if "later s w2 w3" for w3 by (rule later_admission [OF w1 a that])
    have rewind: "safe s anything (DoDeleteRev ?key n (\<lambda>_. tail)) w3 T2" if "later s w2 w3" for w3
      by (rule safe_withdraw [OF hist_later [OF l [OF that] h], of "TokA ?g n"])
         (use T2 tail l that in \<open>auto intro: later_trans\<close>)
    show ?thesis
    proof (rule safe_CreateI, goal_cases)
      case (1 w3)
      have "slot_at w3 n sl" using hist_later [OF l [OF 1] h] e by (simp add: slot_at_def)
      then have "index_ok w3 (sl_ResumeDigest sl) \<lparr>ix_Deleted = False, ix_EventID = ev_ID ev, ix_Slot = sl_Number sl\<rparr>"
        unfolding index_ok_def using e adm_later [OF 1 g] by fastforce
      then show ?case
        by (auto simp: create_ok_def create_needs_def)
    next
      case (2 w3 m)
      from 2(1) g have "(ev_ID ev, ?g) \<in> fa_adm w3" by (rule adm_later)
      then show ?case
        unfolding sum.case
        by (intro safe_mint [where n = n]) (use T2 e sub in \<open>auto simp: create_needs_def create_gives_def\<close>)
    next
      case (3 w3)
      then show ?case using rewind by simp
    next
      case (4 w3 err)
      then show ?case using rewind by (simp add: create_needs_def)
    qed
  qed
  show ?thesis
    unfolding admit_def Let_def loadEvent_def prog_bind.simps
    unfolding safe.simps(2)
  proof (intro allI impI)
    fix w1 r assume w1: "later s w w1" and r: "get_reply w1 (eventKey (ev_ID ev)) r"
    let ?cont = "\<lambda>r. prog_bind (case r of
         Inl e \<Rightarrow> if errors_is e StoreNotFound then Ret (Inl ErrNotFound) else Ret (Inl e)
       | Inr en \<Rightarrow> (case decode_event (en_Value en) of
             Inl e \<Rightarrow> Ret (Inl e)
           | Inr ev \<Rightarrow> Ret (Inr (ev, en_Revision en)))) (\<lambda>r. case r of
          Inl loadErr \<Rightarrow> DoDeleteRev ?key n (\<lambda>_. Ret (Inl loadErr))
        | Inr (currentEvent, _) \<Rightarrow>
            if ev_State currentEvent \<noteq> Open \<or> sl_Number sl > ev_Capacity currentEvent
            then DoDeleteRev ?key n (\<lambda>_. Ret (Inl ErrAdmissionClosed))
            else DoCreate (sessionKey (sl_ResumeDigest sl))
                   (VIndex \<lparr>ix_Deleted = False, ix_EventID = ev_ID ev, ix_Slot = sl_Number sl\<rparr>)
                   (\<lambda>r. case r of
                      Inl _ \<Rightarrow> DoDeleteRev ?key n (\<lambda>_. tail)
                    | Inr _ \<Rightarrow> mint s ev sl secret))"
    show "safe s anything (?cont r) w1 T \<or> (\<exists>w2 T2. admission w1 T (eventKey (ev_ID ev)) r w2 T2 \<and> safe s anything (?cont r) w2 T2)"
    proof (cases r)
      case (Inl err)
      then show ?thesis using unwind [OF w1] by auto
    next
      case (Inr en)
      with r have he: "fa_hist w1 (en_Revision en) = Some (eventKey (ev_ID ev), en_Value en)"
        and nc: "\<And>ev. en_Value en = VEvent ev \<Longrightarrow> ev_State ev \<noteq> Deleting \<Longrightarrow> ev_ID ev \<notin> fa_closed w1"
        by (auto simp: get_reply_def)
      from entry_ok_eventKey [OF facts_entry [OF later_ok [OF w1] he]] obtain cur where
        cur: "en_Value en = VEvent cur" "ev_ID cur = ev_ID ev" by auto
      show ?thesis
      proof (cases "ev_State cur \<noteq> Open \<or> sl_Number sl > ev_Capacity cur")
        case True
        then show ?thesis using unwind [OF w1] cur Inr by auto
      next
        case False
        let ?w2 = "w1\<lparr>fa_adm := insert (sl_EventID sl, ?g) (fa_adm w1)\<rparr>"
        let ?T2 = "insert (TokA ?g n) (T - {TokS ?g n})"
        have "slot_at w1 n sl" using hist_later [OF w1 h] e by (simp add: slot_at_def)
        with False cur Inr nc [of cur] e T have a: "admission w1 T (eventKey (ev_ID ev)) r ?w2 ?T2"
          unfolding admission_def by fastforce
        from adm [OF w1 a] e have "safe s anything (?cont r) ?w2 ?T2"
          using False cur Inr by simp
        with a show ?thesis by blast
      qed
    qed
  qed
qed

lemma new_slot_sel [simp]:
  "sl_EventID (new_slot s ev number g secret now) = ev_ID ev" "sl_Number (new_slot s ev number g secret now) = number"
  "sl_Generation (new_slot s ev number g secret now) = g" "sl_ResumeDigest (new_slot s ev number g secret now) = digest s secret"
  "sl_Subject (new_slot s ev number g secret now) = subj (ev_ID ev) g"
  by (simp_all add: new_slot_def subj_def)

lemma new_slot_ok:
  "event_ok s ev \<Longrightarrow> 1 \<le> number \<Longrightarrow> number \<le> ev_Capacity ev \<Longrightarrow> slot_ok s (new_slot s ev number g secret now)"
  by (simp add: slot_ok_def event_ok_def)

text \<open>A create of the new slot, as the loop makes it once or twice.\<close>

lemma safe_create_slot:
  assumes ok: "event_ok s ev" "1 \<le> number" "number \<le> ev_Capacity ev"
    and T: "TokU g \<in> T" "TokD (digest s secret) \<in> T"
    and tail: "\<And>w' T'. later s w w' \<Longrightarrow> safe s anything tail w' T'"
    and exists: "\<And>w'. later s w w' \<Longrightarrow> safe s anything (f StoreExists) w' T"
    and err: "\<And>e. f (ErrOther e) = Ret (Inl (ErrOther e))"
  shows "safe s anything (DoCreate (slotKey (ev_ID ev) number) (VSlot (new_slot s ev number g secret now)) (\<lambda>r. case r of
             Inr n \<Rightarrow> admit s ev (new_slot s ev number g secret now) secret n tail
           | Inl e \<Rightarrow> f e)) w T"
proof (rule safe_CreateI, goal_cases)
  case (1 w')
  with ok T show ?case by (simp add: create_ok_def create_needs_def new_slot_ok)
next
  case (2 w' n)
  show ?case
    unfolding sum.case
    by (rule safe_admit) (use tail later_of_wrote [OF 2(1,3)] in \<open>auto simp: create_gives_def\<close>)
qed (use exists err in auto)

lemma safe_start_loop:
  assumes "event_ok s ev" "1 \<le> number" "number + int n \<le> ev_Capacity ev + 1"
  shows "safe s anything (start_loop s ev now n number) w T"
  using assms
proof (induction n arbitrary: number w T)
  case (Suc n)
  have tail: "safe s anything (start_loop s ev now n (number + 1)) w' T'" for w' T'
    using Suc by simp
  have again: "safe s anything (prog_bind (loadSlot (ev_ID ev) number) (\<lambda>l. case l of
                     Inl _ \<Rightarrow> start_loop s ev now n (number + 1)
                   | Inr (existing, revision) \<Rightarrow>
                       if occupied existing now then start_loop s ev now n (number + 1)
                       else prog_bind (cleanSlot s ev existing revision) (\<lambda>c. case c of
                           Inl _ \<Rightarrow> start_loop s ev now n (number + 1)
                         | Inr _ \<Rightarrow>
                             DoCreate (slotKey (ev_ID ev) number) (VSlot (new_slot s ev number g secret now)) (\<lambda>r. case r of
                               Inr slotRevision \<Rightarrow> admit s ev (new_slot s ev number g secret now) secret slotRevision
                                 (start_loop s ev now n (number + 1))
                             | Inl createErr \<Rightarrow>
                                 if errors_is createErr StoreExists then start_loop s ev now n (number + 1)
                                 else Ret (Inl createErr))))) w1 T1"
    if T1: "TokU g \<in> T1" "TokD (digest s secret) \<in> T1" for g secret w1 T1
  proof (rule safe_loadSlot, goal_cases)
    case (2 w2 sl rev)
    from slotKey_own [OF 2(3)] have k: "slotKey (ev_ID ev) number = slotKey (ev_ID ev) (sl_Number sl)" by simp
    show ?case
      using tail T1 Suc.prems
      by (auto intro!: safe_seq [OF safe_cleanSlot [OF 2(2) k 2(3,4)]] safe_create_slot split: sum.splits)
  qed (simp add: tail)
  have create: "safe s anything (DoCreate (slotKey (ev_ID ev) number) (VSlot (new_slot s ev number g secret now)) (\<lambda>r. case r of
             Inr slotRevision \<Rightarrow> admit s ev (new_slot s ev number g secret now) secret slotRevision
               (start_loop s ev now n (number + 1))
           | Inl createErr \<Rightarrow>
               if errors_is createErr StoreExists then
                 prog_bind (loadSlot (ev_ID ev) number) (\<lambda>l. case l of
                     Inl _ \<Rightarrow> start_loop s ev now n (number + 1)
                   | Inr (existing, revision) \<Rightarrow>
                       if occupied existing now then start_loop s ev now n (number + 1)
                       else prog_bind (cleanSlot s ev existing revision) (\<lambda>c. case c of
                           Inl _ \<Rightarrow> start_loop s ev now n (number + 1)
                         | Inr _ \<Rightarrow>
                             DoCreate (slotKey (ev_ID ev) number) (VSlot (new_slot s ev number g secret now)) (\<lambda>r. case r of
                               Inr slotRevision \<Rightarrow> admit s ev (new_slot s ev number g secret now) secret slotRevision
                                 (start_loop s ev now n (number + 1))
                             | Inl createErr \<Rightarrow>
                                 if errors_is createErr StoreExists then start_loop s ev now n (number + 1)
                                 else Ret (Inl createErr))))
               else Ret (Inl createErr))) w2 T2"
    if "TokU g \<in> T2" "TokD (digest s secret) \<in> T2" for w2 T2 g secret
    by (rule safe_create_slot) (use Suc.prems tail again that in auto)
  show ?case
    unfolding start_loop.simps tryp_def
    by (rule safe_randomSecret) (auto simp: Let_def intro!: safe_UuidI create)
qed simp

lemma safe_StartSession: "safe s anything (StartSession s invitation) w T"
proof -
  have "safe s anything (prog_bind (loadEvent eid) (case_sum (\<lambda>e. Ret (Inl e)) (\<lambda>(ev, _).
              if ev_State ev = Paused then Ret (Inl ErrEventPaused)
              else if ev_State ev \<noteq> Open \<or> ev_Capacity ev = 0 then Ret (Inl ErrAdmissionClosed)
              else DoNow (\<lambda>now. start_loop s ev now (nat (ev_Capacity ev)) 1)))) w T" for eid w
  proof (rule safe_loadEvent, goal_cases)
    case (2 w' ev n)
    then show ?case by (auto simp: event_ok_def intro!: safe_NowI safe_start_loop)
  qed simp
  then show ?thesis
    by (auto simp: StartSession_def tryp_def intro!: safe_GetI)
qed

section \<open>The reconciler\<close>

definition task_ok :: "service \<Rightarrow> facts \<Rightarrow> cleanup_task \<Rightarrow> bool" where
  "task_ok s w t =
     (case tk_slot t of
        None \<Rightarrow> fa_hist w (tk_revision t) = Some (eventKey (ev_ID (tk_event t)), VEvent (tk_event t)) \<and>
                ev_State (tk_event t) = Deleting \<and> event_ok s (tk_event t)
      | Some sl \<Rightarrow> fa_hist w (tk_revision t) = Some (slotKey (ev_ID (tk_event t)) (sl_Number sl), VSlot sl) \<and>
                sl_EventID sl = ev_ID (tk_event t) \<and> slot_ok s sl)"

lemma task_ok_later: "later s w w' \<Longrightarrow> task_ok s w t \<Longrightarrow> task_ok s w' t"
  by (auto simp: task_ok_def split: option.splits intro: hist_later)

abbreviation tasks_ok :: "service \<Rightarrow> err + cleanup_task list \<Rightarrow> facts \<Rightarrow> token set \<Rightarrow> bool" where
  "tasks_ok s \<equiv> \<lambda>r w T. case r of Inl _ \<Rightarrow> True | Inr ts \<Rightarrow> \<forall>t \<in> set ts. task_ok s w t"

lemma slot_task_sel:
  "slot_task ev now sl n = Some t \<Longrightarrow> tk_event t = ev \<and> tk_slot t = Some sl \<and> tk_revision t = n"
  by (auto simp: slot_task_def split: option.splits if_splits)

lemma slot_tasks_ok:
  assumes "facts_ok s w" "listed w (slotPrefix (ev_ID ev)) xs" "CHR ''.'' \<notin> set (ev_ID ev)"
    and "slot_tasks ev now xs = Inr ts" "t \<in> set ts"
  shows "task_ok s w t"
  using assms
proof (induction xs arbitrary: ts)
  case (Cons x xs)
  obtain k en where x: "x = (k, en)" by fastforce
  from listed_slot [OF Cons.prems(1,2) _ Cons.prems(3), of x] x obtain sl where
    sl: "en_Value en = VSlot sl" "sl_EventID sl = ev_ID ev" "slot_ok s sl" "k = slotKey (ev_ID ev) (sl_Number sl)"
    by auto
  from Cons.prems(2) x sl have h: "fa_hist w (en_Revision en) = Some (slotKey (ev_ID ev) (sl_Number sl), VSlot sl)"
    by (simp add: listed_def)
  from Cons.prems(2) have tail: "listed w (slotPrefix (ev_ID ev)) xs" by (simp add: listed_def)
  from Cons.prems(4) x sl obtain ts' where ts': "slot_tasks ev now xs = Inr ts'"
    and ts: "ts = (case slot_task ev now sl (en_Revision en) of None \<Rightarrow> [] | Some t \<Rightarrow> [t]) @ ts'"
    by (auto split: sum.splits)
  from Cons.prems(5) ts consider "slot_task ev now sl (en_Revision en) = Some t" | "t \<in> set ts'"
    by (auto split: option.splits)
  then show ?case
  proof cases
    case 1
    with h sl show ?thesis by (auto simp: task_ok_def dest!: slot_task_sel)
  next
    case 2
    from Cons.IH [OF Cons.prems(1) tail Cons.prems(3) ts' this] show ?thesis .
  qed
qed simp

lemma safe_gather_tasks:
  assumes "facts_ok s w" "listed w p xs"
  shows "safe s (tasks_ok s) (gather_tasks now xs) w T"
  using assms
proof (induction xs arbitrary: w)
  case (Cons x xs)
  have tail: "safe s (tasks_ok s) (tryp (gather_tasks now xs) (\<lambda>ts'. Ret (Inr (ts @ ts')))) w' T"
    if l: "later s w w'" and ts: "\<forall>t \<in> set ts. task_ok s w' t" for w' ts
  proof (rule safe_tryp)
    show "safe s (tasks_ok s) (gather_tasks now xs) w' T"
    proof (rule Cons.IH)
      from Cons.prems(2) have "listed w p xs" by (simp add: listed_def)
      with l show "listed w' p xs" by (rule listed_later)
    qed (rule later_ok [OF l])
  qed (use ts in \<open>auto intro: task_ok_later later_trans\<close>)
  from Cons.prems have h: "fa_hist w (en_Revision (snd x)) = Some (fst x, en_Value (snd x))"
    by (simp add: listed_def)
  show ?case
  proof (cases "decode_event (en_Value (snd x))")
    case (Inr ev)
    with facts_entry [OF Cons.prems(1) h] h have ev: "en_Value (snd x) = VEvent ev" "fst x = eventKey (ev_ID ev)" "event_ok s ev"
      and h: "fa_hist w (en_Revision (snd x)) = Some (eventKey (ev_ID ev), VEvent ev)"
      by auto
    show ?thesis
    proof (cases "ev_State ev = Deleting")
      case True
      with h ev have "task_ok s w (event_task ev (en_Revision (snd x)))"
        by (auto simp: task_ok_def event_task_def split: option.splits)
      with tail [OF later_refl [OF Cons.prems(1)], of "[event_task ev (en_Revision (snd x))]"] True ev
      show ?thesis by simp
    next
      case False
      have "safe s (tasks_ok s) (DoList (slotPrefix (ev_ID ev)) (\<lambda>r. case r of
              Inl e \<Rightarrow> Ret (Inl e)
            | Inr slots \<Rightarrow> (case slot_tasks ev now slots of
                  Inl e \<Rightarrow> Ret (Inl e)
                | Inr ts \<Rightarrow> tryp (gather_tasks now xs) (\<lambda>ts'. Ret (Inr (ts @ ts')))))) w T"
      proof (rule safe_ListI)
        fix w' r assume l: "later s w w'" and r: "list_reply w' (slotPrefix (ev_ID ev)) r"
        from ev have dot: "CHR ''.'' \<notin> set (ev_ID ev)" by (simp add: event_ok_def)
        show "safe s (tasks_ok s) (case r of
              Inl e \<Rightarrow> Ret (Inl e)
            | Inr slots \<Rightarrow> (case slot_tasks ev now slots of
                  Inl e \<Rightarrow> Ret (Inl e)
                | Inr ts \<Rightarrow> tryp (gather_tasks now xs) (\<lambda>ts'. Ret (Inr (ts @ ts'))))) w' T"
          using slot_tasks_ok [OF later_ok [OF l] list_reply_listed dot] r tail [OF l]
          by (auto split: sum.splits)
      qed
      with False ev show ?thesis by simp
    qed
  qed simp
qed simp

lemma safe_run_task: "task_ok s w t \<Longrightarrow> safe s anything (run_task s t) w T"
proof (cases "tk_slot t")
  case None
  moreover assume "task_ok s w t"
  ultimately show ?thesis
    by (auto simp: run_task_def task_ok_def intro!: safe_tryp [OF safe_cleanEvent])
next
  case (Some sl)
  moreover assume "task_ok s w t"
  ultimately show ?thesis
    by (auto simp: run_task_def task_ok_def intro: safe_post [OF safe_cleanSlot])
qed

lemma safe_process_tasks:
  assumes "\<forall>t \<in> set ts. task_ok s w t"
  shows "safe s anything (process_tasks s now batch ts rep) w T"
  using assms
proof (induction ts arbitrary: w T rep)
  case (Cons t ts)
  have "safe s anything (prog_bind (run_task s t) (\<lambda>r. process_tasks s now batch ts (count_result r rep'))) w' T"
    if "later s w w'" for w' rep'
  proof (rule safe_seq [OF safe_run_task])
    show "task_ok s w' t" using that Cons.prems by (auto intro: task_ok_later)
    fix r w2 T2 assume "later s w' w2"
    with that have "later s w w2" by (rule later_trans)
    with Cons.prems have "\<forall>x \<in> set ts. task_ok s w2 x" by (auto intro: task_ok_later)
    then show "safe s anything (process_tasks s now batch ts (count_result r rep')) w2 T2" by (rule Cons.IH)
  qed
  with Cons show ?case by (auto simp: Let_def intro!: safe_CtxI split: option.splits)
qed simp

lemma safe_Reconcile: "safe s anything (Reconcile s batch) w T"
proof -
  have "safe s anything (DoNow (\<lambda>now.
              prog_bind (gather_tasks now events) (\<lambda>r. case r of
                  Inl e \<Rightarrow> Ret (empty_report, Some e)
                | Inr tasks \<Rightarrow>
                    process_tasks s now batch (sort_key tk_due tasks)
                      (empty_report\<lparr>rr_Pending := int (length tasks)\<rparr>)))) w' T"
    if l: "list_reply w' ''event.'' (Inr events)" for w' events
  proof (rule safe_NowI)
    fix w2 now assume w2: "later s w' w2"
    from l w2 have "listed w2 ''event.'' events" by (blast intro: list_reply_listed listed_later)
    from safe_gather_tasks [OF later_ok [OF w2] this] show "safe s anything (prog_bind (gather_tasks now events) (\<lambda>r. case r of
                  Inl e \<Rightarrow> Ret (empty_report, Some e)
                | Inr tasks \<Rightarrow>
                    process_tasks s now batch (sort_key tk_due tasks)
                      (empty_report\<lparr>rr_Pending := int (length tasks)\<rparr>))) w2 T"
      by (rule safe_seq) (auto split: sum.splits intro!: safe_process_tasks)
  qed
  then show ?thesis
    by (auto simp: Reconcile_def intro!: safe_ListI split: sum.splits)
qed

section \<open>Every call\<close>

lemma safe_replying: "safe s anything p w T \<Longrightarrow> safe s anything (replying f p) w T"
  unfolding replying_def by (rule safe_seq) auto

lemmas safe_methods = safe_CreateEvent safe_reads safe_SetState safe_UpdateCapacity safe_RotateInvitation
  safe_SetCohost safe_StartSession safe_RenewSession safe_HeartbeatSession safe_ReleaseSlot safe_DeleteEvent
  safe_Reconcile

lemma safe_serve: "safe s anything (serve s cl) w T"
  by (cases cl) (auto intro!: safe_replying safe_methods)

end
