(* ===== verification/Invariant.thy ===== *)
theory Invariant
  imports Protocol_Sessions
begin

text \<open>
  The invariant of the whole system: the store agrees with the facts, the tokens of the calls
  are what they stand for, and every call in progress is safe. It is kept by every step.
\<close>

section \<open>The parts of the invariant\<close>

text \<open>The store holds a slot of the identity.\<close>

definition live :: "memory \<Rightarrow> string \<Rightarrow> string \<Rightarrow> bool" where
  "live m e g \<longleftrightarrow> (\<exists>k en sl. mem_at m k = Some en \<and> en_Value en = VSlot sl \<and> sl_EventID sl = e \<and> sl_Generation sl = g)"

definition gen_at :: "facts \<Rightarrow> nat \<Rightarrow> string \<Rightarrow> bool" where
  "gen_at w r g \<longleftrightarrow> (\<exists>sl. slot_at w r sl \<and> sl_Generation sl = g)"

definition event_at :: "facts \<Rightarrow> nat \<Rightarrow> event \<Rightarrow> bool" where
  "event_at w r ev \<longleftrightarrow> fa_hist w r = Some (eventKey (ev_ID ev), VEvent ev)"

text \<open>The store holds what its revisions wrote.\<close>

definition agree :: "memory \<Rightarrow> facts \<Rightarrow> bool" where
  "agree m w \<longleftrightarrow>
     (\<forall>k en. mem_at m k = Some en \<longrightarrow> fa_hist w (en_Revision en) = Some (k, en_Value en)) \<and>
     (\<forall>r x. fa_hist w r = Some x \<longrightarrow> r \<le> me_revision m)"

text \<open>Where ids come from, and that a generation stays at its key.\<close>

definition origin :: "env \<Rightarrow> facts \<Rightarrow> bool" where
  "origin E w \<longleftrightarrow>
     (\<forall>r sl. slot_at w r sl \<longrightarrow> sl_Generation sl \<in> en_uuids E \<and> sl_ResumeDigest sl \<in> en_digests E) \<and>
     (\<forall>r ev. event_at w r ev \<longrightarrow> ev_ID ev \<in> en_uuids E) \<and>
     fa_closed w \<subseteq> en_uuids E \<and>
     (\<forall>r r' a b. slot_at w r a \<longrightarrow> slot_at w r' b \<longrightarrow> sl_Generation a = sl_Generation b \<longrightarrow>
        slotKey (sl_EventID a) (sl_Number a) = slotKey (sl_EventID b) (sl_Number b))"

text \<open>The slot in the store is the last written of its generation.\<close>

definition latest :: "memory \<Rightarrow> facts \<Rightarrow> bool" where
  "latest m w \<longleftrightarrow> (\<forall>k en sl r. mem_at m k = Some en \<longrightarrow> en_Value en = VSlot sl \<longrightarrow>
     gen_at w r (sl_Generation sl) \<longrightarrow> r \<le> en_Revision en)"

text \<open>A closed event is gone or being deleted.\<close>

definition closing :: "memory \<Rightarrow> facts \<Rightarrow> bool" where
  "closing m w \<longleftrightarrow> (\<forall>e en ev. e \<in> fa_closed w \<longrightarrow> mem_at m (eventKey e) = Some en \<longrightarrow> en_Value en = VEvent ev \<longrightarrow>
     ev_State ev = Deleting)"

text \<open>An admitted identity is live until it is erased, or it was withdrawn.\<close>

definition admitted :: "memory \<Rightarrow> facts \<Rightarrow> bool" where
  "admitted m w \<longleftrightarrow> (\<forall>e g. (e, g) \<in> fa_adm w \<longrightarrow>
     (\<exists>r. gen_at w r g) \<and> (g \<in> fa_ret w \<or> subj e g \<in> fa_erased w \<or> live m e g))"

definition withdrawn :: "memory \<Rightarrow> facts \<Rightarrow> bool" where
  "withdrawn m w \<longleftrightarrow> (\<forall>g \<in> fa_ret w. \<not> confirmed w g \<and> (\<exists>r. gen_at w r g) \<and> (\<forall>e. \<not> live m e g))"

text \<open>A signed subject is an identity that was admitted and can not be withdrawn.\<close>

definition signed_ok :: "facts \<Rightarrow> (nat \<Rightarrow> token set) \<Rightarrow> string \<times> string \<Rightarrow> bool" where
  "signed_ok w T x \<longleftrightarrow> (\<exists>g. snd x = subj (fst x) g \<and> (fst x, g) \<in> fa_adm w \<and> g \<notin> fa_ret w \<and>
     (confirmed w g \<or> (\<forall>i n. TokA g n \<notin> T i)))"

definition tok_ok :: "env \<Rightarrow> facts \<Rightarrow> token \<Rightarrow> bool" where
  "tok_ok E w t =
     (case t of
        TokU u \<Rightarrow> u \<in> en_uuids E \<and> u \<notin> fa_closed w \<and> (\<forall>r. \<not> gen_at w r u) \<and> (\<forall>r ev. event_at w r ev \<longrightarrow> ev_ID ev \<noteq> u)
      | TokD d \<Rightarrow> d \<in> en_digests E \<and> (\<forall>r sl. slot_at w r sl \<longrightarrow> sl_ResumeDigest sl \<noteq> d)
      | TokS g n \<Rightarrow> (\<forall>r. gen_at w r g \<longrightarrow> n \<le> r) \<and> (\<forall>e. (e, g) \<notin> fa_adm w) \<and> g \<notin> fa_ret w \<and>
          (\<exists>sl. slot_at w n sl \<and> sl_Generation sl = g \<and>
             (sl_EventID sl \<in> fa_closed w \<or> subj (sl_EventID sl) g \<in> fa_erased w \<or> live (en_mem E) (sl_EventID sl) g))
      | TokA g n \<Rightarrow> (\<forall>r. gen_at w r g \<longrightarrow> n \<le> r) \<and> (\<exists>e. (e, g) \<in> fa_adm w) \<and> g \<notin> fa_ret w \<and> gen_at w n g)"

definition core :: "service \<Rightarrow> env \<Rightarrow> facts \<Rightarrow> (nat \<Rightarrow> token set) \<Rightarrow> bool" where
  "core s E w T \<longleftrightarrow>
     mem_wf (en_mem E) \<and> agree (en_mem E) w \<and> facts_ok s w \<and> fa_erased w = en_erased E \<and> origin E w \<and>
     latest (en_mem E) w \<and> closing (en_mem E) w \<and> admitted (en_mem E) w \<and> withdrawn (en_mem E) w \<and>
     (\<forall>x \<in> en_signed E. signed_ok w T x) \<and> (\<forall>i. \<forall>t \<in> T i. tok_ok E w t) \<and> (\<forall>i j. i \<noteq> j \<longrightarrow> T i \<inter> T j = {})"

definition sys_inv :: "service \<Rightarrow> sys \<Rightarrow> facts \<Rightarrow> (nat \<Rightarrow> token set) \<Rightarrow> bool" where
  "sys_inv s S w T \<longleftrightarrow> core s (sy_env S) w T \<and> (\<forall>i p. sy_pool S i = Some p \<longrightarrow> safe s anything p w (T i))"

lemma coreD:
  assumes "core s E w T"
  shows "mem_wf (en_mem E)" "agree (en_mem E) w" "facts_ok s w" "fa_erased w = en_erased E" "origin E w"
    "latest (en_mem E) w" "closing (en_mem E) w" "admitted (en_mem E) w" "withdrawn (en_mem E) w"
    "x \<in> en_signed E \<Longrightarrow> signed_ok w T x" "t \<in> T i \<Longrightarrow> tok_ok E w t" "t \<in> T i \<Longrightarrow> t \<in> T j \<Longrightarrow> i = j"
  using assms unfolding core_def by blast+

lemma coreI:
  assumes "mem_wf (en_mem E)" "agree (en_mem E) w" "facts_ok s w" "fa_erased w = en_erased E" "origin E w"
    "latest (en_mem E) w" "closing (en_mem E) w" "admitted (en_mem E) w" "withdrawn (en_mem E) w"
    "\<And>x. x \<in> en_signed E \<Longrightarrow> signed_ok w T x" "\<And>i t. t \<in> T i \<Longrightarrow> tok_ok E w t"
    "\<And>i j t. t \<in> T i \<Longrightarrow> t \<in> T j \<Longrightarrow> i = j"
  shows "core s E w T"
proof -
  have "T i \<inter> T j = {}" if "i \<noteq> j" for i j using assms(12) that by auto
  then show ?thesis unfolding core_def using assms(1-11) by simp
qed

lemma tok_ok_simps [simp]:
  "tok_ok E w (TokU u) \<longleftrightarrow> u \<in> en_uuids E \<and> u \<notin> fa_closed w \<and> (\<forall>r. \<not> gen_at w r u) \<and> (\<forall>r ev. event_at w r ev \<longrightarrow> ev_ID ev \<noteq> u)"
  "tok_ok E w (TokD d) \<longleftrightarrow> d \<in> en_digests E \<and> (\<forall>r sl. slot_at w r sl \<longrightarrow> sl_ResumeDigest sl \<noteq> d)"
  "tok_ok E w (TokS g n) \<longleftrightarrow> (\<forall>r. gen_at w r g \<longrightarrow> n \<le> r) \<and> (\<forall>e. (e, g) \<notin> fa_adm w) \<and> g \<notin> fa_ret w \<and>
          (\<exists>sl. slot_at w n sl \<and> sl_Generation sl = g \<and>
             (sl_EventID sl \<in> fa_closed w \<or> subj (sl_EventID sl) g \<in> fa_erased w \<or> live (en_mem E) (sl_EventID sl) g))"
  "tok_ok E w (TokA g n) \<longleftrightarrow> (\<forall>r. gen_at w r g \<longrightarrow> n \<le> r) \<and> (\<exists>e. (e, g) \<in> fa_adm w) \<and> g \<notin> fa_ret w \<and> gen_at w n g"
  by (simp_all add: tok_ok_def)

section \<open>Steps that do not write\<close>

lemma facts_upd [simp]:
  "slot_at (w\<lparr>fa_erased := X\<rparr>) = slot_at w" "slot_at (w\<lparr>fa_adm := A\<rparr>) = slot_at w" "slot_at (w\<lparr>fa_ret := R\<rparr>) = slot_at w"
  "gen_at (w\<lparr>fa_erased := X\<rparr>) = gen_at w" "gen_at (w\<lparr>fa_adm := A\<rparr>) = gen_at w" "gen_at (w\<lparr>fa_ret := R\<rparr>) = gen_at w"
  "event_at (w\<lparr>fa_erased := X\<rparr>) = event_at w" "event_at (w\<lparr>fa_adm := A\<rparr>) = event_at w" "event_at (w\<lparr>fa_ret := R\<rparr>) = event_at w"
  "confirmed (w\<lparr>fa_erased := X\<rparr>) = confirmed w" "confirmed (w\<lparr>fa_adm := A\<rparr>) = confirmed w" "confirmed (w\<lparr>fa_ret := R\<rparr>) = confirmed w"
  by (simp_all add: fun_eq_iff slot_at_def gen_at_def event_at_def confirmed_def)

text \<open>What each part depends on.\<close>

lemma part_eq:
  "fa_hist w' = fa_hist w \<Longrightarrow> agree m w' = agree m w"
  "en_uuids E' = en_uuids E \<Longrightarrow> en_digests E' = en_digests E \<Longrightarrow> slot_at w' = slot_at w \<Longrightarrow>
     event_at w' = event_at w \<Longrightarrow> fa_closed w' = fa_closed w \<Longrightarrow> origin E' w' = origin E w"
  "gen_at w' = gen_at w \<Longrightarrow> latest m w' = latest m w"
  "fa_closed w' = fa_closed w \<Longrightarrow> closing m w' = closing m w"
  "fa_ret w' = fa_ret w \<Longrightarrow> confirmed w' = confirmed w \<Longrightarrow> gen_at w' = gen_at w \<Longrightarrow> withdrawn m w' = withdrawn m w"
  by (simp_all only: agree_def origin_def latest_def closing_def withdrawn_def)

lemmas part_cong = part_eq [THEN iffD2]

lemma signed_okI:
  "snd x = subj (fst x) g \<Longrightarrow> (fst x, g) \<in> fa_adm w \<Longrightarrow> g \<notin> fa_ret w \<Longrightarrow>
   confirmed w g \<or> (\<forall>i n. TokA g n \<notin> T i) \<Longrightarrow> signed_ok w T x"
  unfolding signed_ok_def by blast

lemma facts_okI:
  assumes "\<And>r k v. fa_hist w r = Some (k, v) \<Longrightarrow> entry_ok s w k v"
    and "\<And>r r' a b. slot_at w r a \<Longrightarrow> slot_at w r' b \<Longrightarrow> sl_ResumeDigest a = sl_ResumeDigest b \<Longrightarrow>
        sl_EventID a = sl_EventID b \<and> sl_Generation a = sl_Generation b"
  shows "facts_ok s w"
  unfolding facts_ok_def using assms by blast

lemma facts_digest:
  assumes "facts_ok s w" "slot_at w r a" "slot_at w r' b" "sl_ResumeDigest a = sl_ResumeDigest b"
  shows "sl_EventID a = sl_EventID b \<and> sl_Generation a = sl_Generation b"
  using assms unfolding facts_ok_def by blast

lemma signed_ok_less:
  assumes "signed_ok w T x" "\<And>i n g. TokA g n \<in> T' i \<Longrightarrow> \<exists>j. TokA g n \<in> T j"
  shows "signed_ok w T' x"
proof -
  from assms(1) obtain g where g: "snd x = subj (fst x) g" "(fst x, g) \<in> fa_adm w" "g \<notin> fa_ret w"
    "confirmed w g \<or> (\<forall>i n. TokA g n \<notin> T i)"
    unfolding signed_ok_def by auto
  from g(4) assms(2) have "confirmed w g \<or> (\<forall>i n. TokA g n \<notin> T' i)" by blast
  with g(1-3) show ?thesis unfolding signed_ok_def by blast
qed

lemma core_less:
  assumes c: "core s E w T" and sub: "T' \<subseteq> T i"
  shows "core s E w (T(i := T'))"
proof (rule coreI)
  show "signed_ok w (T(i := T')) x" if "x \<in> en_signed E" for x
    using coreD(10) [OF c that] by (rule signed_ok_less) (use sub in \<open>auto split: if_splits\<close>)
  show "tok_ok E w t" if "t \<in> (T(i := T')) j" for j t
    using that sub by (auto split: if_splits intro: coreD(11) [OF c])
  show "j = k" if "t \<in> (T(i := T')) j" "t \<in> (T(i := T')) k" for j k t
    using that sub by (auto split: if_splits dest: coreD(12) [OF c])
qed (rule coreD [OF c])+

text \<open>A fresh token: what has to be known of it.\<close>

lemma core_fresh:
  assumes c: "core s E w T" and fresh: "\<And>j. t0 \<notin> T j" and t0: "tok_ok E' w t0" and A: "\<And>g n. t0 \<noteq> TokA g n"
    and E': "en_mem E' = en_mem E" "en_signed E' = en_signed E" "en_erased E' = en_erased E"
      "en_uuids E \<subseteq> en_uuids E'" "en_digests E \<subseteq> en_digests E'"
  shows "core s E' w (T(i := insert t0 (T i)))"
proof (rule coreI)
  show "signed_ok w (T(i := insert t0 (T i))) x" if "x \<in> en_signed E'" for x
    using coreD(10) [OF c that [unfolded E']] by (rule signed_ok_less) (use A in \<open>auto split: if_splits\<close>)
  have mono: "tok_ok E w t \<Longrightarrow> tok_ok E' w t" for t
    using E' by (cases t) auto
  show "tok_ok E' w t" if "t \<in> (T(i := insert t0 (T i))) j" for j t
    using that t0 by (auto split: if_splits intro: mono coreD(11) [OF c])
  show "j = k" if "t \<in> (T(i := insert t0 (T i))) j" "t \<in> (T(i := insert t0 (T i))) k" for j k t
    using that fresh by (auto split: if_splits dest: coreD(12) [OF c])
  show "origin E' w"
    using coreD(5) [OF c] E'(4,5) unfolding origin_def by blast
qed (use coreD [OF c] E' in simp_all)

lemma core_uuid:
  assumes c: "core s E w T" and u: "u \<notin> en_uuids E"
  shows "core s (E\<lparr>en_uuids := insert u (en_uuids E)\<rparr>) w (T(i := insert (TokU u) (T i)))"
proof (rule core_fresh [OF c])
  show "TokU u \<notin> T j" for j using coreD(11) [OF c, of "TokU u" j] u by auto
  show "tok_ok (E\<lparr>en_uuids := insert u (en_uuids E)\<rparr>) w (TokU u)"
    using coreD(5) [OF c] u by (auto simp: origin_def gen_at_def)
qed auto

lemma core_digest:
  assumes c: "core s E w T" and d: "d \<notin> en_digests E"
  shows "core s (E\<lparr>en_digests := insert d (en_digests E)\<rparr>) w (T(i := insert (TokD d) (T i)))"
proof (rule core_fresh [OF c])
  show "TokD d \<notin> T j" for j using coreD(11) [OF c, of "TokD d" j] d by auto
  show "tok_ok (E\<lparr>en_digests := insert d (en_digests E)\<rparr>) w (TokD d)"
    using coreD(5) [OF c] d by (auto simp: origin_def)
qed auto

text \<open>The application acknowledges an erasure.\<close>

lemma core_erase:
  assumes c: "core s E w T" and w': "facts_ok s (w\<lparr>fa_erased := fa_erased w \<union> X\<rparr>)"
  shows "core s (E\<lparr>en_erased := en_erased E \<union> X\<rparr>) (w\<lparr>fa_erased := fa_erased w \<union> X\<rparr>) T"
proof -
  let ?w = "w\<lparr>fa_erased := fa_erased w \<union> X\<rparr>" and ?E = "E\<lparr>en_erased := en_erased E \<union> X\<rparr>"
  have tok: "tok_ok E w t \<Longrightarrow> tok_ok ?E ?w t" for t by (cases t) auto
  show ?thesis
  proof (rule coreI)
    show "signed_ok ?w T x" if "x \<in> en_signed ?E" for x
      using coreD(10) [OF c, of x] that by (simp add: signed_ok_def)
    show "admitted (en_mem ?E) ?w" using coreD(8) [OF c] by (auto simp: admitted_def)
    show "tok_ok ?E ?w t" if "t \<in> T i" for i t using coreD(11) [OF c that] by (rule tok)
    show "j = k" if "t \<in> T j" "t \<in> T k" for j k t using that by (rule coreD(12) [OF c])
  qed (use coreD(1,4) [OF c] w' part_cong(1) [OF _ coreD(2) [OF c]] part_cong(2) [OF _ _ _ _ _ coreD(5) [OF c]]
      part_cong(3) [OF _ coreD(6) [OF c]] part_cong(4) [OF _ coreD(7) [OF c]] part_cong(5) [OF _ _ _ coreD(9) [OF c]] in simp_all)
qed

text \<open>A token is signed.\<close>

lemma core_sign:
  assumes c: "core s E w T" and q: "sign_ok w (T i) T' q"
  shows "core s (E\<lparr>en_signed := insert (jc_EventID q, jc_Subject q) (en_signed E)\<rparr>) w (T(i := T'))"
proof -
  from q have sub: "T' \<subseteq> T i" by (simp add: sign_ok_def)
  from core_less [OF c sub] have c': "core s E w (T(i := T'))" .
  from q obtain g where g: "(jc_EventID q, g) \<in> fa_adm w" "jc_Subject q = subj (jc_EventID q) g"
    "confirmed w g \<or> (\<exists>n. TokA g n \<in> T i \<and> TokA g n \<notin> T')"
    unfolding sign_ok_def by blast
  have "signed_ok w (T(i := T')) (jc_EventID q, jc_Subject q)"
  proof (cases "confirmed w g")
    case True
    with coreD(9) [OF c] have "g \<notin> fa_ret w" by (auto simp: withdrawn_def)
    with True g show ?thesis unfolding signed_ok_def by auto
  next
    case False
    with g obtain n where n: "TokA g n \<in> T i" "TokA g n \<notin> T'" by blast
    from coreD(11) [OF c n(1)] have ret: "g \<notin> fa_ret w" and at: "gen_at w n g" and le: "\<And>r. gen_at w r g \<Longrightarrow> n \<le> r" by auto
    have "TokA g m \<notin> (T(i := T')) j" for j m
    proof
      assume m: "TokA g m \<in> (T(i := T')) j"
      with sub have mj: "TokA g m \<in> T j" by (auto split: if_splits)
      from coreD(11) [OF c mj] at le have "m = n" by (auto intro: antisym)
      with mj n coreD(12) [OF c n(1), of j] m show False by auto
    qed
    with g ret show ?thesis unfolding signed_ok_def fst_conv snd_conv by blast
  qed
  then have sig: "signed_ok w (T(i := T')) x" if "x \<in> en_signed (E\<lparr>en_signed := insert (jc_EventID q, jc_Subject q) (en_signed E)\<rparr>)" for x
    using that by simp (elim disjE, simp, rule coreD(10) [OF c'])
  have tok: "tok_ok E w t \<Longrightarrow> tok_ok (E\<lparr>en_signed := X\<rparr>) w t" for t X by (cases t) auto
  show ?thesis
  proof (rule coreI)
    show "j = k" if "t \<in> (T(i := T')) j" "t \<in> (T(i := T')) k" for j k t
      using that by (rule coreD(12) [OF c'])
    show "tok_ok (E\<lparr>en_signed := insert (jc_EventID q, jc_Subject q) (en_signed E)\<rparr>) w t" if "t \<in> (T(i := T')) j" for j t
      using coreD(11) [OF c' that] by (rule tok)
  qed (use coreD(1-4,6-9) [OF c'] sig part_cong(2) [OF _ _ _ _ _ coreD(5) [OF c']] in simp_all)
qed

text \<open>An identity is admitted.\<close>

lemma facts_ok_grow:
  assumes "facts_ok s w" "fle w w'" "fa_hist w' = fa_hist w"
  shows "facts_ok s w'"
proof -
  have eq: "slot_at w' = slot_at w" by (simp add: fun_eq_iff slot_at_def assms(3))
  show ?thesis
  proof (rule facts_okI)
    fix r k v assume "fa_hist w' r = Some (k, v)"
    then have "entry_ok s w k v" using assms(1,3) by (auto intro: facts_entry)
    with assms(2) show "entry_ok s w' k v" by (rule entry_ok_fle)
  qed (use assms(1) eq in \<open>auto dest: facts_digest\<close>)
qed

lemma core_admission:
  assumes c: "core s E w T" and a: "admission w (T i) k (mem_get (en_mem E) k) w' T'"
  shows "core s E w' (T(i := T'))"
proof -
  from a obtain ev sl n where n: "slot_at w n sl" "TokS (sl_Generation sl) n \<in> T i" and nc: "sl_EventID sl \<notin> fa_closed w"
    and w': "w' = w\<lparr>fa_adm := insert (sl_EventID sl, sl_Generation sl) (fa_adm w)\<rparr>"
    and T': "T' = insert (TokA (sl_Generation sl) n) (T i - {TokS (sl_Generation sl) n})"
    unfolding admission_def by auto
  let ?g = "sl_Generation sl"
  have fle: "fle w w'" using a by (rule fle_admission)
  from coreD(11) [OF c n(2)] obtain b where le: "\<And>r. gen_at w r ?g \<Longrightarrow> n \<le> r" and na: "\<And>e. (e, ?g) \<notin> fa_adm w"
    and nr: "?g \<notin> fa_ret w" and b: "slot_at w n b" "sl_EventID b \<in> fa_closed w \<or> subj (sl_EventID b) ?g \<in> fa_erased w \<or> live (en_mem E) (sl_EventID b) ?g"
    by auto
  from n(1) b(1) have "b = sl" by (auto simp: slot_at_def)
  with b nc have lv: "subj (sl_EventID sl) ?g \<in> fa_erased w \<or> live (en_mem E) (sl_EventID sl) ?g" by auto
  have at: "gen_at w n ?g" using n(1) by (auto simp: gen_at_def)
  have nA: "TokA ?g m \<notin> T j" for m j using coreD(11) [OF c, of "TokA ?g m" j] na by auto
  show ?thesis
  proof (rule coreI)
    show "facts_ok s w'" using coreD(3) [OF c] fle by (rule facts_ok_grow) (simp add: w')
    show "admitted (en_mem E) w'" using coreD(8) [OF c] lv at by (auto simp: admitted_def w')
    show "signed_ok w' (T(i := T')) x" if x: "x \<in> en_signed E" for x
    proof -
      from coreD(10) [OF c x] obtain g where g: "snd x = subj (fst x) g" "(fst x, g) \<in> fa_adm w" "g \<notin> fa_ret w"
        "confirmed w g \<or> (\<forall>i n. TokA g n \<notin> T i)"
        unfolding signed_ok_def by auto
      with na have "g \<noteq> ?g" by metis
      with g(4) have "confirmed w g \<or> (\<forall>j m. TokA g m \<notin> (T(i := T')) j)" by (auto simp: T')
      with g(1-3) show ?thesis by (intro signed_okI [of x g]) (simp_all add: w')
    qed
    show "tok_ok E w' t" if t: "t \<in> (T(i := T')) j" for j t
    proof (cases "t = TokA ?g n")
      case True
      with le at nr show ?thesis by (auto simp: w')
    next
      case False
      with t have tj: "t \<in> T j" and ne: "t \<noteq> TokS ?g n"
        using coreD(12) [OF c n(2), of j] by (auto simp: T' split: if_splits)
      have "t \<noteq> TokS ?g m" for m
      proof
        assume m: "t = TokS ?g m"
        with coreD(11) [OF c tj] have "\<forall>r. gen_at w r ?g \<longrightarrow> m \<le> r" "gen_at w m ?g" by (auto simp: gen_at_def)
        with le at have "m = n" by (blast intro: antisym)
        with m ne show False by simp
      qed
      with coreD(11) [OF c tj] show ?thesis by (cases t) (auto simp: w')
    qed
    show "j = l" if "t \<in> (T(i := T')) j" "t \<in> (T(i := T')) l" for j l t
      using that nA by (auto simp: T' split: if_splits dest: coreD(12) [OF c])
  qed (use coreD(1,4) [OF c] part_cong(1) [OF _ coreD(2) [OF c]] part_cong(2) [OF _ _ _ _ _ coreD(5) [OF c]]
      part_cong(3) [OF _ coreD(6) [OF c]] part_cong(4) [OF _ coreD(7) [OF c]] part_cong(5) [OF _ _ _ coreD(9) [OF c]] in
      \<open>simp_all add: w'\<close>)
qed

section \<open>Removing an entry\<close>

lemma mem_entry:
  assumes "core s E w T" "mem_at (en_mem E) k = Some en"
  shows "fa_hist w (en_Revision en) = Some (k, en_Value en)" "entry_ok s w k (en_Value en)"
proof -
  show h: "fa_hist w (en_Revision en) = Some (k, en_Value en)"
    using coreD(2) [OF assms(1)] assms(2) by (simp add: agree_def)
  show "entry_ok s w k (en_Value en)"
    by (rule facts_entry [OF coreD(3) [OF assms(1)] h])
qed

lemma mem_slot:
  assumes "core s E w T" "mem_at (en_mem E) k = Some en" "en_Value en = VSlot sl"
  shows "slot_at w (en_Revision en) sl" "k = slotKey (sl_EventID sl) (sl_Number sl)" "slot_ok s sl"
    "gen_at w (en_Revision en) (sl_Generation sl)"
  using mem_entry [OF assms(1,2)] assms(3) by (auto simp: slot_at_def gen_at_def)

lemma same_gen:
  assumes "core s E w T" "slot_at w r a" "slot_at w r' b" "sl_Generation a = sl_Generation b"
  shows "slotKey (sl_EventID a) (sl_Number a) = slotKey (sl_EventID b) (sl_Number b)" "sl_EventID a = sl_EventID b"
proof -
  show k: "slotKey (sl_EventID a) (sl_Number a) = slotKey (sl_EventID b) (sl_Number b)"
    using coreD(5) [OF assms(1)] assms(2-4) unfolding origin_def by blast
  show "sl_EventID a = sl_EventID b" using slotKey_same [OF k] by simp
qed

lemma mem_gen_unique:
  assumes c: "core s E w T" and a: "mem_at (en_mem E) k = Some x" "en_Value x = VSlot a"
    and b: "mem_at (en_mem E) k' = Some y" "en_Value y = VSlot b" and g: "sl_Generation a = sl_Generation b"
  shows "k = k'"
  using same_gen(1) [OF c mem_slot(1) [OF c a] mem_slot(1) [OF c b] g] mem_slot(2) [OF c a] mem_slot(2) [OF c b]
  by simp

lemma live_remove:
  assumes "mem_at m' = (mem_at m)(k := None)" "live m e g"
  shows "live m' e g \<or> (\<exists>en sl. mem_at m k = Some en \<and> en_Value en = VSlot sl \<and> sl_EventID sl = e \<and> sl_Generation sl = g)"
  using assms unfolding live_def by (metis fun_upd_apply)

lemma live_remove_mono: "mem_at m' = (mem_at m)(k := None) \<Longrightarrow> live m' e g \<Longrightarrow> live m e g"
  unfolding live_def by (metis fun_upd_apply option.distinct(1))

text \<open>The tokens of one generation.\<close>

lemma tok_min:
  assumes "tok_ok E w t" "t \<in> {TokS g n, TokA g n}"
  shows "gen_at w n g" "gen_at w r g \<Longrightarrow> n \<le> r"
proof -
  show "gen_at w n g" using assms by (auto simp: gen_at_def tok_ok_def)
  show "gen_at w r g \<Longrightarrow> n \<le> r" using assms by auto
qed

lemma token_unique:
  assumes c: "core s E w T" and t: "t \<in> T i" "t \<in> {TokS g n, TokA g n}" "t \<notin> T'"
    and u: "u \<in> (T(i := T')) j" "u \<in> {TokS g m, TokA g m}" and sub: "T' \<subseteq> T i"
  shows False
proof -
  have tok: "tok_ok E w t" using t(1) by (rule coreD(11) [OF c])
  have uj: "u \<in> T j" using u(1) sub by (auto split: if_splits)
  then have tok': "tok_ok E w u" by (rule coreD(11) [OF c])
  from tok_min [OF tok t(2)] tok_min [OF tok' u(2)] have "m = n" by (blast intro: antisym)
  with tok tok' t(2) u(2) have "u = t" by auto
  with uj t(1) coreD(12) [OF c] have "j = i" by metis
  with \<open>u = t\<close> u(1) t(3) show False by simp
qed

lemma core_remove_plain:
  assumes c: "core s E w T" and m: "mem_wf m" "mem_at m = (mem_at (en_mem E))(k := None)" "me_revision m = me_revision (en_mem E)"
    and sub: "T' \<subseteq> T i"
    and lost: "\<And>en sl. mem_at (en_mem E) k = Some en \<Longrightarrow> en_Value en = VSlot sl \<Longrightarrow>
      sl_Subject sl \<in> fa_erased w \<or> drained w (sl_EventID sl) \<or>
      (TokS (sl_Generation sl) (en_Revision en) \<in> T i \<and> TokS (sl_Generation sl) (en_Revision en) \<notin> T')"
  shows "core s (E\<lparr>en_mem := m\<rparr>) w (T(i := T'))"
proof -
  have c': "core s E w (T(i := T'))" using c sub by (rule core_less)
  have gone: "subj e g \<in> fa_erased w \<or> live m e g \<or> drained w e \<or>
    (\<exists>n. TokS g n \<in> T i \<and> TokS g n \<notin> T')" if "live (en_mem E) e g" for e g
    using live_remove [OF m(2) that] lost mem_slot(3) [OF c] unfolding slot_ok_def by metis
  show ?thesis
  proof (rule coreI)
    show "agree (en_mem (E\<lparr>en_mem := m\<rparr>)) w"
      using coreD(2) [OF c] m by (auto simp: agree_def split: if_splits)
    show "latest (en_mem (E\<lparr>en_mem := m\<rparr>)) w"
      using coreD(6) [OF c] m by (auto simp: latest_def split: if_splits)
    show "closing (en_mem (E\<lparr>en_mem := m\<rparr>)) w"
      using coreD(7) [OF c] m by (auto simp: closing_def split: if_splits)
    show "admitted (en_mem (E\<lparr>en_mem := m\<rparr>)) w"
      unfolding admitted_def
    proof (intro allI impI conjI)
      fix e g assume a: "(e, g) \<in> fa_adm w"
      from coreD(8) [OF c] a show "\<exists>r. gen_at w r g" by (auto simp: admitted_def)
      have "TokS g n \<notin> T i" for n using coreD(11) [OF c, of "TokS g n" i] a by auto
      moreover from coreD(8) [OF c] a have "g \<in> fa_ret w \<or> subj e g \<in> fa_erased w \<or> live (en_mem E) e g"
        by (auto simp: admitted_def)
      moreover have "drained w e \<Longrightarrow> subj e g \<in> fa_erased w \<or> g \<in> fa_ret w" using a by (auto simp: drained_def)
      ultimately show "g \<in> fa_ret w \<or> subj e g \<in> fa_erased w \<or> live (en_mem (E\<lparr>en_mem := m\<rparr>)) e g"
        using gone [of e g] by auto
    qed
    show "withdrawn (en_mem (E\<lparr>en_mem := m\<rparr>)) w"
      using coreD(9) [OF c] by (auto simp: withdrawn_def dest: live_remove_mono [OF m(2)])
    show "tok_ok (E\<lparr>en_mem := m\<rparr>) w t" if t: "t \<in> (T(i := T')) j" for j t
    proof (cases t)
      case (TokS g n)
      with coreD(11) [OF c' t] obtain sl where sl: "slot_at w n sl" "sl_Generation sl = g"
        "sl_EventID sl \<in> fa_closed w \<or> subj (sl_EventID sl) g \<in> fa_erased w \<or> live (en_mem E) (sl_EventID sl) g"
        and rest: "\<forall>r. gen_at w r g \<longrightarrow> n \<le> r" "\<forall>e. (e, g) \<notin> fa_adm w" "g \<notin> fa_ret w"
        by auto
      have "\<not> (TokS g l \<in> T i \<and> TokS g l \<notin> T')" for l
        using token_unique [OF c _ _ _ t _ sub, of "TokS g l" g l n] TokS by auto
      then have "sl_EventID sl \<in> fa_closed w \<or> subj (sl_EventID sl) g \<in> fa_erased w \<or> live m (sl_EventID sl) g"
        using sl(3) gone [of "sl_EventID sl" g] unfolding drained_def by blast
      with sl(1,2) rest TokS show ?thesis by auto
    qed (use coreD(11) [OF c' t] in auto)
    show "j = l" if "t \<in> (T(i := T')) j" "t \<in> (T(i := T')) l" for j l t
      using that by (rule coreD(12) [OF c'])
    show "signed_ok w (T(i := T')) x" if "x \<in> en_signed (E\<lparr>en_mem := m\<rparr>)" for x
      using coreD(10) [OF c', of x] that by simp
  qed (use coreD(3,4) [OF c] part_cong(2) [OF _ _ _ _ _ coreD(5) [OF c]] m in simp_all)
qed

text \<open>An admitted slot is withdrawn by the call that created it.\<close>

lemma core_withdraw:
  assumes c: "core s E w T" and m: "mem_wf m" "mem_at m = (mem_at (en_mem E))(k := None)" "me_revision m = me_revision (en_mem E)"
    and sub: "T' \<subseteq> T i" and en: "mem_at (en_mem E) k = Some en" "en_Value en = VSlot sl"
    and t: "TokA (sl_Generation sl) (en_Revision en) \<in> T i" "TokA (sl_Generation sl) (en_Revision en) \<notin> T'"
  shows "core s (E\<lparr>en_mem := m\<rparr>) (w\<lparr>fa_ret := insert (sl_Generation sl) (fa_ret w)\<rparr>) (T(i := T'))"
proof -
  let ?g = "sl_Generation sl" and ?n = "en_Revision en"
  let ?w = "w\<lparr>fa_ret := insert ?g (fa_ret w)\<rparr>"
  have c': "core s E w (T(i := T'))" using c sub by (rule core_less)
  from coreD(11) [OF c t(1)] have le: "\<And>r. gen_at w r ?g \<Longrightarrow> ?n \<le> r" by auto
  from coreD(6) [OF c] en have ge: "\<And>r. gen_at w r ?g \<Longrightarrow> r \<le> ?n" by (auto simp: latest_def)
  have nc: "\<not> confirmed w ?g"
    unfolding confirmed_def using le ge by (metis antisym gen_at_def)
  have dead: "\<not> live m e ?g" for e
  proof
    assume "live m e ?g"
    then obtain k' en' sl' where "mem_at m k' = Some en'" "en_Value en' = VSlot sl'" "sl_Generation sl' = ?g"
      by (auto simp: live_def)
    with m(2) mem_gen_unique [OF c en, of k' en' sl'] show False by (auto split: if_splits)
  qed
  have gone: "live m e g" if "live (en_mem E) e g" "g \<noteq> ?g" for e g
    using live_remove [OF m(2) that(1)] that(2) en by auto
  have other: "g \<noteq> ?g" if "u \<in> (T(i := T')) j" "u \<in> {TokS g l, TokA g l}" for u j g l
    using token_unique [OF c t(1) _ t(2) that(1) _ sub, of ?g ?n l] that(2) by auto
  have fle: "fle w ?w" by (auto simp: fle_def)
  show ?thesis
  proof (rule coreI)
    show "facts_ok s ?w" using coreD(3) [OF c] fle by (rule facts_ok_grow) simp
    show "agree (en_mem (E\<lparr>en_mem := m\<rparr>)) ?w"
      using coreD(2) [OF c] m by (auto simp: agree_def split: if_splits)
    show "latest (en_mem (E\<lparr>en_mem := m\<rparr>)) ?w"
      using coreD(6) [OF c] m by (auto simp: latest_def split: if_splits)
    show "closing (en_mem (E\<lparr>en_mem := m\<rparr>)) ?w"
      using coreD(7) [OF c] m by (auto simp: closing_def split: if_splits)
    show "admitted (en_mem (E\<lparr>en_mem := m\<rparr>)) ?w"
      using coreD(8) [OF c] gone unfolding admitted_def by simp metis
    show "withdrawn (en_mem (E\<lparr>en_mem := m\<rparr>)) ?w"
      using coreD(9) [OF c] nc dead mem_slot(4) [OF c en]
      by (auto simp: withdrawn_def dest: live_remove_mono [OF m(2)])
    show "signed_ok ?w (T(i := T')) x" if x: "x \<in> en_signed (E\<lparr>en_mem := m\<rparr>)" for x
    proof -
      from x coreD(10) [OF c, of x] obtain g where g: "snd x = subj (fst x) g" "(fst x, g) \<in> fa_adm w" "g \<notin> fa_ret w"
        "confirmed w g \<or> (\<forall>i n. TokA g n \<notin> T i)"
        unfolding signed_ok_def by auto
      with nc t(1) have "g \<noteq> ?g" by blast
      moreover from g(4) sub have "confirmed w g \<or> (\<forall>j n. TokA g n \<notin> (T(i := T')) j)" by auto
      ultimately show ?thesis using g(1-3) by (intro signed_okI [of x g]) simp_all
    qed
    show "tok_ok (E\<lparr>en_mem := m\<rparr>) ?w u" if u: "u \<in> (T(i := T')) j" for j u
      using coreD(11) [OF c' u] other [OF u] by (cases u) (auto intro: gone)
    show "j = l" if "u \<in> (T(i := T')) j" "u \<in> (T(i := T')) l" for j l u
      using that by (rule coreD(12) [OF c'])
  qed (use coreD(4) [OF c] part_cong(2) [OF _ _ _ _ _ coreD(5) [OF c]] m in simp_all)
qed

section \<open>Writing an entry\<close>

lemma slot_at_wrote:
  assumes "fa_hist w n = None"
  shows "slot_at (wrote w n k v) r sl \<longleftrightarrow> slot_at w r sl \<or> (r = n \<and> v = VSlot sl \<and> k = slotKey (sl_EventID sl) (sl_Number sl))"
  using assms by (auto simp: slot_at_def)

lemma gen_at_wrote:
  assumes "fa_hist w n = None"
  shows "gen_at (wrote w n k v) r g \<longleftrightarrow> gen_at w r g \<or>
    (r = n \<and> (\<exists>sl. v = VSlot sl \<and> k = slotKey (sl_EventID sl) (sl_Number sl) \<and> sl_Generation sl = g))"
  using slot_at_wrote [OF assms] by (auto simp: gen_at_def)

lemma event_at_wrote:
  assumes "fa_hist w n = None"
  shows "event_at (wrote w n k v) r ev \<longleftrightarrow> event_at w r ev \<or> (r = n \<and> v = VEvent ev \<and> k = eventKey (ev_ID ev))"
  using assms by (auto simp: event_at_def)

lemma closed_wrote_iff:
  "e \<in> fa_closed (wrote w n k v) \<longleftrightarrow> e \<in> fa_closed w \<or> (\<exists>ev. v = VEvent ev \<and> ev_State ev = Deleting \<and> ev_ID ev = e)"
  by (auto simp: wrote_def split: val.splits)

text \<open>
  A write of value \<open>v\<close> at key \<open>k\<close> with the next revision: a create of fresh ids, or an update
  of the current entry. \<open>T'\<close> are the tokens of the writer after it.
\<close>

definition may_write :: "service \<Rightarrow> env \<Rightarrow> facts \<Rightarrow> token set \<Rightarrow> token set \<Rightarrow> string \<Rightarrow> val \<Rightarrow> bool" where
  "may_write s E w T T' k v \<longleftrightarrow>
     (mem_at (en_mem E) k = None \<and> create_ok s w T k v \<and> T' = T - create_needs v \<union> create_gives v (me_revision (en_mem E) + 1)) \<or>
     (\<exists>en. mem_at (en_mem E) k = Some en \<and> update_ok s w k (en_Value en) v \<and> T' = T)"

lemma may_write_slot:
  assumes c: "core s E w T" and mw: "may_write s E w (T i) T' k (VSlot sl)"
  shows "k = slotKey (sl_EventID sl) (sl_Number sl) \<and> slot_ok s sl \<and>
    ((mem_at (en_mem E) k = None \<and> TokU (sl_Generation sl) \<in> T i \<and> TokD (sl_ResumeDigest sl) \<in> T i \<and>
      T' = insert (TokS (sl_Generation sl) (me_revision (en_mem E) + 1)) (T i - {TokU (sl_Generation sl), TokD (sl_ResumeDigest sl)})) \<or>
     (\<exists>en a. mem_at (en_mem E) k = Some en \<and> en_Value en = VSlot a \<and> slot_at w (en_Revision en) a \<and>
        sl_EventID a = sl_EventID sl \<and> sl_Generation a = sl_Generation sl \<and> sl_ResumeDigest a = sl_ResumeDigest sl \<and> T' = T i))"
  using mw mem_slot(1) [OF c]
  by (auto simp: may_write_def create_ok_def create_needs_def create_gives_def update_ok_def)

lemma may_write_event:
  assumes c: "core s E w T" and mw: "may_write s E w (T i) T' k (VEvent ev)"
  shows "k = eventKey (ev_ID ev) \<and> event_ok s ev \<and>
    ((mem_at (en_mem E) k = None \<and> TokU (ev_ID ev) \<in> T i \<and> ev_State ev = Draft \<and> T' = T i - {TokU (ev_ID ev)}) \<or>
     (\<exists>en a. mem_at (en_mem E) k = Some en \<and> en_Value en = VEvent a \<and> event_at w (en_Revision en) a \<and> ev_ID a = ev_ID ev \<and>
        may_become (ev_State a) (ev_State ev) \<and> T' = T i))"
  using mw mem_entry(1) [OF c]
  by (auto simp: may_write_def create_ok_def create_needs_def create_gives_def update_ok_def event_at_def)

lemma may_write_other:
  assumes mw: "may_write s E w T T' k v" and v: "\<And>sl. v \<noteq> VSlot sl" "\<And>ev. v \<noteq> VEvent ev"
  shows "T' = T \<and> entry_ok s w k v"
  using mw v
  by (cases v) (auto simp: may_write_def create_ok_def create_needs_def create_gives_def update_ok_def index_ok_def)

lemma may_write_entry:
  assumes c: "core s E w T" and mw: "may_write s E w (T i) T' k v" and n: "fa_hist w n = None"
  shows "entry_ok s (wrote w n k v) k v"
proof (cases v)
  case (VEvent ev)
  with may_write_event [OF c mw [unfolded VEvent]] show ?thesis by (auto simp: closed_wrote_iff)
next
  case (VSlot sl)
  with may_write_slot [OF c mw [unfolded VSlot]] show ?thesis by auto
qed (use may_write_other [OF mw] in \<open>auto intro: drained_wrote index_ok_fle [OF fle_wrote [OF n]]\<close>)

lemma may_write_live:
  assumes c: "core s E w T" and mw: "may_write s E w (T i) T' k v"
    and m: "mem_at m = (mem_at (en_mem E))(k \<mapsto> \<lparr>en_Value = v, en_Revision = n\<rparr>)"
  shows "live m e g \<longleftrightarrow> live (en_mem E) e g \<or> (\<exists>sl. v = VSlot sl \<and> sl_EventID sl = e \<and> sl_Generation sl = g)"
proof
  assume "live m e g"
  with m show "live (en_mem E) e g \<or> (\<exists>sl. v = VSlot sl \<and> sl_EventID sl = e \<and> sl_Generation sl = g)"
    unfolding live_def by (auto split: if_splits)
next
  assume "live (en_mem E) e g \<or> (\<exists>sl. v = VSlot sl \<and> sl_EventID sl = e \<and> sl_Generation sl = g)"
  then show "live m e g"
  proof
    assume "live (en_mem E) e g"
    then obtain k' en sl where en: "mem_at (en_mem E) k' = Some en" "en_Value en = VSlot sl" "sl_EventID sl = e" "sl_Generation sl = g"
      by (auto simp: live_def)
    show "live m e g"
    proof (cases "k' = k")
      case False
      with en m show ?thesis unfolding live_def by (metis fun_upd_other)
    next
      case True
      with mw en mem_slot(2) [OF c en(1,2)] obtain b where "v = VSlot b" "sl_EventID b = e" "sl_Generation b = g"
        by (auto simp: may_write_def update_ok_def split: val.splits)
      with m show ?thesis unfolding live_def by (metis entry.select_convs(1) fun_upd_same)
    qed
  next
    assume "\<exists>sl. v = VSlot sl \<and> sl_EventID sl = e \<and> sl_Generation sl = g"
    with m show "live m e g" unfolding live_def by (metis entry.select_convs(1) fun_upd_same)
  qed
qed

lemma agree_bound: "agree m w \<Longrightarrow> fa_hist w r = Some x \<Longrightarrow> r \<le> me_revision m"
  unfolding agree_def by blast

lemma gen_bound: "core s E w T \<Longrightarrow> gen_at w r g \<Longrightarrow> r \<le> me_revision (en_mem E)"
  by (auto simp: gen_at_def slot_at_def dest!: coreD(2) dest: agree_bound)

lemma hist_next: "core s E w T \<Longrightarrow> fa_hist w (me_revision (en_mem E) + 1) = None"
  using agree_bound [OF coreD(2)] by (metis add_le_same_cancel1 not_None_eq not_one_le_zero)

lemma write_slot_cases:
  assumes c: "core s E w T" and mw: "may_write s E w (T i) T' k (VSlot sl)"
  obtains (created) "TokU (sl_Generation sl) \<in> T i" "TokD (sl_ResumeDigest sl) \<in> T i" "mem_at (en_mem E) k = None"
      "T' = insert (TokS (sl_Generation sl) (me_revision (en_mem E) + 1)) (T i - {TokU (sl_Generation sl), TokD (sl_ResumeDigest sl)})"
      "\<And>r. \<not> gen_at w r (sl_Generation sl)"
      "\<And>r a. slot_at w r a \<Longrightarrow> sl_ResumeDigest a \<noteq> sl_ResumeDigest sl"
  | (updated) r a where "slot_at w r a" "live (en_mem E) (sl_EventID sl) (sl_Generation sl)"
      "sl_EventID a = sl_EventID sl" "sl_Generation a = sl_Generation sl" "sl_ResumeDigest a = sl_ResumeDigest sl"
      "slotKey (sl_EventID a) (sl_Number a) = k" "T' = T i"
proof -
  from may_write_slot [OF c mw] consider
    "TokU (sl_Generation sl) \<in> T i" "TokD (sl_ResumeDigest sl) \<in> T i" "mem_at (en_mem E) k = None"
      "T' = insert (TokS (sl_Generation sl) (me_revision (en_mem E) + 1)) (T i - {TokU (sl_Generation sl), TokD (sl_ResumeDigest sl)})"
  | en a where "mem_at (en_mem E) k = Some en" "en_Value en = VSlot a" "slot_at w (en_Revision en) a"
        "sl_EventID a = sl_EventID sl" "sl_Generation a = sl_Generation sl" "sl_ResumeDigest a = sl_ResumeDigest sl" "T' = T i"
    by (elim conjE disjE exE; blast)
  then show ?thesis
  proof cases
    case 1
    with coreD(11) [OF c 1(1)] coreD(11) [OF c 1(2)] show ?thesis by (intro created) auto
  next
    case (2 en a)
    then have "live (en_mem E) (sl_EventID sl) (sl_Generation sl)" unfolding live_def by blast
    with 2 mem_slot(2) [OF c 2(1,2)] show ?thesis by (intro updated [of "en_Revision en" a]) simp_all
  qed
qed

lemma write_event_cases:
  assumes c: "core s E w T" and mw: "may_write s E w (T i) T' k (VEvent ev)"
  obtains (created) "TokU (ev_ID ev) \<in> T i" "mem_at (en_mem E) k = None" "ev_State ev = Draft"
      "T' = T i - {TokU (ev_ID ev)}" "k = eventKey (ev_ID ev)"
  | (updated) en a where "mem_at (en_mem E) k = Some en" "en_Value en = VEvent a" "event_at w (en_Revision en) a"
      "ev_ID a = ev_ID ev" "may_become (ev_State a) (ev_State ev)" "T' = T i" "k = eventKey (ev_ID ev)"
  using may_write_event [OF c mw] by (elim conjE disjE exE; blast)

lemma write_tokens:
  assumes c: "core s E w T" and mw: "may_write s E w (T i) T' k v" and t: "t \<in> T'"
  shows "t \<in> T i \<or> (\<exists>sl. v = VSlot sl \<and> t = TokS (sl_Generation sl) (me_revision (en_mem E) + 1))"
  using mw t
  by (cases v) (auto simp: may_write_def create_gives_def create_needs_def)

lemma write_facts:
  assumes c: "core s E w T" and mw: "may_write s E w (T i) T' k v" and n: "n = me_revision (en_mem E) + 1"
  shows "facts_ok s (wrote w n k v)"
proof (rule facts_okI)
  have new: "fa_hist w n = None" unfolding n using c by (rule hist_next)
  {
    fix r k' v' assume h: "fa_hist (wrote w n k v) r = Some (k', v')"
    consider "fa_hist w r = Some (k', v')" | "k' = k" "v' = v" using h by (cases "r = n") simp_all
    then show "entry_ok s (wrote w n k v) k' v'"
    proof cases
      case 1
      from entry_ok_fle [OF fle_wrote [OF new] facts_entry [OF coreD(3) [OF c] 1]] show ?thesis .
    qed (use may_write_entry [OF c mw new] in simp)
  }
  have digest: "sl_EventID a = sl_EventID b \<and> sl_Generation a = sl_Generation b"
    if a: "slot_at w r a" and b: "v = VSlot b" and d: "sl_ResumeDigest a = sl_ResumeDigest b" for r a b
    using c mw [unfolded b]
  proof (cases rule: write_slot_cases)
    case created
    with a d show ?thesis by blast
  next
    case (updated r' a')
    with facts_digest [OF coreD(3) [OF c] a updated(1)] d show ?thesis by simp
  qed
  fix r r' a b assume "slot_at (wrote w n k v) r a" "slot_at (wrote w n k v) r' b" and d: "sl_ResumeDigest a = sl_ResumeDigest b"
  then consider "slot_at w r a" "slot_at w r' b" | "slot_at w r a" "v = VSlot b" | "slot_at w r' b" "v = VSlot a" | "v = VSlot a" "v = VSlot b"
    unfolding slot_at_wrote [OF new] by blast
  then show "sl_EventID a = sl_EventID b \<and> sl_Generation a = sl_Generation b"
  proof cases
    case 1
    from facts_digest [OF coreD(3) [OF c] 1 d] show ?thesis .
  next
    case 2
    from digest [OF 2 d] show ?thesis .
  next
    case 3
    from digest [OF 3 d [symmetric]] show ?thesis by simp
  qed simp
qed

lemma write_agree:
  assumes c: "core s E w T" and n: "n = me_revision (en_mem E) + 1"
    and m: "mem_at m = (mem_at (en_mem E))(k \<mapsto> \<lparr>en_Value = v, en_Revision = n\<rparr>)" "me_revision m = n"
  shows "agree m (wrote w n k v)"
  unfolding agree_def
proof (intro conjI allI impI)
  fix k' en assume en: "mem_at m k' = Some en"
  show "fa_hist (wrote w n k v) (en_Revision en) = Some (k', en_Value en)"
  proof (cases "k' = k")
    case False
    with en m have "mem_at (en_mem E) k' = Some en" by simp
    from mem_entry(1) [OF c this] hist_next [OF c] n show ?thesis by auto
  qed (use en m in auto)
next
  fix r x assume x: "fa_hist (wrote w n k v) r = Some x"
  show "r \<le> me_revision m"
  proof (cases "r = n")
    case False
    with x have "fa_hist w r = Some x" by simp
    from agree_bound [OF coreD(2) [OF c] this] m(2) n show ?thesis by simp
  qed (simp add: m(2))
qed

lemma write_origin:
  assumes c: "core s E w T" and mw: "may_write s E w (T i) T' k v" and new: "fa_hist w n = None"
  shows "origin E (wrote w n k v)"
proof -
  note at = slot_at_wrote [OF new] and eat = event_at_wrote [OF new]
  have old: "slot_at w r sl \<Longrightarrow> sl_Generation sl \<in> en_uuids E \<and> sl_ResumeDigest sl \<in> en_digests E"
    "event_at w r ev \<Longrightarrow> ev_ID ev \<in> en_uuids E" "fa_closed w \<subseteq> en_uuids E" for r sl ev
    using coreD(5) [OF c] unfolding origin_def by blast+
  have slot: "sl_Generation sl \<in> en_uuids E \<and> sl_ResumeDigest sl \<in> en_digests E" if v: "v = VSlot sl" for sl
    using c mw [unfolded v]
  proof (cases rule: write_slot_cases)
    case created
    with coreD(11) [OF c created(1)] coreD(11) [OF c created(2)] show ?thesis by simp
  next
    case (updated r a)
    with old(1) [of r a] show ?thesis by simp
  qed
  have key: "slotKey (sl_EventID a) (sl_Number a) = k" if v: "v = VSlot b" and a: "slot_at w r a" and g: "sl_Generation a = sl_Generation b" for r a b
    using c mw [unfolded v]
  proof (cases rule: write_slot_cases)
    case created
    with a g show ?thesis by (auto simp: gen_at_def)
  next
    case (updated r' a')
    with same_gen(1) [OF c a updated(1)] g show ?thesis by simp
  qed
  have kv: "v = VSlot b \<Longrightarrow> slotKey (sl_EventID b) (sl_Number b) = k" for b
    using may_write_slot [OF c, of i T' k b] mw by simp
  have ev: "ev_ID ev \<in> en_uuids E" if v: "v = VEvent ev" for ev
    using c mw [unfolded v]
  proof (cases rule: write_event_cases)
    case created
    with coreD(11) [OF c created(1)] show ?thesis by simp
  next
    case (updated en a)
    with old(2) [OF updated(3)] show ?thesis by simp
  qed
  have pair: "slotKey (sl_EventID a) (sl_Number a) = slotKey (sl_EventID b) (sl_Number b)"
    if "slot_at (wrote w n k v) r a" "slot_at (wrote w n k v) r' b" and g: "sl_Generation a = sl_Generation b" for r r' a b
  proof -
    from that consider "slot_at w r a" "slot_at w r' b" | "slot_at w r a" "v = VSlot b" | "slot_at w r' b" "v = VSlot a" | "v = VSlot a" "v = VSlot b"
      unfolding at by blast
    then show ?thesis
    proof cases
      case 1
      from same_gen(1) [OF c 1 g] show ?thesis .
    next
      case 2
      from key [OF 2(2,1) g] kv [OF 2(2)] show ?thesis by simp
    next
      case 3
      from key [OF 3(2,1) g [symmetric]] kv [OF 3(2)] show ?thesis by simp
    qed simp
  qed
  have "fa_closed (wrote w n k v) \<subseteq> en_uuids E"
    using old(3) ev by (auto simp: closed_wrote_iff)
  moreover have "sl_Generation sl \<in> en_uuids E \<and> sl_ResumeDigest sl \<in> en_digests E" if "slot_at (wrote w n k v) r sl" for r sl
    using that old(1) slot unfolding at by blast
  moreover have "ev_ID ev' \<in> en_uuids E" if "event_at (wrote w n k v) r ev'" for r ev'
    using that old(2) ev unfolding eat by blast
  ultimately show ?thesis unfolding origin_def using pair by blast
qed

lemma write_latest:
  assumes c: "core s E w T" and mw: "may_write s E w (T i) T' k v" and n: "n = me_revision (en_mem E) + 1"
    and m: "mem_at m = (mem_at (en_mem E))(k \<mapsto> \<lparr>en_Value = v, en_Revision = n\<rparr>)"
  shows "latest m (wrote w n k v)"
  unfolding latest_def
proof (intro allI impI)
  have new: "fa_hist w n = None" unfolding n using c by (rule hist_next)
  fix k' en sl r
  assume en: "mem_at m k' = Some en" "en_Value en = VSlot sl" and r: "gen_at (wrote w n k v) r (sl_Generation sl)"
  show "r \<le> en_Revision en"
  proof (cases "k' = k")
    case True
    with en m have "en_Revision en = n" by auto
    moreover have "r \<le> n" using r gen_bound [OF c] n unfolding gen_at_wrote [OF new] by fastforce
    ultimately show ?thesis by simp
  next
    case False
    with en m have old: "mem_at (en_mem E) k' = Some en" by simp
    have "gen_at w r (sl_Generation sl)"
    proof (rule ccontr)
      assume "\<not> gen_at w r (sl_Generation sl)"
      with r obtain b where b: "v = VSlot b" "sl_Generation b = sl_Generation sl"
        unfolding gen_at_wrote [OF new] by blast
      from c mw [unfolded b(1)] show False
      proof (cases rule: write_slot_cases)
        case created
        with mem_slot(4) [OF c old en(2)] b(2) show False by simp
      next
        case (updated r' a)
        with same_gen(1) [OF c mem_slot(1) [OF c old en(2)] updated(1)] b(2) mem_slot(2) [OF c old en(2)] False
        show False by simp
      qed
    qed
    with coreD(6) [OF c] old en(2) show ?thesis unfolding latest_def by blast
  qed
qed

lemma write_closing:
  assumes c: "core s E w T" and mw: "may_write s E w (T i) T' k v"
    and m: "mem_at m = (mem_at (en_mem E))(k \<mapsto> \<lparr>en_Value = v, en_Revision = n\<rparr>)"
  shows "closing m (wrote w n k v)"
  unfolding closing_def
proof (intro allI impI)
  fix e en ev
  assume e: "e \<in> fa_closed (wrote w n k v)" and en: "mem_at m (eventKey e) = Some en" "en_Value en = VEvent ev"
  have old: "ev_State ev' = Deleting"
    if "e \<in> fa_closed w" "mem_at (en_mem E) (eventKey e) = Some en'" "en_Value en' = VEvent ev'" for en' ev'
    using coreD(7) [OF c] that unfolding closing_def by blast
  have key: "k = eventKey (ev_ID ev')" if v: "v = VEvent ev'" for ev'
    using may_write_event [OF c mw [unfolded v]] by blast
  show "ev_State ev = Deleting"
  proof (cases "k = eventKey e")
    case True
    with en m have v: "v = VEvent ev" by auto
    from key [OF v] True have ide: "ev_ID ev = e" by simp
    from c mw [unfolded v] show ?thesis
    proof (cases rule: write_event_cases)
      case created
      with coreD(11) [OF c created(1)] e v ide show ?thesis by (auto simp: closed_wrote_iff)
    next
      case (updated en' a)
      show ?thesis
      proof (rule ccontr)
        assume nd: "ev_State ev \<noteq> Deleting"
        with e v have "e \<in> fa_closed w" by (auto simp: closed_wrote_iff)
        from old [OF this] updated(1,2,5) True nd show False by auto
      qed
    qed
  next
    case False
    with en m have "mem_at (en_mem E) (eventKey e) = Some en" by simp
    moreover have "e \<in> fa_closed w" using e key False by (auto simp: closed_wrote_iff)
    ultimately show ?thesis using old en(2) by blast
  qed
qed

lemma confirmed_wrote:
  assumes new: "fa_hist w n = None" and g: "confirmed (wrote w n k v) g"
    and ne: "\<And>sl. v = VSlot sl \<Longrightarrow> sl_Generation sl \<noteq> g"
  shows "confirmed w g"
proof -
  have "slot_at w r sl" if "slot_at (wrote w n k v) r sl" "sl_Generation sl = g" for r sl
    using that ne unfolding slot_at_wrote [OF new] by blast
  with g show ?thesis unfolding confirmed_def by metis
qed

lemma write_withdrawn:
  assumes c: "core s E w T" and mw: "may_write s E w (T i) T' k v" and new: "fa_hist w n = None"
    and m: "mem_at m = (mem_at (en_mem E))(k \<mapsto> \<lparr>en_Value = v, en_Revision = n\<rparr>)"
  shows "withdrawn m (wrote w n k v)"
  unfolding withdrawn_def
proof (intro ballI)
  fix g assume "g \<in> fa_ret (wrote w n k v)"
  then have g: "\<not> confirmed w g" "\<exists>r. gen_at w r g" "\<And>e. \<not> live (en_mem E) e g"
    using coreD(9) [OF c] by (auto simp: withdrawn_def)
  have ne: "sl_Generation sl \<noteq> g" if v: "v = VSlot sl" for sl
    using c mw [unfolded v]
  proof (cases rule: write_slot_cases)
    case created
    with g(2) show ?thesis by blast
  next
    case (updated r a)
    with g(3) show ?thesis by auto
  qed
  with g show "\<not> confirmed (wrote w n k v) g \<and> (\<exists>r. gen_at (wrote w n k v) r g) \<and> (\<forall>e. \<not> live m e g)"
    using confirmed_wrote [OF new _ ne] may_write_live [OF c mw m] gen_at_wrote [OF new] by metis
qed

lemma confirmed_mono: "fa_hist w n = None \<Longrightarrow> confirmed w g \<Longrightarrow> confirmed (wrote w n k v) g"
  unfolding confirmed_def using slot_at_wrote by blast

lemma write_signed:
  assumes c: "core s E w T" and mw: "may_write s E w (T i) T' k v" and new: "fa_hist w n = None"
    and x: "x \<in> en_signed E"
  shows "signed_ok (wrote w n k v) (T(i := T')) x"
proof -
  from coreD(10) [OF c x] obtain g where g: "snd x = subj (fst x) g" "(fst x, g) \<in> fa_adm w" "g \<notin> fa_ret w"
    "confirmed w g \<or> (\<forall>i n. TokA g n \<notin> T i)"
    unfolding signed_ok_def by blast
  then have "signed_ok (wrote w n k v) T x"
    by (intro signed_okI [of x g]) (auto intro: confirmed_mono [OF new])
  then show ?thesis
    by (rule signed_ok_less) (use write_tokens [OF c mw] in \<open>auto split: if_splits\<close>)
qed

lemma write_disjoint:
  assumes c: "core s E w T" and mw: "may_write s E w (T i) T' k v"
    and t: "t \<in> (T(i := T')) j" "t \<in> (T(i := T')) l"
  shows "j = l"
proof -
  have new: "TokS g (me_revision (en_mem E) + 1) \<notin> T j" for g j
  proof
    assume "TokS g (me_revision (en_mem E) + 1) \<in> T j"
    from tok_min(1) [OF coreD(11) [OF c this], of g] show False using gen_bound [OF c] by fastforce
  qed
  from t write_tokens [OF c mw] consider "t \<in> T j" "t \<in> T l" | g where "t = TokS g (me_revision (en_mem E) + 1)"
    by (auto split: if_splits)
  then show ?thesis
  proof cases
    case 1
    then show ?thesis by (rule coreD(12) [OF c])
  next
    case 2
    with t new show ?thesis by (auto split: if_splits)
  qed
qed

text \<open>The tokens of a create are spent, whoever asks.\<close>

lemma write_spent:
  assumes c: "core s E w T" and mw: "may_write s E w (T i) T' k v" and none: "mem_at (en_mem E) k = None"
    and t: "t \<in> (T(i := T')) j" "t \<in> T j"
  shows "t \<notin> create_needs v"
proof
  assume nt: "t \<in> create_needs v"
  from mw none have needs: "create_needs v \<subseteq> T i" and T': "T' = T i - create_needs v \<union> create_gives v (me_revision (en_mem E) + 1)"
    by (auto simp: may_write_def create_ok_def)
  from nt needs t(2) have "j = i" using coreD(12) [OF c] by blast
  with t T' nt show False
    by (auto simp: create_needs_def create_gives_def split: val.splits)
qed

lemma write_old_token:
  assumes c: "core s E w T" and mw: "may_write s E w (T i) T' k v" and n: "n = me_revision (en_mem E) + 1"
    and m: "mem_at m = (mem_at (en_mem E))(k \<mapsto> \<lparr>en_Value = v, en_Revision = n\<rparr>)"
    and t: "t \<in> (T(i := T')) j" "t \<in> T j"
  shows "tok_ok (E\<lparr>en_mem := m\<rparr>) (wrote w n k v) t"
proof -
  have new: "fa_hist w n = None" unfolding n using c by (rule hist_next)
  note at = slot_at_wrote [OF new] and gat = gen_at_wrote [OF new] and eat = event_at_wrote [OF new]
  from t(2) have tok: "tok_ok E w t" by (rule coreD(11) [OF c])
  have after: "l \<le> n" if "gen_at w l g" for l g using gen_bound [OF c that] n by simp
  have lv: "live (en_mem E) e g \<Longrightarrow> live m e g" for e g using may_write_live [OF c mw m] by blast
  show ?thesis
  proof (cases t)
    case (TokU u)
    have gen: "sl_Generation sl \<noteq> u" if v: "v = VSlot sl" for sl
      using c mw [unfolded v]
    proof (cases rule: write_slot_cases)
      case created
      with write_spent [OF c mw created(3) t] v TokU show ?thesis by (auto simp: create_needs_def)
    next
      case (updated r a)
      with tok TokU show ?thesis by (auto simp: gen_at_def)
    qed
    have ev: "ev_ID ev \<noteq> u" if v: "v = VEvent ev" for ev
      using c mw [unfolded v]
    proof (cases rule: write_event_cases)
      case created
      with write_spent [OF c mw created(2) t] v TokU show ?thesis by (auto simp: create_needs_def)
    next
      case (updated en a)
      with tok TokU show ?thesis by auto
    qed
    from tok TokU gen ev show ?thesis by (auto simp: gat eat closed_wrote_iff)
  next
    case (TokD d)
    have "sl_ResumeDigest sl \<noteq> d" if v: "v = VSlot sl" for sl
      using c mw [unfolded v]
    proof (cases rule: write_slot_cases)
      case created
      with write_spent [OF c mw created(3) t] v TokD show ?thesis by (auto simp: create_needs_def)
    next
      case (updated r a)
      with tok TokD show ?thesis by auto
    qed
    with tok TokD show ?thesis by (auto simp: at)
  next
    case (TokS g l)
    with tok_min(1) [OF tok, of g l] have "l \<le> n" by (auto intro: after)
    with tok TokS show ?thesis by (auto simp: gat at intro: closed_wrote lv)
  next
    case (TokA g l)
    with tok_min(1) [OF tok, of g l] have "l \<le> n" by (auto intro: after)
    with tok TokA show ?thesis by (auto simp: gat)
  qed
qed

lemma write_new_token:
  assumes c: "core s E w T" and mw: "may_write s E w (T i) T' k (VSlot sl)" and n: "n = me_revision (en_mem E) + 1"
    and m: "mem_at m = (mem_at (en_mem E))(k \<mapsto> \<lparr>en_Value = VSlot sl, en_Revision = n\<rparr>)"
    and t: "TokS (sl_Generation sl) n \<in> T'" "TokS (sl_Generation sl) n \<notin> T i"
  shows "tok_ok (E\<lparr>en_mem := m\<rparr>) (wrote w n k (VSlot sl)) (TokS (sl_Generation sl) n)"
proof -
  have new: "fa_hist w n = None" unfolding n using c by (rule hist_next)
  note at = slot_at_wrote [OF new] and gat = gen_at_wrote [OF new]
  have key: "k = slotKey (sl_EventID sl) (sl_Number sl)" using may_write_slot [OF c mw] by blast
  from c mw show ?thesis
  proof (cases rule: write_slot_cases)
    case created
    have "(e, sl_Generation sl) \<notin> fa_adm w" for e
      using coreD(8) [OF c] created(5) by (auto simp: admitted_def)
    moreover have "sl_Generation sl \<notin> fa_ret w"
      using coreD(9) [OF c] created(5) by (auto simp: withdrawn_def)
    moreover have "live m (sl_EventID sl) (sl_Generation sl)" using may_write_live [OF c mw m] by blast
    ultimately show ?thesis using created(5) key by (auto simp: at gat)
  next
    case (updated r a)
    with t show ?thesis by simp
  qed
qed

lemma core_write:
  assumes c: "core s E w T" and mw: "may_write s E w (T i) T' k v"
    and n: "n = me_revision (en_mem E) + 1" and m: "mem_wf m" "me_revision m = n"
      "mem_at m = (mem_at (en_mem E))(k \<mapsto> \<lparr>en_Value = v, en_Revision = n\<rparr>)"
  shows "core s (E\<lparr>en_mem := m\<rparr>) (wrote w n k v) (T(i := T'))"
proof -
  have new: "fa_hist w n = None" unfolding n using c by (rule hist_next)
  show ?thesis
  proof (rule coreI)
    show "facts_ok s (wrote w n k v)" by (rule write_facts [OF c mw n])
    show "agree (en_mem (E\<lparr>en_mem := m\<rparr>)) (wrote w n k v)" using write_agree [OF c n m(3,2)] by simp
    show "origin (E\<lparr>en_mem := m\<rparr>) (wrote w n k v)" using write_origin [OF c mw new] by (rule part_cong(2) [rotated -1]) simp_all
    show "latest (en_mem (E\<lparr>en_mem := m\<rparr>)) (wrote w n k v)" using write_latest [OF c mw n m(3)] by simp
    show "closing (en_mem (E\<lparr>en_mem := m\<rparr>)) (wrote w n k v)" using write_closing [OF c mw m(3)] by simp
    show "admitted (en_mem (E\<lparr>en_mem := m\<rparr>)) (wrote w n k v)"
    proof -
      have "live (en_mem E) e g \<Longrightarrow> live m e g" for e g
        using may_write_live [OF c mw m(3)] by blast
      moreover have "gen_at w r g \<Longrightarrow> gen_at (wrote w n k v) r g" for r g
        by (simp add: gen_at_wrote [OF new])
      ultimately show ?thesis using coreD(8) [OF c] by (simp add: admitted_def) metis
    qed
    show "withdrawn (en_mem (E\<lparr>en_mem := m\<rparr>)) (wrote w n k v)" using write_withdrawn [OF c mw new m(3)] by simp
    show "signed_ok (wrote w n k v) (T(i := T')) x" if "x \<in> en_signed (E\<lparr>en_mem := m\<rparr>)" for x
      using write_signed [OF c mw new] that by simp
    show "tok_ok (E\<lparr>en_mem := m\<rparr>) (wrote w n k v) t" if t: "t \<in> (T(i := T')) j" for j t
    proof (cases "t \<in> T j")
      case True
      from write_old_token [OF c mw n m(3) t True] show ?thesis .
    next
      case False
      with t write_tokens [OF c mw] obtain sl where sl: "v = VSlot sl" "t = TokS (sl_Generation sl) n" "t \<in> T'" "t \<notin> T i"
        unfolding n by (auto split: if_splits)
      from write_new_token [OF c mw [unfolded sl(1)] n m(3) [unfolded sl(1)]] sl show ?thesis by simp
    qed
    show "j = l" if "t \<in> (T(i := T')) j" "t \<in> (T(i := T')) l" for j l t
      using that by (rule write_disjoint [OF c mw])
  qed (use coreD(4) [OF c] m in simp_all)
qed

end
