(* ===== verification/Specification.thy ===== *)
theory Specification
  imports Invariant
begin

text \<open>
  What the service is for, without its protocol: an abstract machine of events, numbered slots,
  guests, tokens and erasures, one rule for each thing that may happen to them. There are no
  calls, revisions, retries or failures in it. The view of a state of the system is the state
  of this machine it stands for; Reachability shows that every step of the system is a rule of
  the machine, or leaves the view as it is.
\<close>

section \<open>The machine\<close>

text \<open>A guest is an event id and the generation of the slot given to it.\<close>

type_synonym guest = "string \<times> string"

record guest_access =
  ga_event :: "string \<Rightarrow> (event_state \<times> int) option"    \<comment> \<open>state and capacity of an event\<close>
  ga_slot :: "string \<Rightarrow> int \<Rightarrow> string option"            \<comment> \<open>the generation that holds a slot\<close>
  ga_receipts :: "string set"                          \<comment> \<open>events with a deletion receipt\<close>
  ga_tokens :: "guest set"                             \<comment> \<open>guests a token was signed for\<close>
  ga_erased :: "guest set"                             \<comment> \<open>guests whose erasure was acknowledged\<close>
  ga_known :: "string set"                             \<comment> \<open>ids of all events so far\<close>
  ga_closed :: "string set"                            \<comment> \<open>events whose deletion began\<close>
  ga_seen :: "string set"                              \<comment> \<open>all generations so far\<close>
  ga_admitted :: "guest set"                           \<comment> \<open>guests found in time at an open event\<close>
  ga_withdrawn :: "string set"                         \<comment> \<open>admitted, but given up before a token\<close>

definition no_access :: guest_access where
  "no_access = \<lparr>ga_event = (\<lambda>_. None), ga_slot = (\<lambda>_ _. None), ga_receipts = {}, ga_tokens = {}, ga_erased = {}, ga_known = {},
     ga_closed = {}, ga_seen = {}, ga_admitted = {}, ga_withdrawn = {}\<rparr>"

text \<open>Nothing of the guest is left with the application, or nothing ever came there under a token.\<close>

definition settled :: "guest_access \<Rightarrow> guest \<Rightarrow> bool" where
  "settled A x \<longleftrightarrow> x \<in> ga_erased A \<or> x \<notin> ga_admitted A \<or> snd x \<in> ga_withdrawn A"

definition holds_slot :: "guest_access \<Rightarrow> guest \<Rightarrow> bool" where
  "holds_slot A x \<longleftrightarrow> (\<exists>n. ga_slot A (fst x) n = Some (snd x))"

inductive spec_step :: "int \<Rightarrow> guest_access \<Rightarrow> guest_access \<Rightarrow> bool" for m where
  found: "e \<notin> ga_known A \<Longrightarrow> ga_event A e = None \<Longrightarrow> e \<notin> ga_closed A \<Longrightarrow> 0 \<le> c \<Longrightarrow> c \<le> m \<Longrightarrow>
    spec_step m A (A\<lparr>ga_event := (ga_event A)(e \<mapsto> (Draft, c)), ga_known := insert e (ga_known A)\<rparr>)"
| change: "ga_event A e = Some (st0, c0) \<Longrightarrow> may_become st0 st \<Longrightarrow> 0 \<le> c \<Longrightarrow> c \<le> m \<Longrightarrow>
    spec_step m A (A\<lparr>ga_event := (ga_event A)(e \<mapsto> (st, c)),
                     ga_closed := if st = Deleting then insert e (ga_closed A) else ga_closed A\<rparr>)"
| dissolve: "spec_step m A (A\<lparr>ga_event := (ga_event A)(e := None)\<rparr>)"
| reserve: "ga_slot A e n = None \<Longrightarrow> 1 \<le> n \<Longrightarrow> n \<le> m \<Longrightarrow> g \<notin> ga_seen A \<Longrightarrow>
    spec_step m A (A\<lparr>ga_slot := (ga_slot A)(e := (ga_slot A e)(n \<mapsto> g)), ga_seen := insert g (ga_seen A)\<rparr>)"
| admit: "ga_event A e = Some (Open, c) \<Longrightarrow> e \<notin> ga_closed A \<Longrightarrow> n \<le> c \<Longrightarrow> ga_slot A e n = Some g \<or> (e, g) \<in> ga_erased A \<Longrightarrow>
    g \<in> ga_seen A \<Longrightarrow> (\<forall>e'. (e', g) \<notin> ga_admitted A) \<Longrightarrow> g \<notin> ga_withdrawn A \<Longrightarrow>
    spec_step m A (A\<lparr>ga_admitted := insert (e, g) (ga_admitted A)\<rparr>)"
| token: "(e, g) \<in> ga_admitted A \<Longrightarrow> g \<notin> ga_withdrawn A \<Longrightarrow>
    spec_step m A (A\<lparr>ga_tokens := insert (e, g) (ga_tokens A)\<rparr>)"
| erase: "ga_erased A \<subseteq> X \<Longrightarrow> spec_step m A (A\<lparr>ga_erased := X\<rparr>)"
| free: "ga_slot A e n = Some g \<Longrightarrow> settled A (e, g) \<Longrightarrow>
    spec_step m A (A\<lparr>ga_slot := (ga_slot A)(e := (ga_slot A e)(n := None))\<rparr>)"
| withdraw: "ga_slot A e n = Some g \<Longrightarrow> (\<forall>e'. (e', g) \<notin> ga_tokens A) \<Longrightarrow>
    spec_step m A (A\<lparr>ga_slot := (ga_slot A)(e := (ga_slot A e)(n := None)), ga_withdrawn := insert g (ga_withdrawn A)\<rparr>)"
| receipt: "e \<in> ga_closed A \<Longrightarrow> (\<forall>g. settled A (e, g)) \<Longrightarrow>
    spec_step m A (A\<lparr>ga_receipts := insert e (ga_receipts A)\<rparr>)"

text \<open>A move of the machine: a rule, or none. Moves follow each other.\<close>

definition spec_move :: "int \<Rightarrow> guest_access \<Rightarrow> guest_access \<Rightarrow> bool" where
  "spec_move m A A' \<longleftrightarrow> A' = A \<or> spec_step m A A'"

inductive spec_steps :: "int \<Rightarrow> guest_access \<Rightarrow> guest_access \<Rightarrow> bool" for m where
  none: "spec_steps m A A"
| more: "spec_steps m A A' \<Longrightarrow> spec_step m A' A'' \<Longrightarrow> spec_steps m A A''"

lemma spec_steps_move: "spec_steps m A A' \<Longrightarrow> spec_move m A' A'' \<Longrightarrow> spec_steps m A A''"
  by (auto simp: spec_move_def intro: spec_steps.more)

lemma spec_move_refl [simp]: "spec_move m A A"
  by (simp add: spec_move_def)

lemma spec_moveI: "spec_step m A B \<Longrightarrow> A' = B \<Longrightarrow> spec_move m A A'"
  by (simp add: spec_move_def)

section \<open>What the machine guarantees\<close>

definition spec_inv :: "int \<Rightarrow> guest_access \<Rightarrow> bool" where
  "spec_inv m A \<longleftrightarrow>
     (\<forall>x \<in> ga_admitted A. snd x \<in> ga_seen A \<and> (x \<in> ga_erased A \<or> snd x \<in> ga_withdrawn A \<or> holds_slot A x)) \<and>
     (\<forall>e n g. ga_slot A e n = Some g \<longrightarrow> 1 \<le> n \<and> n \<le> m \<and> g \<in> ga_seen A) \<and>
     (\<forall>e n g e' n'. ga_slot A e n = Some g \<longrightarrow> ga_slot A e' n' = Some g \<longrightarrow> e = e' \<and> n = n') \<and>
     (\<forall>x \<in> ga_tokens A. x \<in> ga_admitted A \<and> snd x \<notin> ga_withdrawn A) \<and>
     (\<forall>e \<in> ga_closed A. \<forall>st c. ga_event A e = Some (st, c) \<longrightarrow> st = Deleting) \<and>
     (\<forall>e \<in> ga_receipts A. e \<in> ga_closed A \<and> (\<forall>g. settled A (e, g)))"

lemma spec_invI:
  assumes "\<And>e g. (e, g) \<in> ga_admitted A \<Longrightarrow> g \<in> ga_seen A \<and> ((e, g) \<in> ga_erased A \<or> g \<in> ga_withdrawn A \<or> holds_slot A (e, g))"
    and "\<And>e n g. ga_slot A e n = Some g \<Longrightarrow> 1 \<le> n \<and> n \<le> m \<and> g \<in> ga_seen A"
    and "\<And>e n g e' n'. ga_slot A e n = Some g \<Longrightarrow> ga_slot A e' n' = Some g \<Longrightarrow> e = e' \<and> n = n'"
    and "\<And>e g. (e, g) \<in> ga_tokens A \<Longrightarrow> (e, g) \<in> ga_admitted A \<and> g \<notin> ga_withdrawn A"
    and "\<And>e st c. e \<in> ga_closed A \<Longrightarrow> ga_event A e = Some (st, c) \<Longrightarrow> st = Deleting"
    and "\<And>e g. e \<in> ga_receipts A \<Longrightarrow> e \<in> ga_closed A \<and> settled A (e, g)"
  shows "spec_inv m A"
  unfolding spec_inv_def using assms by (intro conjI) (fastforce simp: split_paired_all)+

lemma spec_invD:
  assumes "spec_inv m A"
  shows "(e, g) \<in> ga_admitted A \<Longrightarrow> g \<in> ga_seen A"
    and "(e, g) \<in> ga_admitted A \<Longrightarrow> (e, g) \<in> ga_erased A \<or> g \<in> ga_withdrawn A \<or> holds_slot A (e, g)"
    and "ga_slot A e n = Some g \<Longrightarrow> 1 \<le> n \<and> n \<le> m \<and> g \<in> ga_seen A"
    and "ga_slot A e n = Some g \<Longrightarrow> ga_slot A e' n' = Some g \<Longrightarrow> e = e' \<and> n = n'"
    and "(e, g) \<in> ga_tokens A \<Longrightarrow> (e, g) \<in> ga_admitted A \<and> g \<notin> ga_withdrawn A"
    and "e \<in> ga_closed A \<Longrightarrow> ga_event A e = Some (st, c) \<Longrightarrow> st = Deleting"
    and "e \<in> ga_receipts A \<Longrightarrow> e \<in> ga_closed A \<and> settled A (e, g)"
proof -
  note i = assms [unfolded spec_inv_def]
  show "(e, g) \<in> ga_admitted A \<Longrightarrow> g \<in> ga_seen A"
    and "(e, g) \<in> ga_admitted A \<Longrightarrow> (e, g) \<in> ga_erased A \<or> g \<in> ga_withdrawn A \<or> holds_slot A (e, g)"
    using i by fastforce+
  show "ga_slot A e n = Some g \<Longrightarrow> 1 \<le> n \<and> n \<le> m \<and> g \<in> ga_seen A" using i by blast
  show "ga_slot A e n = Some g \<Longrightarrow> ga_slot A e' n' = Some g \<Longrightarrow> e = e' \<and> n = n'" using i by blast
  show "(e, g) \<in> ga_tokens A \<Longrightarrow> (e, g) \<in> ga_admitted A \<and> g \<notin> ga_withdrawn A" using i by fastforce
  show "e \<in> ga_closed A \<Longrightarrow> ga_event A e = Some (st, c) \<Longrightarrow> st = Deleting" using i by blast
  show "e \<in> ga_receipts A \<Longrightarrow> e \<in> ga_closed A \<and> settled A (e, g)" using i by blast
qed

lemma holds_slot_reserve:
  "holds_slot A x \<Longrightarrow> ga_slot A e n = None \<Longrightarrow> holds_slot (A\<lparr>ga_slot := (ga_slot A)(e := (ga_slot A e)(n \<mapsto> g)), ga_seen := X\<rparr>) x"
  unfolding holds_slot_def by (elim exE) (rule_tac x = na in exI, auto)

lemma holds_slot_free:
  assumes "holds_slot A (e', g')" "ga_slot A e n = Some g"
  shows "(e', g') = (e, g) \<or> holds_slot (A\<lparr>ga_slot := (ga_slot A)(e := (ga_slot A e)(n := None))\<rparr>) (e', g')"
proof -
  from assms(1) obtain n' where n': "ga_slot A e' n' = Some g'" by (auto simp: holds_slot_def)
  with assms(2) show ?thesis unfolding holds_slot_def by (cases "e' = e \<and> n' = n") auto
qed

lemma holds_slot_upd [simp]:
  "holds_slot (A\<lparr>ga_event := E\<rparr>) = holds_slot A" "holds_slot (A\<lparr>ga_admitted := X\<rparr>) = holds_slot A"
  "holds_slot (A\<lparr>ga_withdrawn := W\<rparr>) = holds_slot A"
  by (simp_all add: fun_eq_iff holds_slot_def)

lemma spec_inv_step:
  assumes st: "spec_step m A A'" and i: "spec_inv m A"
  shows "spec_inv m A'"
proof -
  note adm = spec_invD(1,2) [OF i] and slot = spec_invD(3) [OF i] and one = spec_invD(4) [OF i]
    and tok = spec_invD(5) [OF i] and cl = spec_invD(6) [OF i] and rc = spec_invD(7) [OF i]
  note defs = holds_slot_def settled_def
  note kept = adm [unfolded defs] slot tok cl rc [unfolded defs] one
  from st show ?thesis
  proof cases
    case (found e c)
    show ?thesis unfolding found(1)
      by (rule spec_invI) (use found in \<open>auto simp: defs dest: kept split: if_splits\<close>)
  next
    case (change e st0 c0 st c)
    show ?thesis unfolding change(1)
      by (rule spec_invI) (use change in \<open>auto simp: defs dest: kept split: if_splits\<close>)
  next
    case (dissolve e)
    show ?thesis unfolding dissolve(1)
      by (rule spec_invI) (auto simp: defs dest: kept split: if_splits)
  next
    case (reserve e n g)
    have new: "ga_slot A e' n' \<noteq> Some g" for e' n' using slot [of e' n' g] reserve(5) by auto
    show ?thesis unfolding reserve(1)
    proof (rule spec_invI, goal_cases)
      case (1 e' g')
      then show ?case using adm [of e' g'] holds_slot_reserve [of A "(e', g')", OF _ reserve(2)] by simp blast
    qed (use reserve new in \<open>auto simp: settled_def dest: slot tok cl rc [unfolded settled_def] one split: if_splits\<close>)
  next
    case (admit e c n g)
    have "holds_slot A (e, g) \<or> (e, g) \<in> ga_erased A" using admit(5) by (auto simp: holds_slot_def)
    then show ?thesis unfolding admit(1)
      by (intro spec_invI) (use admit in \<open>auto simp: settled_def dest: adm slot tok cl rc [unfolded settled_def] one split: if_splits\<close>)
  next
    case (token e g)
    show ?thesis unfolding token(1)
      by (rule spec_invI) (use token in \<open>auto simp: defs dest: kept split: if_splits\<close>)
  next
    case (erase X)
    show ?thesis unfolding erase(1)
      by (rule spec_invI) (use erase in \<open>auto simp: defs dest: kept split: if_splits\<close>)
  next
    case (free e n g)
    show ?thesis unfolding free(1)
    proof (rule spec_invI, goal_cases)
      case (1 e' g')
      with adm [of e' g'] holds_slot_free [of A e' g', OF _ free(2)] free(3) show ?case by (auto simp: settled_def)
    qed (use free in \<open>auto simp: settled_def dest: slot tok cl rc [unfolded settled_def] one split: if_splits\<close>)
  next
    case (withdraw e n g)
    show ?thesis unfolding withdraw(1)
    proof (rule spec_invI, goal_cases)
      case (1 e' g')
      with adm [of e' g'] holds_slot_free [of A e' g', OF _ withdraw(2)] show ?case by auto
    next
      case (4 e' g')
      with tok [of e' g'] withdraw(3) show ?case by auto
    qed (use withdraw in \<open>auto simp: settled_def dest: slot cl rc [unfolded settled_def] one split: if_splits\<close>)
  next
    case (receipt e)
    show ?thesis unfolding receipt(1)
      by (rule spec_invI) (use receipt in \<open>auto simp: defs dest: kept split: if_splits\<close>)
  qed
qed

lemma spec_inv_none: "spec_inv m no_access"
  by (simp add: spec_inv_def no_access_def)

lemma spec_inv_steps: "spec_steps m A A' \<Longrightarrow> spec_inv m A \<Longrightarrow> spec_inv m A'"
  by (induction rule: spec_steps.induct) (auto intro: spec_inv_step)

text \<open>Of the machine alone: a guest with a token is erased or holds a slot, and a receipt means that all are erased.\<close>

lemma spec_token_erased_or_held:
  "spec_inv m A \<Longrightarrow> (e, g) \<in> ga_tokens A \<Longrightarrow> (e, g) \<in> ga_erased A \<or> holds_slot A (e, g)"
  using spec_invD(2,5) by blast

lemma spec_receipt_erased:
  "spec_inv m A \<Longrightarrow> e \<in> ga_receipts A \<Longrightarrow> (e, g) \<in> ga_tokens A \<Longrightarrow> (e, g) \<in> ga_erased A"
  using spec_invD(5,7) unfolding settled_def by fastforce

lemma spec_receipts_stay: "spec_steps m A A' \<Longrightarrow> ga_receipts A \<subseteq> ga_receipts A'"
proof (induction rule: spec_steps.induct)
  case (more A A' A'')
  from more.hyps(2) have "ga_receipts A' \<subseteq> ga_receipts A''" by cases auto
  with more.IH show ?case by simp
qed simp

section \<open>The view of a state\<close>

definition event_view :: "memory \<Rightarrow> string \<Rightarrow> (event_state \<times> int) option" where
  "event_view m e = (case mem_at m (eventKey e) of
     None \<Rightarrow> None
   | Some en \<Rightarrow> (case en_Value en of VEvent ev \<Rightarrow> Some (ev_State ev, ev_Capacity ev) | _ \<Rightarrow> None))"

definition slot_view :: "memory \<Rightarrow> string \<Rightarrow> int \<Rightarrow> string option" where
  "slot_view m e n = (case mem_at m (slotKey e n) of
     None \<Rightarrow> None
   | Some en \<Rightarrow> (case en_Value en of
       VSlot sl \<Rightarrow> if sl_EventID sl = e \<and> sl_Number sl = n then Some (sl_Generation sl) else None
     | _ \<Rightarrow> None))"

definition view :: "env \<Rightarrow> facts \<Rightarrow> guest_access" where
  "view E w =
     \<lparr>ga_event = event_view (en_mem E), ga_slot = slot_view (en_mem E),
      ga_receipts = {e. mem_at (en_mem E) (receiptKey e) \<noteq> None},
      ga_tokens = {(e, g). (e, subj e g) \<in> en_signed E}, ga_erased = {(e, g). subj e g \<in> en_erased E},
      ga_known = {e. \<exists>r ev. event_at w r ev \<and> ev_ID ev = e}, ga_closed = fa_closed w, ga_seen = {g. \<exists>r. gen_at w r g},
      ga_admitted = fa_adm w, ga_withdrawn = fa_ret w\<rparr>"

lemma view_upd [simp]:
  "view (E\<lparr>en_uuids := U\<rparr>) w = view E w" "view (E\<lparr>en_digests := D\<rparr>) w = view E w"
  by (simp_all add: view_def)

lemma event_view_at:
  assumes "mem_at m (eventKey e) = Some en" "en_Value en = VEvent ev"
  shows "event_view m e = Some (ev_State ev, ev_Capacity ev)"
  using assms by (simp add: event_view_def)

lemma event_view_None [simp]: "mem_at m (eventKey e) = None \<Longrightarrow> event_view m e = None"
  by (simp add: event_view_def)

lemma event_view_cong: "mem_at m' (eventKey e) = mem_at m (eventKey e) \<Longrightarrow> event_view m' e = event_view m e"
  by (simp add: event_view_def)

lemma slot_view_iff:
  "slot_view m e n = Some g \<longleftrightarrow> (\<exists>en sl. mem_at m (slotKey e n) = Some en \<and> en_Value en = VSlot sl \<and> sl_EventID sl = e \<and>
     sl_Number sl = n \<and> sl_Generation sl = g)"
  by (auto simp: slot_view_def split: option.splits val.splits)

lemma slot_view_cong: "mem_at m' (slotKey e n) = mem_at m (slotKey e n) \<Longrightarrow> slot_view m' e n = slot_view m e n"
  by (simp add: slot_view_def)

lemma slot_view_None [simp]: "mem_at m (slotKey e n) = None \<Longrightarrow> slot_view m e n = None"
  by (simp add: slot_view_def)

text \<open>An entry that is not a slot is no slot of the view; a key of another kind does not matter to it.\<close>

lemma slot_view_wrote:
  assumes c: "core s E w T" and m: "mem_at m = (mem_at (en_mem E))(k := x)" and k: "k = slotKey e0 n0" "0 \<le> n0"
    and x: "\<And>en sl. x = Some en \<Longrightarrow> en_Value en = VSlot sl \<Longrightarrow> sl_EventID sl = e0 \<and> sl_Number sl = n0"
    and other: "e \<noteq> e0 \<or> n \<noteq> n0"
  shows "slot_view m e n = slot_view (en_mem E) e n"
proof (cases "slotKey e n = k")
  case False
  with m show ?thesis by (intro slot_view_cong) simp
next
  case True
  have "slot_view (en_mem E) e n \<noteq> Some g" for g
  proof
    assume "slot_view (en_mem E) e n = Some g"
    then obtain en sl where en: "mem_at (en_mem E) (slotKey e n) = Some en" "en_Value en = VSlot sl" "sl_Number sl = n"
      by (auto simp: slot_view_iff)
    from mem_slot(3) [OF c en(1,2)] en(3) have "0 \<le> n" by (simp add: slot_ok_def)
    with True k slotKey_inj [of e n e0 n0] other show False by auto
  qed
  moreover have "slot_view m e n \<noteq> Some g" for g
    using x other m True by (auto simp: slot_view_iff)
  ultimately show ?thesis by (metis not_None_eq)
qed

section \<open>Steps of the system in the view\<close>

lemma view_live:
  assumes c: "core s E w T" and at: "slot_at w n a" and l: "live (en_mem E) (sl_EventID a) (sl_Generation a)"
  shows "slot_view (en_mem E) (sl_EventID a) (sl_Number a) = Some (sl_Generation a)"
proof -
  from l obtain k en sl where sl: "mem_at (en_mem E) k = Some en" "en_Value en = VSlot sl"
    "sl_EventID sl = sl_EventID a" "sl_Generation sl = sl_Generation a"
    by (auto simp: live_def)
  note s = mem_slot [OF c sl(1,2)]
  from at have "slot_ok s a" using facts_entry [OF coreD(3) [OF c]] by (fastforce simp: slot_at_def)
  with s(3) same_gen(1) [OF c at s(1)] sl(3,4) slotKey_inj [of "sl_EventID a" "sl_Number a" "sl_EventID sl" "sl_Number sl"]
  have "sl_Number sl = sl_Number a" by (simp add: slot_ok_def)
  with sl s(2) show ?thesis by (auto simp: slot_view_iff)
qed

lemma view_erase:
  "spec_move m (view E w) (view (E\<lparr>en_erased := en_erased E \<union> X\<rparr>) (w\<lparr>fa_erased := Y\<rparr>))"
proof (rule spec_moveI [OF spec_step.erase])
  show "ga_erased (view E w) \<subseteq> {(e, g). subj e g \<in> en_erased E \<union> X}" by (auto simp: view_def)
qed (simp add: view_def)

lemma subj_inj [simp]: "subj e g = subj e g' \<longleftrightarrow> g = g'"
  by (simp add: subj_def)

lemma view_sign:
  assumes c: "core s E w T" and q: "sign_ok w (T i) T' q"
  shows "spec_move m (view E w) (view (E\<lparr>en_signed := insert (jc_EventID q, jc_Subject q) (en_signed E)\<rparr>) w)"
proof -
  from coreD(10) [OF core_sign [OF c q], of "(jc_EventID q, jc_Subject q)"] obtain g where
    g: "jc_Subject q = subj (jc_EventID q) g" "(jc_EventID q, g) \<in> fa_adm w" "g \<notin> fa_ret w"
    by (auto simp: signed_ok_def)
  then show ?thesis
    by (intro spec_moveI [OF spec_step.token [of "jc_EventID q" g]]) (auto simp: view_def)
qed

lemma view_admission:
  assumes c: "core s E w T" and a: "admission w (T i) k (mem_get (en_mem E) k) w' T'"
  shows "spec_move m (view E w) (view E w')"
proof -
  from a obtain en ev sl n where get: "mem_get (en_mem E) k = Inr en" and ev: "en_Value en = VEvent ev" "k = eventKey (ev_ID ev)" "ev_State ev = Open"
    and n: "slot_at w n sl" "TokS (sl_Generation sl) n \<in> T i" and nc: "ev_ID ev \<notin> fa_closed w" and e: "sl_EventID sl = ev_ID ev" "sl_Number sl \<le> ev_Capacity ev"
    and w': "w' = w\<lparr>fa_adm := insert (sl_EventID sl, sl_Generation sl) (fa_adm w)\<rparr>"
    unfolding admission_def by auto
  from get have at: "mem_at (en_mem E) (eventKey (ev_ID ev)) = Some en" using ev(2) by (simp add: mem.get_eq split: option.splits)
  from coreD(11) [OF c n(2)] obtain b where b: "slot_at w n b" "sl_EventID b \<in> fa_closed w \<or> subj (sl_EventID b) (sl_Generation sl) \<in> fa_erased w \<or>
      live (en_mem E) (sl_EventID b) (sl_Generation sl)"
    and new: "\<And>e. (e, sl_Generation sl) \<notin> fa_adm w" "sl_Generation sl \<notin> fa_ret w"
    by auto
  from n(1) b(1) have "b = sl" by (auto simp: slot_at_def)
  with b(2) nc e(1) have "slot_view (en_mem E) (ev_ID ev) (sl_Number sl) = Some (sl_Generation sl) \<or> subj (ev_ID ev) (sl_Generation sl) \<in> en_erased E"
    using view_live [OF c n(1)] coreD(4) [OF c] by auto
  then show ?thesis
    using event_view_at [OF at ev(1)] new nc n(1) ev(3) e(2)
    by (intro spec_moveI [OF spec_step.admit [of _ "ev_ID ev" "ev_Capacity ev" "sl_Number sl" "sl_Generation sl"]]) (auto simp: view_def w' e gen_at_def)
qed

text \<open>A write or a removal at one key, by the kind of the key.\<close>

lemma view_other_key:
  assumes m: "mem_at m = (mem_at (en_mem E))(k := x)"
    and k: "\<And>e. k \<noteq> eventKey e" "\<And>e n. k \<noteq> slotKey e n" "\<And>e. k \<noteq> receiptKey e"
  shows "event_view m = event_view (en_mem E)" "slot_view m = slot_view (en_mem E)"
    "mem_at m (receiptKey e) = mem_at (en_mem E) (receiptKey e)"
  using m k [symmetric] by (auto simp: fun_eq_iff intro: event_view_cong slot_view_cong)

lemma view_event_key:
  assumes m: "mem_at m = (mem_at (en_mem E))(eventKey e := x)" and y: "event_view m e = y"
  shows "event_view m = (event_view (en_mem E))(e := y)" "slot_view m = slot_view (en_mem E)"
    "mem_at m (receiptKey e') = mem_at (en_mem E) (receiptKey e')"
  using m y by (auto simp: fun_eq_iff intro: event_view_cong slot_view_cong)

lemma view_slot_key:
  assumes c: "core s E w T" and m: "mem_at m = (mem_at (en_mem E))(slotKey e n := x)" and n: "0 \<le> n"
    and x: "\<And>en sl. x = Some en \<Longrightarrow> en_Value en = VSlot sl \<Longrightarrow> sl_EventID sl = e \<and> sl_Number sl = n"
    and y: "slot_view m e n = y"
  shows "slot_view m = (slot_view (en_mem E))(e := (slot_view (en_mem E) e)(n := y))" "event_view m = event_view (en_mem E)"
    "mem_at m (receiptKey e') = mem_at (en_mem E) (receiptKey e')"
proof -
  show "slot_view m = (slot_view (en_mem E))(e := (slot_view (en_mem E) e)(n := y))"
    using slot_view_wrote [OF c m refl n x] y by (auto simp: fun_eq_iff)
qed (use m in \<open>auto simp: fun_eq_iff intro: event_view_cong\<close>)

lemma view_write:
  assumes c: "core s E w T" and mw: "may_write s E w (T i) T' k v" and n: "fa_hist w n = None"
    and m: "mem_at m = (mem_at (en_mem E))(k \<mapsto> \<lparr>en_Value = v, en_Revision = n\<rparr>)"
  shows "spec_move (sv_maxCapacity s) (view E w) (view (E\<lparr>en_mem := m\<rparr>) (wrote w n k v))"
proof (cases v)
  case (VEvent ev)
  note mw = mw [unfolded VEvent]
  from may_write_event [OF c mw] have k: "k = eventKey (ev_ID ev)" and ok: "event_ok s ev" by auto
  have at: "event_view m (ev_ID ev) = Some (ev_State ev, ev_Capacity ev)" by (simp add: event_view_def m k VEvent)
  have cap: "0 \<le> ev_Capacity ev" "ev_Capacity ev \<le> sv_maxCapacity s" using ok by (simp_all add: event_ok_def)
  have mem: "event_view m = (event_view (en_mem E))(ev_ID ev \<mapsto> (ev_State ev, ev_Capacity ev))"
    "slot_view m = slot_view (en_mem E)" "\<And>e. mem_at m (receiptKey e) = mem_at (en_mem E) (receiptKey e)"
    by (rule view_event_key [OF m [unfolded k] at])+
  have rest: "fa_closed (wrote w n k v) = (if ev_State ev = Deleting then insert (ev_ID ev) (fa_closed w) else fa_closed w)"
    "fa_adm (wrote w n k v) = fa_adm w" "fa_ret (wrote w n k v) = fa_ret w"
    by (simp_all add: wrote_def VEvent)
  have same: "{g. \<exists>r. gen_at (wrote w n k v) r g} = {g. \<exists>r. gen_at w r g}" by (simp add: gen_at_wrote [OF n] VEvent)
  have known: "{e. \<exists>r a. event_at (wrote w n k v) r a \<and> ev_ID a = e} = insert (ev_ID ev) {e. \<exists>r a. event_at w r a \<and> ev_ID a = e}"
    by (auto simp: event_at_wrote [OF n] VEvent k)
  show ?thesis
    using c mw
  proof (cases rule: write_event_cases)
    case created
    from coreD(11) [OF c created(1)] have "ev_ID ev \<notin> fa_closed w" "\<And>r a. event_at w r a \<Longrightarrow> ev_ID a \<noteq> ev_ID ev" by auto
    then have "ev_ID ev \<notin> {e. \<exists>r a. event_at w r a \<and> ev_ID a = e}" "ev_ID ev \<notin> fa_closed w" by auto
    moreover have "event_view (en_mem E) (ev_ID ev) = None" using created(2) k by simp
    ultimately show ?thesis using created(3) cap
      by (intro spec_moveI [OF spec_step.found [of "ev_ID ev" _ "ev_Capacity ev"]])
        (simp_all add: view_def mem same known rest)
  next
    case (updated en a)
    then have old: "event_view (en_mem E) (ev_ID ev) = Some (ev_State a, ev_Capacity a)" using event_view_at k by auto
    have "ev_ID ev \<in> {e. \<exists>r a. event_at w r a \<and> ev_ID a = e}" using updated(3,4) by auto
    with known have "{e. \<exists>r a. event_at (wrote w n k v) r a \<and> ev_ID a = e} = {e. \<exists>r a. event_at w r a \<and> ev_ID a = e}" by auto
    with updated(5) cap old show ?thesis
      by (intro spec_moveI [OF spec_step.change [of _ "ev_ID ev" "ev_State a" "ev_Capacity a" "ev_State ev" "ev_Capacity ev"]])
        (simp_all add: view_def mem same rest)
  qed
next
  case (VSlot sl)
  note mw = mw [unfolded VSlot]
  from may_write_slot [OF c mw] have k: "k = slotKey (sl_EventID sl) (sl_Number sl)" and ok: "slot_ok s sl" by auto
  then have num: "1 \<le> sl_Number sl" "sl_Number sl \<le> sv_maxCapacity s" by (simp_all add: slot_ok_def)
  have at: "slot_view m (sl_EventID sl) (sl_Number sl) = Some (sl_Generation sl)" by (simp add: slot_view_iff m k VSlot)
  have pos: "0 \<le> sl_Number sl" using num(1) by simp
  have own: "sl_EventID a = sl_EventID sl \<and> sl_Number a = sl_Number sl"
    if "Some \<lparr>en_Value = v, en_Revision = n\<rparr> = Some en" "en_Value en = VSlot a" for en a
    using that VSlot by auto
  have mem: "slot_view m = (slot_view (en_mem E))(sl_EventID sl := (slot_view (en_mem E) (sl_EventID sl))(sl_Number sl \<mapsto> sl_Generation sl))"
    "event_view m = event_view (en_mem E)" "\<And>e. mem_at m (receiptKey e) = mem_at (en_mem E) (receiptKey e)"
    by (rule view_slot_key [OF c m [unfolded k] pos own at], assumption, assumption)+
  have known: "{e. \<exists>r a. event_at (wrote w n k v) r a \<and> ev_ID a = e} = {e. \<exists>r a. event_at w r a \<and> ev_ID a = e}"
    by (simp add: event_at_wrote [OF n] VSlot)
  have seen: "{g. \<exists>r. gen_at (wrote w n k v) r g} = insert (sl_Generation sl) {g. \<exists>r. gen_at w r g}"
    by (auto simp: gen_at_wrote [OF n] VSlot k)
  have rest: "fa_closed (wrote w n k v) = fa_closed w" "fa_adm (wrote w n k v) = fa_adm w" "fa_ret (wrote w n k v) = fa_ret w"
    by (simp_all add: wrote_def VSlot)
  from may_write_slot [OF c mw] consider "mem_at (en_mem E) k = None" "TokU (sl_Generation sl) \<in> T i"
    | en a where "mem_at (en_mem E) k = Some en" "en_Value en = VSlot a" "sl_EventID a = sl_EventID sl" "sl_Generation a = sl_Generation sl"
    by (elim conjE disjE exE; blast)
  then show ?thesis
  proof cases
    case 1
    then have "slot_view (en_mem E) (sl_EventID sl) (sl_Number sl) = None" using k by simp
    moreover have "sl_Generation sl \<notin> {g. \<exists>r. gen_at w r g}" using coreD(11) [OF c 1(2)] by auto
    ultimately show ?thesis using num
      by (intro spec_moveI [OF spec_step.reserve [of _ "sl_EventID sl" "sl_Number sl" _ "sl_Generation sl"]])
        (simp_all add: view_def known seen rest mem)
  next
    case (2 en a)
    from mem_slot [OF c 2(1,2)] have a: "k = slotKey (sl_EventID a) (sl_Number a)" "1 \<le> sl_Number a" "gen_at w (en_Revision en) (sl_Generation a)"
      by (simp_all add: slot_ok_def)
    with slotKey_inj [of "sl_EventID a" "sl_Number a" "sl_EventID sl" "sl_Number sl"] k num have "sl_Number a = sl_Number sl" by auto
    with 2 k have "slot_view (en_mem E) (sl_EventID sl) (sl_Number sl) = Some (sl_Generation sl)" by (auto simp: slot_view_iff)
    then have "slot_view m = slot_view (en_mem E)" unfolding mem(1) by (auto simp: fun_eq_iff)
    moreover have "{g. \<exists>r. gen_at (wrote w n k v) r g} = {g. \<exists>r. gen_at w r g}" unfolding seen using a(3) 2(4) by auto
    ultimately have "view (E\<lparr>en_mem := m\<rparr>) (wrote w n k v) = view E w" by (simp add: view_def known rest mem(2,3))
    then show ?thesis by simp
  qed
next
  case (VReceipt rc)
  with mw have none: "mem_at (en_mem E) k = None" and k: "k = receiptKey (rc_EventID rc)" and d: "drained w (rc_EventID rc)"
    by (auto simp: may_write_def create_ok_def update_ok_def)
  have "event_view m = event_view (en_mem E)" "slot_view m = slot_view (en_mem E)"
    using m k by (auto simp: fun_eq_iff intro: event_view_cong slot_view_cong)
  with d coreD(4) [OF c] show ?thesis
    by (intro spec_moveI [OF spec_step.receipt [of "rc_EventID rc"]])
      (auto simp: view_def settled_def drained_def event_at_wrote [OF n] gen_at_wrote [OF n] m k VReceipt, auto simp: wrote_def)
next
  case (VIndex ix)
  with may_write_other [OF mw] obtain d where "k = sessionKey d" by auto
  with view_other_key [OF m] have "view (E\<lparr>en_mem := m\<rparr>) (wrote w n k v) = view E w"
    by (simp add: view_def event_at_wrote [OF n] gen_at_wrote [OF n] VIndex) (simp add: wrote_def)
  then show ?thesis by simp
next
  case (VText t)
  with may_write_other [OF mw] obtain d where "k = invitationKey d" by auto
  with view_other_key [OF m] have "view (E\<lparr>en_mem := m\<rparr>) (wrote w n k v) = view E w"
    by (simp add: view_def event_at_wrote [OF n] gen_at_wrote [OF n] VText) (simp add: wrote_def)
  then show ?thesis by simp
qed

text \<open>The entry of a slot is removed; what its removal does to the view.\<close>

lemma view_slot_gone:
  assumes c: "core s E w T" and m: "mem_at m = (mem_at (en_mem E))(k := None)"
    and en: "mem_at (en_mem E) k = Some en" "en_Value en = VSlot sl"
  shows "slot_view (en_mem E) (sl_EventID sl) (sl_Number sl) = Some (sl_Generation sl)"
    and "view (E\<lparr>en_mem := m\<rparr>) w = (view E w)\<lparr>ga_slot := (slot_view (en_mem E))(sl_EventID sl := (slot_view (en_mem E) (sl_EventID sl))(sl_Number sl := None))\<rparr>"
proof -
  from mem_slot [OF c en] have k: "k = slotKey (sl_EventID sl) (sl_Number sl)" and pos: "0 \<le> sl_Number sl" by (simp_all add: slot_ok_def)
  then show "slot_view (en_mem E) (sl_EventID sl) (sl_Number sl) = Some (sl_Generation sl)" using en by (auto simp: slot_view_iff)
  have at: "slot_view m (sl_EventID sl) (sl_Number sl) = None" using m k by simp
  have own: "sl_EventID a = sl_EventID sl \<and> sl_Number a = sl_Number sl"
    if "None = Some en" "en_Value en = VSlot a" for en a using that by simp
  have "slot_view m = (slot_view (en_mem E))(sl_EventID sl := (slot_view (en_mem E) (sl_EventID sl))(sl_Number sl := None))"
    "event_view m = event_view (en_mem E)" "\<And>e. mem_at m (receiptKey e) = mem_at (en_mem E) (receiptKey e)"
    by (rule view_slot_key [OF c m [unfolded k] pos own at], assumption, assumption)+
  then show "view (E\<lparr>en_mem := m\<rparr>) w = (view E w)\<lparr>ga_slot := (slot_view (en_mem E))(sl_EventID sl := (slot_view (en_mem E) (sl_EventID sl))(sl_Number sl := None))\<rparr>"
    by (simp add: view_def)
qed

lemma view_remove:
  assumes c: "core s E w T" and m: "mem_at m = (mem_at (en_mem E))(k := None)" and r: "\<And>e. k \<noteq> receiptKey e"
    and lost: "\<And>en sl. mem_at (en_mem E) k = Some en \<Longrightarrow> en_Value en = VSlot sl \<Longrightarrow>
      sl_Subject sl \<in> fa_erased w \<or> drained w (sl_EventID sl) \<or> TokS (sl_Generation sl) (en_Revision en) \<in> T i"
  shows "spec_move n (view E w) (view (E\<lparr>en_mem := m\<rparr>) w)"
proof (cases "mem_at (en_mem E) k")
  case None
  then have "mem_at m = mem_at (en_mem E)" using m by auto
  then have "view (E\<lparr>en_mem := m\<rparr>) w = view E w" by (simp add: view_def fun_eq_iff event_view_def slot_view_def)
  then show ?thesis by simp
next
  case (Some en)
  note ok = mem_entry(2) [OF c Some]
  show ?thesis
  proof (cases "en_Value en")
    case (VEvent ev)
    with ok have k: "k = eventKey (ev_ID ev)" by simp
    then have at: "event_view m (ev_ID ev) = None" using m by simp
    have "view (E\<lparr>en_mem := m\<rparr>) w = (view E w)\<lparr>ga_event := (event_view (en_mem E))(ev_ID ev := None)\<rparr>"
      using view_event_key [OF m [unfolded k] at] by (simp add: view_def)
    then show ?thesis by (intro spec_moveI [OF spec_step.dissolve [of _ _ "ev_ID ev"]]) (simp add: view_def)
  next
    case (VSlot sl)
    note gone = view_slot_gone [OF c m Some VSlot]
    have "settled (view E w) (sl_EventID sl, sl_Generation sl)"
      using lost [OF Some VSlot] mem_slot(3) [OF c Some VSlot] coreD(4) [OF c] coreD(11) [OF c, of "TokS (sl_Generation sl) (en_Revision en)" i]
      by (auto simp: settled_def view_def drained_def slot_ok_def)
    with gone show ?thesis
      by (intro spec_moveI [OF spec_step.free [of _ "sl_EventID sl" "sl_Number sl" "sl_Generation sl"]]) (simp_all add: view_def)
  next
    case (VReceipt rc)
    with ok r show ?thesis by simp
  next
    case (VIndex ix)
    with ok obtain d where "k = sessionKey d" by auto
    with view_other_key [OF m] have "view (E\<lparr>en_mem := m\<rparr>) w = view E w" by (simp add: view_def)
    then show ?thesis by simp
  next
    case (VText t)
    with ok obtain d where "k = invitationKey d" by auto
    with view_other_key [OF m] have "view (E\<lparr>en_mem := m\<rparr>) w = view E w" by (simp add: view_def)
    then show ?thesis by simp
  qed
qed

lemma view_withdraw:
  assumes c: "core s E w T" and m: "mem_at m = (mem_at (en_mem E))(k := None)"
    and en: "mem_at (en_mem E) k = Some en" "en_Value en = VSlot sl" and t: "TokA (sl_Generation sl) (en_Revision en) \<in> T i"
  shows "spec_move n (view E w) (view (E\<lparr>en_mem := m\<rparr>) (w\<lparr>fa_ret := insert (sl_Generation sl) (fa_ret w)\<rparr>))"
proof -
  let ?g = "sl_Generation sl"
  note gone = view_slot_gone [OF c m en]
  from coreD(11) [OF c t] have le: "\<And>r. gen_at w r ?g \<Longrightarrow> en_Revision en \<le> r" by auto
  have "\<not> confirmed w ?g"
    unfolding confirmed_def using le coreD(6) [OF c] en by (metis antisym gen_at_def latest_def)
  then have "(e, ?g) \<notin> ga_tokens (view E w)" for e
    using coreD(10) [OF c, of "(e, subj e ?g)"] t by (auto simp: view_def signed_ok_def)
  with gone show ?thesis
    by (intro spec_moveI [OF spec_step.withdraw [of _ "sl_EventID sl" "sl_Number sl" ?g]]) (simp_all add: view_def)
qed

end
