(* ===== verification/Reachability.thy ===== *)
theory Reachability
  imports Specification
begin

text \<open>
  Every step of the system keeps the invariant, so it holds in every reachable state, and is a
  move of the abstract machine in the view: one lemma for each kind of operation, then the step
  and the induction.
\<close>

section \<open>Operations\<close>

text \<open>What an operation of call \<open>i\<close> has to show.\<close>

definition advances :: "service \<Rightarrow> env \<Rightarrow> (nat \<Rightarrow> token set) \<Rightarrow> facts \<Rightarrow> nat \<Rightarrow> 'a prog \<Rightarrow> env \<Rightarrow> bool" where
  "advances s E T w i p' E' \<longleftrightarrow> (\<exists>w' T'. core s E' w' (T(i := T')) \<and> fle w w' \<and> safe s anything p' w' T' \<and>
     spec_move (sv_maxCapacity s) (view E w) (view E' w'))"

lemma advancesI: "core s E' w' (T(i := T')) \<Longrightarrow> fle w w' \<Longrightarrow> safe s anything p' w' T' \<Longrightarrow>
  spec_move (sv_maxCapacity s) (view E w) (view E' w') \<Longrightarrow> advances s E T w i p' E'"
  unfolding advances_def by blast

lemma advances_stay:
  assumes "core s E w T" "T' \<subseteq> T i" "safe s anything p' w T'"
  shows "advances s E T w i p' E"
  by (rule advancesI [OF core_less [OF assms(1,2)] fle_refl assms(3) spec_move_refl])

lemma core_later: "core s E w T \<Longrightarrow> later s w w"
  by (rule later_refl, rule coreD(3))

lemma get_reply_mem:
  assumes c: "core s E w T"
  shows "get_reply w k (mem_get (en_mem E) k)"
proof (cases "mem_at (en_mem E) k")
  case None
  then show ?thesis by (simp add: mem.get_eq get_reply_def store_error_def)
next
  case (Some en)
  have "ev_ID ev \<notin> fa_closed w" if "en_Value en = VEvent ev" "ev_State ev \<noteq> Deleting" for ev
  proof
    assume "ev_ID ev \<in> fa_closed w"
    moreover have "k = eventKey (ev_ID ev)" using mem_entry(2) [OF c Some] that(1) by simp
    ultimately show False using coreD(7) [OF c] Some that unfolding closing_def by blast
  qed
  with mem_entry(1) [OF c Some] Some show ?thesis by (simp add: mem.get_eq get_reply_def)
qed

lemma list_reply_mem:
  assumes c: "core s E w T" and xs: "mset xs = mset (mem_list (en_mem E) p)"
  shows "list_reply w p (Inr xs)"
proof -
  have set: "(k, en) \<in> set xs \<longleftrightarrow> prefix p k \<and> mem_at (en_mem E) k = Some en" for k en
    using mem_listing_at [OF coreD(1) [OF c]] mset_eq_setD [OF xs] by simp
  have "\<exists>(k, en) \<in> set xs. \<exists>sl. en_Value en = VSlot sl \<and> sl_EventID sl = e \<and> sl_Generation sl = g"
    if p: "p = slotPrefix e" and g: "(e, g) \<in> fa_adm w" "subj e g \<notin> fa_erased w" "g \<notin> fa_ret w" for e g
  proof -
    from coreD(8) [OF c] g have "live (en_mem E) e g" by (auto simp: admitted_def)
    then obtain k en sl where sl: "mem_at (en_mem E) k = Some en" "en_Value en = VSlot sl" "sl_EventID sl = e" "sl_Generation sl = g"
      by (auto simp: live_def)
    from mem_slot(2) [OF c sl(1,2)] sl p have "(k, en) \<in> set xs" by (auto simp: set)
    with sl show ?thesis by blast
  qed
  with mem_entry(1) [OF c] show ?thesis
    by (auto simp: list_reply_def set)
qed

lemma advance_get:
  assumes c: "core s E w T" and p: "safe s anything (DoGet k f) w (T i)"
  shows "advances s E T w i (f (mem_get (en_mem E) k)) E"
proof -
  from p core_later [OF c] get_reply_mem [OF c, of k] consider
    "safe s anything (f (mem_get (en_mem E) k)) w (T i)"
  | w' T' where "admission w (T i) k (mem_get (en_mem E) k) w' T'" "safe s anything (f (mem_get (en_mem E) k)) w' T'"
    unfolding safe.simps(2) by blast
  then show ?thesis
  proof cases
    case 1
    then show ?thesis by (rule advances_stay [OF c subset_refl])
  next
    case 2
    show ?thesis by (rule advancesI [OF core_admission [OF c 2(1)] fle_admission [OF 2(1)] 2(2) view_admission [OF c 2(1)]])
  qed
qed

lemma advance_get_failed:
  assumes c: "core s E w T" and p: "safe s anything (DoGet k f) w (T i)"
  shows "advances s E T w i (f (Inl (ErrOther e))) E"
proof -
  have "get_reply w k (Inl (ErrOther e))" by (simp add: get_reply_def store_error_def)
  with p core_later [OF c] have "safe s anything (f (Inl (ErrOther e))) w (T i)"
    unfolding safe.simps(2) by (fastforce simp: admission_def)
  then show ?thesis by (rule advances_stay [OF c subset_refl])
qed

lemma create_effect:
  assumes wf: "mem_wf m" and r: "mem_create m k v = (r, m')"
  shows "(r = Inl StoreExists \<and> m' = m) \<or>
    (r = Inr (me_revision m + 1) \<and> mem_at m k = None \<and> mem_wf m' \<and> me_revision m' = me_revision m + 1 \<and>
     mem_at m' = (mem_at m)(k \<mapsto> \<lparr>en_Value = v, en_Revision = me_revision m + 1\<rparr>))"
proof (cases r)
  case (Inl e)
  with mem.create_err [of m k v e m'] r show ?thesis by simp
next
  case (Inr n)
  with mem_revisions(1) [of m k v n m'] mem.create_ok [of m k v n m'] mem.invar_create [OF wf, of k v] r show ?thesis by auto
qed

lemma update_effect:
  assumes wf: "mem_wf m" and r: "mem_update m k v n = (r, m')"
  shows "((r = Inl StoreNotFound \<or> r = Inl StoreConflict) \<and> m' = m) \<or>
    (\<exists>en. r = Inr (me_revision m + 1) \<and> mem_at m k = Some en \<and> en_Revision en = n \<and> mem_wf m' \<and> me_revision m' = me_revision m + 1 \<and>
     mem_at m' = (mem_at m)(k \<mapsto> \<lparr>en_Value = v, en_Revision = me_revision m + 1\<rparr>))"
proof (cases r)
  case (Inl e)
  with mem.update_err [of m k v n e m'] r show ?thesis by auto
next
  case (Inr l)
  with mem_revisions(2) [of m k v n l m'] mem.update_ok [of m k v n l m'] mem.invar_update [OF wf, of k v n] r show ?thesis by auto
qed

lemma remove_effect:
  assumes wf: "mem_wf m" and r: "mem_delete m k = (r, m')"
  shows "(r = Inl StoreNotFound \<and> m' = m) \<or>
    (r = Inr () \<and> mem_wf m' \<and> me_revision m' = me_revision m \<and> mem_at m' = (mem_at m)(k := None))"
proof (cases r)
  case (Inl e)
  with mem.remove_err [of m k e m'] r show ?thesis by auto
next
  case (Inr u)
  with mem_revisions(3) [of m k u m'] mem.remove_ok [of m k u m'] mem.invar_remove [OF wf, of k] r show ?thesis by auto
qed

lemma remove_rev_effect:
  assumes wf: "mem_wf m" and r: "mem_delete_revision m k n = (r, m')"
  shows "((r = Inl StoreNotFound \<or> r = Inl StoreConflict) \<and> m' = m) \<or>
    (\<exists>en. r = Inr () \<and> mem_at m k = Some en \<and> en_Revision en = n \<and> mem_wf m' \<and> me_revision m' = me_revision m \<and>
     mem_at m' = (mem_at m)(k := None))"
proof (cases r)
  case (Inl e)
  with mem.remove_rev_err [of m k n e m'] r show ?thesis by auto
next
  case (Inr u)
  with mem_revisions(4) [of m k n u m'] mem.remove_rev_ok [of m k n u m'] mem.invar_remove_rev [OF wf, of k n] r show ?thesis by auto
qed

lemma advance_create:
  assumes c: "core s E w T" and p: "safe s anything (DoCreate k v f) w (T i)"
    and st: "faulty (mem_create (en_mem E) k v) (en_mem E) r m"
  shows "advances s E T w i (f r) (E\<lparr>en_mem := m\<rparr>)"
proof -
  obtain r0 m0 where rm: "mem_create (en_mem E) k v = (r0, m0)" by fastforce
  let ?n = "me_revision (en_mem E) + 1"
  note p = p [unfolded safe.simps(3), THEN spec, THEN mp [OF _ core_later [OF c]]]
  have ok: "create_ok s w (T i) k v"
    and succ: "safe s anything (f (Inr ?n)) (wrote w ?n k v) (T i - create_needs v \<union> create_gives v ?n)"
    and exists: "safe s anything (f (Inl StoreExists)) w (T i)"
    and err: "safe s anything (f (Inl (ErrOther e))) w (T i - create_needs v)" for e
    using p hist_next [OF c] by blast+
  have same: "E\<lparr>en_mem := en_mem E\<rparr> = E" by simp
  have failed: "advances s E T w i (f (Inl (ErrOther e))) E" for e
    by (rule advances_stay [OF c _ err]) auto
  from create_effect [OF coreD(1) [OF c] rm] show ?thesis
  proof (elim disjE conjE)
    assume "r0 = Inl StoreExists" "m0 = en_mem E"
    with st rm have "m = en_mem E" "r = Inl StoreExists \<or> (\<exists>e. r = Inl (ErrOther e))"
      by (auto elim!: faultyE)
    with exists failed advances_stay [OF c subset_refl] show ?thesis by auto
  next
    assume r0: "r0 = Inr ?n" and none: "mem_at (en_mem E) k = None" and m0: "mem_wf m0" "me_revision m0 = ?n"
      "mem_at m0 = (mem_at (en_mem E))(k \<mapsto> \<lparr>en_Value = v, en_Revision = ?n\<rparr>)"
    let ?T = "T i - create_needs v \<union> create_gives v ?n"
    have mw: "may_write s E w (T i) ?T k v" using none ok by (simp add: may_write_def)
    from core_write [OF c mw refl m0] have c': "core s (E\<lparr>en_mem := m0\<rparr>) (wrote w ?n k v) (T(i := ?T))" .
    note mv = view_write [OF c mw hist_next [OF c] m0(3)]
    have fle: "fle w (wrote w ?n k v)" using hist_next [OF c] by (rule fle_wrote)
    have "later s w (wrote w ?n k v)" using fle coreD(3) [OF c'] by (simp add: later_def)
    then have lost: "safe s anything (f (Inl (ErrOther e))) (wrote w ?n k v) (T i - create_needs v)" for e
      by (rule safe_later [OF err])
    have cl: "core s (E\<lparr>en_mem := m0\<rparr>) (wrote w ?n k v) (T(i := T i - create_needs v))"
      using core_less [OF c', of "T i - create_needs v" i] by auto
    from st rm r0 consider "r = Inr ?n" "m = m0" | e where "r = Inl (ErrOther e)" "m = en_mem E" | e where "r = Inl (ErrOther e)" "m = m0"
      by (auto elim!: faultyE)
    then show ?thesis
    proof cases
      case 1
      with advancesI [OF c' fle succ mv] show ?thesis by simp
    next
      case 2
      with failed show ?thesis by simp
    next
      case 3
      with advancesI [OF cl fle lost mv] show ?thesis by simp
    qed
  qed
qed

lemma advance_update:
  assumes c: "core s E w T" and p: "safe s anything (DoUpdate k v n f) w (T i)"
    and st: "faulty (mem_update (en_mem E) k v n) (en_mem E) r m"
  shows "advances s E T w i (f r) (E\<lparr>en_mem := m\<rparr>)"
proof -
  obtain r0 m0 where rm: "mem_update (en_mem E) k v n = (r0, m0)" by fastforce
  let ?n = "me_revision (en_mem E) + 1"
  note p = p [unfolded safe.simps(4), THEN spec, THEN mp [OF _ core_later [OF c]]]
  have err: "safe s anything (f (Inl e)) w (T i)" if "store_error e" for e
    using p that by blast
  have failed: "advances s E T w i (f (Inl e)) E" if "store_error e" for e
    by (rule advances_stay [OF c subset_refl err [OF that]])
  from update_effect [OF coreD(1) [OF c] rm] show ?thesis
  proof (elim disjE exE conjE)
    fix en
    assume r0: "r0 = Inr ?n" and en: "mem_at (en_mem E) k = Some en" "en_Revision en = n" and m0: "mem_wf m0" "me_revision m0 = ?n"
      "mem_at m0 = (mem_at (en_mem E))(k \<mapsto> \<lparr>en_Value = v, en_Revision = ?n\<rparr>)"
    from mem_entry(1) [OF c en(1)] en(2) have h: "fa_hist w n = Some (k, en_Value en)" by simp
    with p have "update_ok s w k (en_Value en) v" by blast
    with en have mw: "may_write s E w (T i) (T i) k v" by (simp add: may_write_def)
    from core_write [OF c mw refl m0] have c': "core s (E\<lparr>en_mem := m0\<rparr>) (wrote w ?n k v) (T(i := T i))" .
    have succ: "safe s anything (f (Inr ?n)) (wrote w ?n k v) (T i)" using p h hist_next [OF c] by blast
    note mv = view_write [OF c mw hist_next [OF c] m0(3)]
    have fle: "fle w (wrote w ?n k v)" using hist_next [OF c] by (rule fle_wrote)
    have l: "later s w (wrote w ?n k v)" using fle coreD(3) [OF c'] by (simp add: later_def)
    have lost: "safe s anything (f (Inl (ErrOther e))) (wrote w ?n k v) (T i)" for e
      by (rule safe_later [OF err l]) (simp add: store_error_def)
    from st rm r0 consider "r = Inr ?n" "m = m0" | e where "r = Inl (ErrOther e)" "m = en_mem E" | e where "r = Inl (ErrOther e)" "m = m0"
      by (auto elim!: faultyE)
    then show ?thesis
    proof cases
      case 1
      with advancesI [OF c' fle succ mv] show ?thesis by simp
    next
      case 2
      with failed show ?thesis by (simp add: store_error_def)
    next
      case 3
      with advancesI [OF c' fle lost mv] show ?thesis by simp
    qed
  qed (use st rm failed in \<open>auto elim!: faultyE simp: store_error_def\<close>)
qed

lemma advance_delete:
  assumes c: "core s E w T" and p: "safe s anything (DoDelete k f) w (T i)"
    and st: "faulty (mem_delete (en_mem E) k) (en_mem E) r m"
  shows "advances s E T w i (f r) (E\<lparr>en_mem := m\<rparr>)"
proof -
  obtain r0 m0 where rm: "mem_delete (en_mem E) k = (r0, m0)" by fastforce
  note p = p [unfolded safe.simps(5), THEN spec, THEN mp [OF _ core_later [OF c]]]
  have r: "store_error e" if "r = Inl e" for e
    using st rm that remove_effect [OF coreD(1) [OF c] rm] by (auto elim!: faultyE simp: store_error_def)
  with p have cont: "safe s anything (f r) w (T i)" and ok: "delete_ok k" by blast+
  have noslot: False if "mem_at (en_mem E) k = Some en" "en_Value en = VSlot sl" for en sl
    using mem_slot(2) [OF c that] ok by (auto simp: delete_ok_def)
  from st rm have "m = en_mem E \<or> m = m0" by (auto elim!: faultyE)
  then show ?thesis
  proof
    assume "m = en_mem E"
    with advances_stay [OF c subset_refl cont] show ?thesis by simp
  next
    assume m: "m = m0"
    from remove_effect [OF coreD(1) [OF c] rm] show ?thesis
    proof (elim disjE conjE)
      assume m0: "mem_wf m0" "me_revision m0 = me_revision (en_mem E)" "mem_at m0 = (mem_at (en_mem E))(k := None)"
      have "spec_move (sv_maxCapacity s) (view E w) (view (E\<lparr>en_mem := m0\<rparr>) w)"
        by (rule view_remove [OF c m0(3)]) (use ok noslot in \<open>auto simp: delete_ok_def\<close>)
      note mv = this
      from m0 have "core s (E\<lparr>en_mem := m0\<rparr>) w (T(i := T i))"
        by (intro core_remove_plain [OF c]) (use noslot in blast)+
      from advancesI [OF this fle_refl cont mv] m show ?thesis by simp
    qed (use m advances_stay [OF c subset_refl cont] in simp)
  qed
qed

lemma remove_rev_core:
  assumes c: "core s E w T" and ok: "delete_rev_ok w (T i) T' k n"
    and en: "mem_at (en_mem E) k = Some en" "en_Revision en = n"
    and m: "mem_wf m" "mem_at m = (mem_at (en_mem E))(k := None)" "me_revision m = me_revision (en_mem E)"
  shows "\<exists>w'. core s (E\<lparr>en_mem := m\<rparr>) w' (T(i := T')) \<and> fle w w' \<and> spec_move (sv_maxCapacity s) (view E w) (view (E\<lparr>en_mem := m\<rparr>) w')"
proof -
  from ok have sub: "T' \<subseteq> T i" by (simp add: delete_rev_ok_def)
  show ?thesis
  proof (cases "\<exists>sl. en_Value en = VSlot sl \<and> TokA (sl_Generation sl) n \<in> T i \<and> TokA (sl_Generation sl) n \<notin> T'")
    case True
    then obtain sl where sl: "en_Value en = VSlot sl" "TokA (sl_Generation sl) (en_Revision en) \<in> T i"
      "TokA (sl_Generation sl) (en_Revision en) \<notin> T'"
      using en(2) by auto
    from core_withdraw [OF c m sub en(1) sl] view_withdraw [OF c m(2) en(1) sl(1,2)] show ?thesis by (force simp: fle_def)
  next
    case False
    from ok mem_entry(1) [OF c en(1)] en(2) have sl: "sl_Subject sl \<in> fa_erased w \<or> drained w (sl_EventID sl) \<or>
        (\<exists>t \<in> {TokS (sl_Generation sl) n, TokA (sl_Generation sl) n}. t \<in> T i \<and> t \<notin> T')" if "en_Value en = VSlot sl" for sl
      using that by (auto simp: delete_rev_ok_def)
    have lost: "sl_Subject sl \<in> fa_erased w \<or> drained w (sl_EventID sl) \<or>
        TokS (sl_Generation sl) (en_Revision en') \<in> T i \<and> TokS (sl_Generation sl) (en_Revision en') \<notin> T'"
      if "mem_at (en_mem E) k = Some en'" "en_Value en' = VSlot sl" for en' sl
      using that en sl False by auto
    have k: "k \<noteq> receiptKey e" for e
      using ok mem_entry [OF c en(1)] en(2) by (auto simp: delete_rev_ok_def entry_ok_def split: val.splits)
    have "spec_move (sv_maxCapacity s) (view E w) (view (E\<lparr>en_mem := m\<rparr>) w)"
      by (rule view_remove [OF c m(2) k]) (use lost in blast)
    with core_remove_plain [OF c m sub lost] show ?thesis using fle_refl by blast
  qed
qed

lemma advance_delete_rev:
  assumes c: "core s E w T" and p: "safe s anything (DoDeleteRev k n f) w (T i)"
    and st: "faulty (mem_delete_revision (en_mem E) k n) (en_mem E) r m"
  shows "advances s E T w i (f r) (E\<lparr>en_mem := m\<rparr>)"
proof -
  obtain r0 m0 where rm: "mem_delete_revision (en_mem E) k n = (r0, m0)" by fastforce
  have r: "store_error e" if "r = Inl e" for e
    using st rm that remove_rev_effect [OF coreD(1) [OF c] rm] by (auto elim!: faultyE simp: store_error_def)
  from p core_later [OF c] obtain T' where ok: "delete_rev_ok w (T i) T' k n"
    and cont: "safe s anything (f r) w T'"
    unfolding safe.simps(6) using r by blast
  from ok have sub: "T' \<subseteq> T i" by (simp add: delete_rev_ok_def)
  from st rm have "m = en_mem E \<or> m = m0" by (auto elim!: faultyE)
  then show ?thesis
  proof
    assume "m = en_mem E"
    with advances_stay [OF c sub cont] show ?thesis by simp
  next
    assume m: "m = m0"
    from remove_rev_effect [OF coreD(1) [OF c] rm] show ?thesis
    proof (elim disjE exE conjE)
      fix en assume "mem_at (en_mem E) k = Some en" "en_Revision en = n" "mem_wf m0"
        "me_revision m0 = me_revision (en_mem E)" "mem_at m0 = (mem_at (en_mem E))(k := None)"
      with remove_rev_core [OF c ok] obtain w' where w': "core s (E\<lparr>en_mem := m\<rparr>) w' (T(i := T'))" "fle w w'"
        "spec_move (sv_maxCapacity s) (view E w) (view (E\<lparr>en_mem := m\<rparr>) w')"
        unfolding m by blast
      then have "later s w w'" by (simp add: later_def coreD(3))
      from advancesI [OF w'(1,2) safe_later [OF cont this] w'(3)] show ?thesis .
    qed (use m advances_stay [OF c sub cont] in simp_all)
  qed
qed

lemma advance_rand:
  assumes c: "core s E w T" and p: "safe s anything (DoRand f) w (T i)" and d: "digest s (b64url bs) \<notin> en_digests E"
  shows "advances s E T w i (f (Inr bs)) (E\<lparr>en_digests := insert (digest s (b64url bs)) (en_digests E)\<rparr>)"
proof -
  from p core_later [OF c] have "safe s anything (f (Inr bs)) w (insert (TokD (digest s (b64url bs))) (T i))"
    unfolding safe.simps by blast
  from advancesI [OF core_digest [OF c d] fle_refl this] show ?thesis by simp
qed

lemma advance_uuid:
  assumes c: "core s E w T" and p: "safe s anything (DoUuid f) w (T i)" and u: "uuid_format u" "u \<notin> en_uuids E"
  shows "advances s E T w i (f u) (E\<lparr>en_uuids := insert u (en_uuids E)\<rparr>)"
proof -
  from p core_later [OF c] u(1) have "safe s anything (f u) w (insert (TokU u) (T i))"
    unfolding safe.simps by blast
  from advancesI [OF core_uuid [OF c u(2)] fle_refl this] show ?thesis by simp
qed

lemma advance_cleanup:
  assumes c: "core s E w T" and p: "safe s anything (DoCleanup q f) w (T i)"
  shows "advances s E T w i (f (Inr n)) (E\<lparr>en_erased := en_erased E \<union> acknowledged q n\<rparr>)"
proof -
  let ?w = "w\<lparr>fa_erased := fa_erased w \<union> acknowledged q n\<rparr>"
  have e: "erase w q (Inr n) = ?w" by (simp add: erase_def)
  have "facts_ok s ?w"
    by (rule facts_ok_grow [OF coreD(3) [OF c]]) (auto simp: fle_def)
  from core_erase [OF c this] have c': "core s (E\<lparr>en_erased := en_erased E \<union> acknowledged q n\<rparr>) ?w (T(i := T i))" by simp
  from p core_later [OF c] have "safe s anything (f (Inr n)) ?w (T i)"
    unfolding safe.simps e [symmetric] by blast
  from advancesI [OF c' _ this view_erase] show ?thesis by (simp add: fle_def)
qed

lemma advance_cleanup_failed:
  assumes c: "core s E w T" and p: "safe s anything (DoCleanup q f) w (T i)"
  shows "advances s E T w i (f (Inl (ErrOther e))) E"
proof (rule advances_stay [OF c subset_refl])
  have "erase w q (Inl (ErrOther e)) = w" by (simp add: erase_def)
  with p core_later [OF c] show "safe s anything (f (Inl (ErrOther e))) w (T i)"
    unfolding safe.simps store_error_def by (metis sum.inject(1))
qed

lemma advance_sign:
  assumes c: "core s E w T" and p: "safe s anything (DoSign q f) w (T i)"
  shows "advances s E T w i (f (Inr token)) (E\<lparr>en_signed := insert (jc_EventID q, jc_Subject q) (en_signed E)\<rparr>)"
    and "advances s E T w i (f (Inl (ErrOther e))) E"
proof -
  from p core_later [OF c] obtain T' where ok: "sign_ok w (T i) T' q" and cont: "\<And>r. safe s anything (f r) w T'"
    unfolding safe.simps by blast
  from advancesI [OF core_sign [OF c ok] fle_refl cont view_sign [OF c ok]]
  show "advances s E T w i (f (Inr token)) (E\<lparr>en_signed := insert (jc_EventID q, jc_Subject q) (en_signed E)\<rparr>)" .
  from ok have "T' \<subseteq> T i" by (simp add: sign_ok_def)
  from advances_stay [OF c this cont] show "advances s E T w i (f (Inl (ErrOther e))) E" .
qed

lemma advance_other:
  assumes c: "core s E w T"
  shows "safe s anything (DoNow f1) w (T i) \<Longrightarrow> advances s E T w i (f1 t) E"
    and "safe s anything (DoCtx f2) w (T i) \<Longrightarrow> advances s E T w i (f2 r) E"
    and "safe s anything (DoRand f3) w (T i) \<Longrightarrow> advances s E T w i (f3 (Inl (ErrOther e))) E"
    and "safe s anything (DoList p f4) w (T i) \<Longrightarrow> mset xs = mset (mem_list (en_mem E) p) \<Longrightarrow> advances s E T w i (f4 (Inr xs)) E"
    and "safe s anything (DoList p f4) w (T i) \<Longrightarrow> advances s E T w i (f4 (Inl (ErrOther e))) E"
    and "safe s anything (DoUpdate k v n f5) w (T i) \<Longrightarrow> advances s E T w i (f5 (Inl StoreConflict)) E"
    and "safe s anything (DoDelete k f6) w (T i) \<Longrightarrow> advances s E T w i (f6 (Inr ())) E"
  using core_later [OF c] list_reply_mem [OF c]
  by (rule_tac [!] advances_stay [OF c subset_refl]) (auto simp: safe.simps store_error_def list_reply_def)

lemma advance_delete_rev_gone:
  assumes c: "core s E w T" and p: "safe s anything (DoDeleteRev k n f) w (T i)"
  shows "advances s E T w i (f (Inl StoreConflict)) E"
proof -
  from p core_later [OF c] obtain T' where "delete_rev_ok w (T i) T' k n" "safe s anything (f (Inl StoreConflict)) w T'"
    unfolding safe.simps store_error_def by blast
  then show ?thesis by (intro advances_stay [OF c]) (simp_all add: delete_rev_ok_def)
qed

lemma advance_op:
  assumes st: "op_step s p E p' E'" and c: "core s E w T" and p: "safe s anything p w (T i)"
  shows "advances s E T w i p' E'"
  using st c p
proof cases
  case (get k f) then show ?thesis using advance_get [OF c] p by simp
next
  case (get_failed k f e) then show ?thesis using advance_get_failed [OF c] p by simp
next
  case (create k v r m f) then show ?thesis using advance_create [OF c] p by simp
next
  case (update k v n r m f) then show ?thesis using advance_update [OF c] p by simp
next
  case (delete k r m f) then show ?thesis using advance_delete [OF c] p by simp
next
  case (delete_rev k n r m f) then show ?thesis using advance_delete_rev [OF c] p by simp
next
  case (delete_rev_gone k f n) then show ?thesis using advance_delete_rev_gone [OF c] p by simp
next
  case (rand bs f) then show ?thesis using advance_rand [OF c] p by simp
next
  case (uuid u f) then show ?thesis using advance_uuid [OF c] p by simp
next
  case (cleanup q f n) then show ?thesis using advance_cleanup [OF c] p by simp
next
  case (cleanup_failed q f e) then show ?thesis using advance_cleanup_failed [OF c] p by simp
next
  case (sign q f token) then show ?thesis using advance_sign(1) [OF c] p by simp
next
  case (sign_failed q f e) then show ?thesis using advance_sign(2) [OF c] p by simp
qed (use advance_other [OF c] p in simp_all)

section \<open>Steps and reachable states\<close>

lemma inv_step:
  assumes st: "sys_step s S S'" and inv: "sys_inv s S w T"
  shows "\<exists>w' T'. sys_inv s S' w' T' \<and> fle w w' \<and> spec_move (sv_maxCapacity s) (view (sy_env S) w) (view (sy_env S') w')"
  using st
proof cases
  case (start i cl)
  with inv have "sys_inv s S' w T" by (auto simp: sys_inv_def intro: safe_serve)
  moreover have "view (sy_env S') w = view (sy_env S) w" by (simp add: start)
  ultimately show ?thesis using fle_refl spec_move_refl by metis
next
  case (move i p p' E')
  from inv move(2) have c: "core s (sy_env S) w T" and p: "safe s anything p w (T i)" by (auto simp: sys_inv_def)
  from advance_op [OF move(3) c p] obtain w' T' where w': "core s E' w' (T(i := T'))" "fle w w'" "safe s anything p' w' T'"
    "spec_move (sv_maxCapacity s) (view (sy_env S) w) (view E' w')"
    unfolding advances_def by blast
  then have "later s w w'" by (simp add: later_def coreD(3))
  with inv w' have "sys_inv s S' w' (T(i := T'))"
    unfolding move(1) by (auto simp: sys_inv_def intro: safe_later)
  moreover have "spec_move (sv_maxCapacity s) (view (sy_env S) w) (view (sy_env S') w')" using w'(4) by (simp add: move(1))
  ultimately show ?thesis using w'(2) by blast
qed

definition no_facts :: facts where
  "no_facts = \<lparr>fa_hist = (\<lambda>_. None), fa_erased = {}, fa_adm = {}, fa_closed = {}, fa_ret = {}\<rparr>"

lemma inv_init: "sys_inv s init_sys no_facts (\<lambda>_. {})"
proof -
  have "core s empty_env no_facts (\<lambda>_. {})"
    by (rule coreI)
      (auto simp: empty_env_def no_facts_def agree_def facts_ok_def origin_def latest_def closing_def admitted_def
        withdrawn_def slot_at_def event_at_def)
  then show ?thesis by (simp add: sys_inv_def init_sys_def)
qed

text \<open>The machine follows the system from any state to any later one.\<close>

lemma inv_follows:
  "steps s S S' \<Longrightarrow> sys_inv s S w T \<Longrightarrow> \<exists>w' T'. sys_inv s S' w' T' \<and> fle w w' \<and>
     spec_steps (sv_maxCapacity s) (view (sy_env S) w) (view (sy_env S') w')"
proof (induction rule: steps.induct)
  case (stay S)
  then show ?case using fle_refl spec_steps.none by blast
next
  case (onward S S' S'')
  then obtain w' T' where w': "sys_inv s S' w' T'" "fle w w'" "spec_steps (sv_maxCapacity s) (view (sy_env S) w) (view (sy_env S') w')" by blast
  from inv_step [OF onward.hyps(2) w'(1)] w'(2,3) show ?case by (blast intro: fle_trans spec_steps_move)
qed

lemma inv_steps: "steps s S S' \<Longrightarrow> sys_inv s S w T \<Longrightarrow> \<exists>w' T'. sys_inv s S' w' T' \<and> fle w w'"
  using inv_follows by blast

lemma view_init: "view (sy_env init_sys) no_facts = no_access"
  by (auto simp: view_def init_sys_def empty_env_def no_facts_def no_access_def fun_eq_iff event_view_def slot_view_def
      event_at_def gen_at_def slot_at_def)

lemma reachable_inv: "reachable s S \<Longrightarrow> \<exists>w T. sys_inv s S w T"
  unfolding reachable_def using inv_steps [OF _ inv_init] by blast

end
