(* ===== verification/Sequential.thy ===== *)
theory Sequential
  imports Reachability
begin

text \<open>
  The two semantics agree: what \<open>run\<close> computes for one call alone is what some interleaving
  of the concurrent system does, in which the call's operations follow each other without
  faults. So every property of reachable states holds after any sequence of sequential runs.
\<close>

section \<open>Worlds and environments\<close>

text \<open>
  The promises of the environment, for the replies a world holds in store; of the UUIDs, for
  the first \<open>N\<close>.
\<close>

definition fair :: "service \<Rightarrow> nat \<Rightarrow> world \<Rightarrow> bool" where
  "fair s N w \<longleftrightarrow>
     (\<forall>n < N. uuid_format (w_uuid w n)) \<and> inj_on (w_uuid w) {..<N} \<and>
     (\<forall>n bs. w_rand w n = Inr bs \<longrightarrow> length bs = 32) \<and>
     (\<forall>m n bs cs. w_rand w m = Inr bs \<longrightarrow> w_rand w n = Inr cs \<longrightarrow> digest s (b64url bs) = digest s (b64url cs) \<longrightarrow> m = n) \<and>
     (\<forall>n e. w_rand w n = Inl e \<longrightarrow> (\<exists>m. e = ErrOther m)) \<and>
     (\<forall>q e. w_cleaner w q = Inl e \<longrightarrow> (\<exists>m. e = ErrOther m)) \<and>
     (\<forall>q e. w_signer w q = Inl e \<longrightarrow> (\<exists>m. e = ErrOther m))"

definition erased_by :: "world \<Rightarrow> string set" where
  "erased_by w = (\<Union>q \<in> set (w_cleanups w). case w_cleaner w q of Inl _ \<Rightarrow> {} | Inr n \<Rightarrow> acknowledged q n)"

definition signed_by :: "world \<Rightarrow> (string \<times> string) set" where
  "signed_by w = {(jc_EventID q, jc_Subject q) | q. q \<in> set (w_signed w) \<and> (\<exists>token. w_signer w q = Inr token)}"

definition digests_of :: "service \<Rightarrow> world \<Rightarrow> nat \<Rightarrow> string set" where
  "digests_of s w k = {d. \<exists>n bs. n < k \<and> w_rand w n = Inr bs \<and> d = digest s (b64url bs)}"

definition matches :: "service \<Rightarrow> world \<Rightarrow> env \<Rightarrow> bool" where
  "matches s w E \<longleftrightarrow> en_mem E = w_mem w \<and> en_uuids E \<subseteq> w_uuid w ` {..<w_uuids w} \<and>
     en_digests E \<subseteq> digests_of s w (w_rands w) \<and>
     en_erased E = erased_by w \<and> en_signed E = signed_by w"

lemma fairD:
  assumes "fair s N w"
  shows "n < N \<Longrightarrow> uuid_format (w_uuid w n)" "m < N \<Longrightarrow> n < N \<Longrightarrow> w_uuid w m = w_uuid w n \<Longrightarrow> m = n" "w_rand w n = Inr bs \<Longrightarrow> length bs = 32"
    "w_rand w m = Inr bs \<Longrightarrow> w_rand w n = Inr cs \<Longrightarrow> digest s (b64url bs) = digest s (b64url cs) \<Longrightarrow> m = n"
    "w_rand w n = Inl e \<Longrightarrow> \<exists>m. e = ErrOther m" "w_cleaner w q = Inl e \<Longrightarrow> \<exists>m. e = ErrOther m"
    "w_signer w j = Inl e \<Longrightarrow> \<exists>m. e = ErrOther m"
  using assms unfolding fair_def inj_on_def by blast+

lemma fair_upd [simp]:
  "fair s N (w\<lparr>w_mem := m\<rparr>) = fair s N w" "fair s N (w\<lparr>w_ticks := t\<rparr>) = fair s N w" "fair s N (w\<lparr>w_rands := r\<rparr>) = fair s N w"
  "fair s N (w\<lparr>w_uuids := u\<rparr>) = fair s N w" "fair s N (w\<lparr>w_cleanups := qs\<rparr>) = fair s N w" "fair s N (w\<lparr>w_signed := js\<rparr>) = fair s N w"
  by (simp_all add: fair_def)

lemma by_upd [simp]:
  "erased_by (w\<lparr>w_mem := m\<rparr>) = erased_by w" "signed_by (w\<lparr>w_mem := m\<rparr>) = signed_by w"
  "erased_by (w\<lparr>w_ticks := t\<rparr>) = erased_by w" "signed_by (w\<lparr>w_ticks := t\<rparr>) = signed_by w"
  "erased_by (w\<lparr>w_rands := r\<rparr>) = erased_by w" "signed_by (w\<lparr>w_rands := r\<rparr>) = signed_by w"
  "erased_by (w\<lparr>w_uuids := u\<rparr>) = erased_by w" "signed_by (w\<lparr>w_uuids := u\<rparr>) = signed_by w"
  "signed_by (w\<lparr>w_cleanups := qs\<rparr>) = signed_by w" "erased_by (w\<lparr>w_signed := js\<rparr>) = erased_by w"
  by (simp_all add: erased_by_def signed_by_def)

lemma digests_upd [simp]:
  "digests_of s (w\<lparr>w_mem := m\<rparr>) = digests_of s w" "digests_of s (w\<lparr>w_ticks := t\<rparr>) = digests_of s w"
  "digests_of s (w\<lparr>w_rands := r\<rparr>) = digests_of s w" "digests_of s (w\<lparr>w_uuids := u\<rparr>) = digests_of s w"
  "digests_of s (w\<lparr>w_cleanups := qs\<rparr>) = digests_of s w" "digests_of s (w\<lparr>w_signed := js\<rparr>) = digests_of s w"
  by (simp_all add: digests_of_def fun_eq_iff)

lemma digests_mono: "digests_of s w k \<subseteq> digests_of s w (Suc k)"
  by (auto simp: digests_of_def intro: less_SucI)

lemma digests_Suc: "w_rand w k = Inr bs \<Longrightarrow> digest s (b64url bs) \<in> digests_of s w (Suc k)"
  by (auto simp: digests_of_def)

text \<open>One operation of a run.\<close>

definition traced :: "service \<Rightarrow> 'a prog \<Rightarrow> world \<Rightarrow> env \<Rightarrow> 'a prog \<Rightarrow> world \<Rightarrow> bool" where
  "traced s p w E p' w' \<longleftrightarrow> (\<exists>E'. op_step s p E p' E' \<and> matches s w' E')"

lemma traced_store:
  assumes m: "matches s w E"
  shows "traced s (DoGet k f) w E (f (mem_get (w_mem w) k)) w"
    and "mem_create (w_mem w) k v = (r1, m1) \<Longrightarrow> traced s (DoCreate k v f1) w E (f1 r1) (w\<lparr>w_mem := m1\<rparr>)"
    and "mem_update (w_mem w) k v n = (r2, m2) \<Longrightarrow> traced s (DoUpdate k v n f2) w E (f2 r2) (w\<lparr>w_mem := m2\<rparr>)"
    and "mem_delete (w_mem w) k = (r3, m3) \<Longrightarrow> traced s (DoDelete k f3) w E (f3 r3) (w\<lparr>w_mem := m3\<rparr>)"
    and "mem_delete_revision (w_mem w) k n = (r4, m4) \<Longrightarrow> traced s (DoDeleteRev k n f4) w E (f4 r4) (w\<lparr>w_mem := m4\<rparr>)"
    and "traced s (DoList p f5) w E (f5 (Inr (mem_list (w_mem w) p))) w"
proof -
  from m have e: "en_mem E = w_mem w" by (simp add: matches_def)
  have upd: "matches s (w\<lparr>w_mem := m'\<rparr>) (E\<lparr>en_mem := m'\<rparr>)" for m' using m by (simp add: matches_def)
  show "traced s (DoGet k f) w E (f (mem_get (w_mem w) k)) w"
    unfolding traced_def using op_step.get [of s k f E] m e by auto
  show "traced s (DoCreate k v f1) w E (f1 r1) (w\<lparr>w_mem := m1\<rparr>)" if "mem_create (w_mem w) k v = (r1, m1)"
    unfolding traced_def using op_step.create [of E k v r1 m1 s f1] upd e that by (auto intro: faulty.answered)
  show "traced s (DoUpdate k v n f2) w E (f2 r2) (w\<lparr>w_mem := m2\<rparr>)" if "mem_update (w_mem w) k v n = (r2, m2)"
    unfolding traced_def using op_step.update [of E k v n r2 m2 s f2] upd e that by (auto intro: faulty.answered)
  show "traced s (DoDelete k f3) w E (f3 r3) (w\<lparr>w_mem := m3\<rparr>)" if "mem_delete (w_mem w) k = (r3, m3)"
    unfolding traced_def using op_step.delete [of E k r3 m3 s f3] upd e that by (auto intro: faulty.answered)
  show "traced s (DoDeleteRev k n f4) w E (f4 r4) (w\<lparr>w_mem := m4\<rparr>)" if "mem_delete_revision (w_mem w) k n = (r4, m4)"
    unfolding traced_def using op_step.delete_rev [of E k n r4 m4 s f4] upd e that by (auto intro: faulty.answered)
  show "traced s (DoList p f5) w E (f5 (Inr (mem_list (w_mem w) p))) w"
    unfolding traced_def using op_step.list [of "mem_list (w_mem w) p" E p s f5] m e by auto
qed

lemma traced_rand:
  assumes f: "fair s N w" and m: "matches s w E"
  shows "traced s (DoRand f) w E (f (w_rand w (w_rands w))) (w\<lparr>w_rands := w_rands w + 1\<rparr>)"
proof (cases "w_rand w (w_rands w)")
  case (Inl e)
  then obtain x where "e = ErrOther x" using fairD(5-7) [OF f] by blast
  moreover have "matches s (w\<lparr>w_rands := w_rands w + 1\<rparr>) E" using m digests_mono by (fastforce simp: matches_def)
  ultimately show ?thesis using Inl unfolding traced_def by (auto intro: op_step.rand_failed)
next
  case (Inr bs)
  then have len: "length bs = 32" by (rule fairD(3) [OF f])
  have fresh: "digest s (b64url bs) \<notin> en_digests E"
  proof
    assume "digest s (b64url bs) \<in> en_digests E"
    with m obtain n cs where n: "n < w_rands w" "w_rand w n = Inr cs" "digest s (b64url bs) = digest s (b64url cs)"
      unfolding matches_def digests_of_def by blast
    from fairD(4) [OF f Inr n(2,3)] have "w_rands w = n" .
    with n(1) show False by simp
  qed
  have "matches s (w\<lparr>w_rands := w_rands w + 1\<rparr>) (E\<lparr>en_digests := insert (digest s (b64url bs)) (en_digests E)\<rparr>)"
    using m digests_Suc [OF Inr] digests_mono [of s w "w_rands w"] by (auto simp: matches_def)
  with op_step.rand [OF len fresh, of f] Inr show ?thesis unfolding traced_def by auto
qed

lemma traced_uuid:
  assumes f: "fair s N w" and m: "matches s w E" and N: "w_uuids w < N"
  shows "traced s (DoUuid f) w E (f (w_uuid w (w_uuids w))) (w\<lparr>w_uuids := w_uuids w + 1\<rparr>)"
proof -
  let ?u = "w_uuid w (w_uuids w)"
  from m have sub: "en_uuids E \<subseteq> w_uuid w ` {..<w_uuids w}" by (simp add: matches_def)
  have "?u \<notin> en_uuids E"
  proof
    assume "?u \<in> en_uuids E"
    with sub obtain n where "n < w_uuids w" "?u = w_uuid w n" by blast
    with fairD(2) [OF f N, of n] N show False by simp
  qed
  with fairD(1) [OF f N] have st: "op_step s (DoUuid f) E (f ?u) (E\<lparr>en_uuids := insert ?u (en_uuids E)\<rparr>)" by (rule op_step.uuid)
  have "insert ?u (en_uuids E) \<subseteq> w_uuid w ` {..<w_uuids w + 1}" using sub by (auto simp: lessThan_Suc)
  with m have "matches s (w\<lparr>w_uuids := w_uuids w + 1\<rparr>) (E\<lparr>en_uuids := insert ?u (en_uuids E)\<rparr>)"
    by (simp add: matches_def)
  with st show ?thesis unfolding traced_def by blast
qed

lemma traced_cleanup:
  assumes f: "fair s N w" and m: "matches s w E"
  shows "traced s (DoCleanup q f) w E (f (w_cleaner w q)) (w\<lparr>w_cleanups := w_cleanups w @ [q]\<rparr>)"
proof (cases "w_cleaner w q")
  case (Inl e)
  then obtain x where "e = ErrOther x" using fairD(5-7) [OF f] by blast
  moreover have "matches s (w\<lparr>w_cleanups := w_cleanups w @ [q]\<rparr>) E" using m Inl by (simp add: matches_def erased_by_def)
  ultimately show ?thesis using Inl unfolding traced_def by (auto intro: op_step.cleanup_failed)
next
  case (Inr n)
  have "matches s (w\<lparr>w_cleanups := w_cleanups w @ [q]\<rparr>) (E\<lparr>en_erased := en_erased E \<union> acknowledged q n\<rparr>)"
    using m Inr by (simp add: matches_def erased_by_def Un_commute)
  with op_step.cleanup [of s q f E n] Inr show ?thesis unfolding traced_def by auto
qed

lemma traced_sign:
  assumes f: "fair s N w" and m: "matches s w E"
  shows "traced s (DoSign q f) w E (f (w_signer w q)) (w\<lparr>w_signed := w_signed w @ [q]\<rparr>)"
proof (cases "w_signer w q")
  case (Inl e)
  then obtain x where "e = ErrOther x" using fairD(5-7) [OF f] by blast
  moreover have "signed_by (w\<lparr>w_signed := w_signed w @ [q]\<rparr>) = signed_by w" using Inl by (auto simp: signed_by_def)
  ultimately show ?thesis using Inl m unfolding traced_def by (auto simp: matches_def intro: op_step.sign_failed)
next
  case (Inr token)
  have "signed_by (w\<lparr>w_signed := w_signed w @ [q]\<rparr>) = insert (jc_EventID q, jc_Subject q) (signed_by w)"
    using Inr by (auto simp: signed_by_def)
  with m have "matches s (w\<lparr>w_signed := w_signed w @ [q]\<rparr>) (E\<lparr>en_signed := insert (jc_EventID q, jc_Subject q) (en_signed E)\<rparr>)"
    by (simp add: matches_def)
  with op_step.sign [of s q f E token] Inr show ?thesis unfolding traced_def by auto
qed

lemma traced_other:
  assumes m: "matches s w E"
  shows "traced s (DoNow f1) w E (f1 (w_clock w (w_ticks w))) (w\<lparr>w_ticks := w_ticks w + 1\<rparr>)"
    and "traced s (DoCtx f2) w E (f2 (w_ctx w)) w"
  using m unfolding traced_def by (auto simp: matches_def intro: op_step.now op_step.ctx)

section \<open>Runs are traces\<close>

text \<open>The call \<open>i\<close> runs to its end from the world \<open>w\<close>.\<close>

definition completes :: "service \<Rightarrow> sys \<Rightarrow> nat \<Rightarrow> reply prog \<Rightarrow> world \<Rightarrow> bool" where
  "completes s S i p w \<longleftrightarrow>
     (\<exists>E'. steps s S (S\<lparr>sy_env := E', sy_pool := (sy_pool S)(i \<mapsto> Ret (fst (run p w)))\<rparr>) \<and> matches s (snd (run p w)) E')"

lemma completes_step:
  assumes p: "sy_pool S i = Some p" and t: "traced s p w (sy_env S) p' w'" and r: "run p w = run p' w'"
    and IH: "\<And>S'. sy_pool S' i = Some p' \<Longrightarrow> matches s w' (sy_env S') \<Longrightarrow> completes s S' i p' w'"
  shows "completes s S i p w"
proof -
  from t obtain E where E: "op_step s p (sy_env S) p' E" "matches s w' E" by (auto simp: traced_def)
  let ?S = "S\<lparr>sy_env := E, sy_pool := (sy_pool S)(i \<mapsto> p')\<rparr>"
  from sys_step.move [OF p E(1)] have one: "steps s S ?S" by (rule steps.onward [OF steps.stay])
  from IH [of ?S] E(2) obtain E' where E': "steps s ?S (?S\<lparr>sy_env := E', sy_pool := (sy_pool ?S)(i \<mapsto> Ret (fst (run p' w')))\<rparr>)"
    "matches s (snd (run p' w')) E'"
    by (auto simp: completes_def)
  from steps_trans [OF one E'(1)] E'(2) r show ?thesis by (auto simp: completes_def)
qed

lemma run_uuids: "w_uuids w \<le> w_uuids (snd (run p w))"
proof (induction p arbitrary: w)
  case (DoCreate k v f)
  from DoCreate [OF rangeI, where w = "w\<lparr>w_mem := _\<rparr>"] show ?case by (auto split: prod.splits)
next
  case (DoUpdate k v n f)
  from DoUpdate [OF rangeI, where w = "w\<lparr>w_mem := _\<rparr>"] show ?case by (auto split: prod.splits)
next
  case (DoDelete k f)
  from DoDelete [OF rangeI, where w = "w\<lparr>w_mem := _\<rparr>"] show ?case by (auto split: prod.splits)
next
  case (DoDeleteRev k n f)
  from DoDeleteRev [OF rangeI, where w = "w\<lparr>w_mem := _\<rparr>"] show ?case by (auto split: prod.splits)
next
  case (DoNow f)
  from DoNow [OF rangeI, where w = "w\<lparr>w_ticks := _\<rparr>"] show ?case by auto
next
  case (DoRand f)
  from DoRand [OF rangeI, where w = "w\<lparr>w_rands := _\<rparr>"] show ?case by auto
next
  case (DoUuid f)
  from DoUuid [OF rangeI, where w = "w\<lparr>w_uuids := w_uuids w + 1\<rparr>"] show ?case by (auto dest: Suc_leD)
next
  case (DoCleanup q f)
  from DoCleanup [OF rangeI, where w = "w\<lparr>w_cleanups := _\<rparr>"] show ?case by auto
next
  case (DoSign q f)
  from DoSign [OF rangeI, where w = "w\<lparr>w_signed := _\<rparr>"] show ?case by auto
qed auto

lemma run_completes:
  "sy_pool S i = Some p \<Longrightarrow> fair s N w \<Longrightarrow> matches s w (sy_env S) \<Longrightarrow> w_uuids (snd (run p w)) \<le> N \<Longrightarrow> completes s S i p w"
proof (induction p arbitrary: w S)
  case (Ret x)
  then have "S\<lparr>sy_env := sy_env S, sy_pool := (sy_pool S)(i \<mapsto> Ret x)\<rparr> = S"
    by (cases S) (auto simp: fun_upd_idem)
  with Ret.prems(3) steps.stay [of s S] show ?case by (auto simp: completes_def intro!: exI [of _ "sy_env S"])
next
  case (DoGet k f)
  show ?case
    by (rule completes_step [OF DoGet.prems(1) traced_store(1) [OF DoGet.prems(3)]]) (use DoGet in auto)
next
  case (DoCreate k v f)
  obtain r m where rm: "mem_create (w_mem w) k v = (r, m)" by fastforce
  show ?case
    by (rule completes_step [OF DoCreate.prems(1) traced_store(2) [OF DoCreate.prems(3) rm]]) (use DoCreate rm in auto)
next
  case (DoUpdate k v n f)
  obtain r m where rm: "mem_update (w_mem w) k v n = (r, m)" by fastforce
  show ?case
    by (rule completes_step [OF DoUpdate.prems(1) traced_store(3) [OF DoUpdate.prems(3) rm]]) (use DoUpdate rm in auto)
next
  case (DoDelete k f)
  obtain r m where rm: "mem_delete (w_mem w) k = (r, m)" by fastforce
  show ?case
    by (rule completes_step [OF DoDelete.prems(1) traced_store(4) [OF DoDelete.prems(3) rm]]) (use DoDelete rm in auto)
next
  case (DoDeleteRev k n f)
  obtain r m where rm: "mem_delete_revision (w_mem w) k n = (r, m)" by fastforce
  show ?case
    by (rule completes_step [OF DoDeleteRev.prems(1) traced_store(5) [OF DoDeleteRev.prems(3) rm]]) (use DoDeleteRev rm in auto)
next
  case (DoList q f)
  show ?case
    by (rule completes_step [OF DoList.prems(1) traced_store(6) [OF DoList.prems(3)]]) (use DoList in auto)
next
  case (DoNow f)
  show ?case
    by (rule completes_step [OF DoNow.prems(1) traced_other(1) [OF DoNow.prems(3)]]) (use DoNow in auto)
next
  case (DoRand f)
  show ?case
    by (rule completes_step [OF DoRand.prems(1) traced_rand [OF DoRand.prems(2,3)]]) (use DoRand in auto)
next
  case (DoUuid f)
  have "w_uuids w < N"
    using run_uuids [of "w\<lparr>w_uuids := w_uuids w + 1\<rparr>" "f (w_uuid w (w_uuids w))"] DoUuid.prems(4) by simp
  then show ?case
    by (intro completes_step [OF DoUuid.prems(1) traced_uuid [OF DoUuid.prems(2,3)]]) (use DoUuid in auto)
next
  case (DoCleanup q f)
  show ?case
    by (rule completes_step [OF DoCleanup.prems(1) traced_cleanup [OF DoCleanup.prems(2,3)]]) (use DoCleanup in auto)
next
  case (DoSign q f)
  show ?case
    by (rule completes_step [OF DoSign.prems(1) traced_sign [OF DoSign.prems(2,3)]]) (use DoSign in auto)
next
  case (DoCtx f)
  show ?case
    by (rule completes_step [OF DoCtx.prems(1) traced_other(2) [OF DoCtx.prems(3)]]) (use DoCtx in auto)
qed

lemma serve_completes:
  assumes S: "sy_pool S i = None" and w: "fair s N w" "matches s w (sy_env S)"
    and N: "w_uuids (snd (run (serve s cl) w)) \<le> N"
  shows "\<exists>S'. steps s S S' \<and> sy_pool S' = (sy_pool S)(i \<mapsto> Ret (fst (run (serve s cl) w))) \<and>
    matches s (snd (run (serve s cl) w)) (sy_env S')"
proof -
  let ?S = "S\<lparr>sy_pool := (sy_pool S)(i \<mapsto> serve s cl)\<rparr>"
  from sys_step.start [where s = s and cl = cl, OF S] have one: "steps s S ?S" by (rule steps.onward [OF steps.stay])
  from run_completes [of ?S i "serve s cl" s N w] w N obtain E' where
    E': "steps s ?S (?S\<lparr>sy_env := E', sy_pool := (sy_pool ?S)(i \<mapsto> Ret (fst (run (serve s cl) w)))\<rparr>)"
    "matches s (snd (run (serve s cl) w)) E'"
    by (auto simp: completes_def)
  show ?thesis
    by (rule exI [of _ "?S\<lparr>sy_env := E', sy_pool := (sy_pool ?S)(i \<mapsto> Ret (fst (run (serve s cl) w)))\<rparr>"])
      (use steps_trans [OF one E'(1)] E'(2) in simp)
qed

lemma reachable_more: "reachable s S \<Longrightarrow> steps s S S' \<Longrightarrow> reachable s S'"
  unfolding reachable_def by (rule steps_trans)

text \<open>
  The sequential semantics refines the concurrent one, for every call: if a world matches a reachable state
  and keeps the promises of the environment, then what running a call alone in it returns and
  leaves in the store is what the system reaches when that call's operations follow each other.
\<close>

theorem sequential_run_is_reachable:
  assumes "reachable s S" and "sy_pool S i = None" and "fair s N w" and "matches s w (sy_env S)"
    and "run (serve s cl) w = (rep, w')" and "w_uuids w' \<le> N"
  shows "\<exists>S'. reachable s S' \<and> steps s S S' \<and> sy_pool S' = (sy_pool S)(i \<mapsto> Ret rep) \<and> en_mem (sy_env S') = w_mem w' \<and>
    en_signed (sy_env S') = signed_by w' \<and> en_erased (sy_env S') = erased_by w'"
proof -
  from serve_completes [OF assms(2-4), of cl] assms(5,6) obtain S' where
    "steps s S S'" "sy_pool S' = (sy_pool S)(i \<mapsto> Ret rep)" "matches s w' (sy_env S')"
    by auto
  with assms(1) show ?thesis by (auto simp: matches_def intro: reachable_more)
qed

end
