(* ===== verification/Scenario.thy ===== *)
theory Scenario
  imports Sequential
begin

text \<open>
  A concrete service and world, and a history of four calls evaluated in them: an event is
  created, opened, joined by a guest, and deleted. It shows that the states the guarantees
  speak of are reached.
\<close>

section \<open>A service and its world\<close>

definition demo_mac :: "string \<Rightarrow> string \<Rightarrow> 8 word list" where
  "demo_mac key m = map of_char (take 1 m)"

definition demo_issuer :: issuer where
  "demo_issuer = \<lparr>is_issuerURL = ''https://guests'', is_audience = ''nats'', is_ttl = 60 * second\<rparr>"

definition demo_service :: service where
  "demo_service = NewService demo_issuer demo_mac ''key'' ''https://demo/'' 2 (60 * second) (30 * second) True"

definition demo_bytes :: "nat \<Rightarrow> 8 word list" where
  "demo_bytes n = replicate 32 (word_of_nat (4 * n))"

definition demo_secret :: "nat \<Rightarrow> string" where
  "demo_secret n = b64url (demo_bytes n)"

definition demo_uuid :: "nat \<Rightarrow> string" where
  "demo_uuid n = hex_digit n # replicate 35 (CHR ''0'')"

text \<open>The application acknowledges every subject, the signer signs.\<close>

definition demo_world :: world where
  "demo_world = \<lparr>w_mem = NewMemory, w_clock = (\<lambda>n. int n * 1000000000), w_ticks = 0,
     w_rand = (\<lambda>n. if n < 4 then Inr (demo_bytes n) else Inl (ErrOther ''no entropy'')), w_rands = 0,
     w_uuid = demo_uuid, w_uuids = 0, w_cleaner = (\<lambda>q. Inr (int (length (cc_Subjects q)))), w_cleanups = [],
     w_signer = (\<lambda>q. Inr ''token''), w_signed = [], w_ctx = None\<rparr>"

lemma demo_bytes_cons: "demo_bytes n = word_of_nat (4 * n) # word_of_nat (4 * n) # word_of_nat (4 * n) # replicate 29 (word_of_nat (4 * n))"
  by (simp add: demo_bytes_def numeral_eq_Suc)

lemma demo_digest: "digest demo_service (b64url (demo_bytes n)) = hex_encode [of_char (b64_digit (unat (word_of_nat (4 * n) :: 8 word) div 4))]"
  by (simp add: demo_bytes_cons digest_def demo_service_def NewService_def demo_mac_def)

lemma demo_digests [simp]:
  "digest demo_service (b64url (demo_bytes 0)) = ''41''"
  "digest demo_service (b64url (demo_bytes (Suc 0))) = ''42''"
  "digest demo_service (b64url (demo_bytes 2)) = ''43''"
  "digest demo_service (b64url (demo_bytes 3)) = ''44''"
  by (simp_all only: demo_digest, code_simp+)

lemma demo_uuid_inj: "m < 16 \<Longrightarrow> n < 16 \<Longrightarrow> demo_uuid m = demo_uuid n \<Longrightarrow> m = n"
  by (simp add: demo_uuid_def hex_digit_inj)

lemma demo_uuid_format: "n < 16 \<Longrightarrow> uuid_format (demo_uuid n)"
proof -
  assume "n < 16"
  then have "hex_digit n \<in> set ''0123456789abcdef''"
    unfolding hex_digit_def by (intro nth_mem) simp
  then show ?thesis
    by (auto simp: uuid_format_def demo_uuid_def list_all_iff)
qed

lemma demo_fair: "fair demo_service 16 demo_world"
proof -
  have d: "m = n" if "m < 4" "n < 4" "digest demo_service (b64url (demo_bytes m)) = digest demo_service (b64url (demo_bytes n))" for m n
  proof -
    have "m = 0 \<or> m = Suc 0 \<or> m = 2 \<or> m = 3" "n = 0 \<or> n = Suc 0 \<or> n = 2 \<or> n = 3" using that(1,2) by auto
    with that(3) show ?thesis by (elim disjE) simp_all
  qed
  show ?thesis
    unfolding fair_def
    using d by (auto simp: demo_world_def demo_uuid_format inj_on_def demo_bytes_def [of n for n] dest: demo_uuid_inj split: if_splits)
qed

section \<open>The calls\<close>

definition demo_input :: create_input where
  "demo_input = \<lparr>ci_ApplicationID = ''app'', ci_Name = ''Demo'', ci_Capacity = 1, ci_InspectLive = False\<rparr>"

lemma demo_strings [simp]:
  "trim_space ''app'' = ''app''" "trim_space ''Demo'' = ''Demo''" "applicationIDPattern ''app''"
  by (rule trim_graphic, simp add: graphic_def)+ (simp add: applicationIDPattern_def is_lower_def is_id_char_def)

lemma demo_service_sel [simp]:
  "sv_maxCapacity demo_service = 2" "sv_cleaner demo_service" "sv_leaseTTL demo_service = 60 * second"
  "sv_gracePeriod demo_service = 30 * second" "sv_issuer demo_service = demo_issuer" "sv_cleanupLease demo_service = 45 * second"
  by (simp_all add: demo_service_def NewService_def)

definition created_event :: event where
  "created_event = new_event ''host'' demo_input (demo_uuid 0) ''41'' 0"

definition created_world :: world where
  "created_world = demo_world\<lparr>w_mem := \<lparr>me_revision = 2,
     me_entries = [(eventKey (demo_uuid 0), \<lparr>en_Value = VEvent created_event, en_Revision = 1\<rparr>),
                   (invitationKey ''41'', \<lparr>en_Value = VText (demo_uuid 0), en_Revision = 2\<rparr>)]\<rparr>,
     w_ticks := 1, w_rands := 1, w_uuids := 1\<rparr>"

lemma created_event_sel [simp]:
  "ev_ID created_event = demo_uuid 0" "ev_InvitationDigest created_event = ''41''" "ev_State created_event = Draft"
  "ev_Capacity created_event = 1" "ev_OwnerSubject created_event = ''host''" "ev_Cleanup created_event = None"
  by (simp_all add: created_event_def new_event_def demo_input_def)

lemma run_created:
  "run (serve demo_service (CallCreateEvent ''host'' demo_input)) demo_world =
     (ReplyCreated (Inr (created_event, invitationURL demo_service (b64url (demo_bytes 0)))), created_world)"
proof -
  have ev: "new_event ''host'' \<lparr>ci_ApplicationID = ''app'', ci_Name = ''Demo'', ci_Capacity = 1, ci_InspectLive = False\<rparr> (demo_uuid 0) ''41'' 0 = created_event"
    by (simp add: created_event_def demo_input_def)
  show ?thesis
    by (simp add: replying_def CreateEvent_def demo_input_def valid_input_def randomSecret_def demo_world_def
        NewMemory_def mem_defs Let_def ev created_world_def)
qed

definition opened_event :: event where
  "opened_event = created_event\<lparr>ev_State := Open, ev_UpdatedAt := 1000000000\<rparr>"

definition opened_world :: world where
  "opened_world = created_world\<lparr>w_mem := \<lparr>me_revision = 3,
     me_entries = [(eventKey (demo_uuid 0), \<lparr>en_Value = VEvent opened_event, en_Revision = 3\<rparr>),
                   (invitationKey ''41'', \<lparr>en_Value = VText (demo_uuid 0), en_Revision = 2\<rparr>)]\<rparr>,
     w_ticks := 2\<rparr>"

lemma opened_event_sel [simp]:
  "ev_ID opened_event = demo_uuid 0" "ev_InvitationDigest opened_event = ''41''" "ev_State opened_event = Open"
  "ev_Capacity opened_event = 1" "ev_OwnerSubject opened_event = ''host''" "ev_Cleanup opened_event = None"
  by (simp_all add: opened_event_def)

lemma run_opened:
  "run (serve demo_service (CallSetState 1 ''host'' (demo_uuid 0) Open)) created_world = (ReplyEvent (Inr opened_event), opened_world)"
  by (simp add: replying_def SetState_def numeral_eq_Suc loadEvent_def can_def validTransition_def created_world_def demo_world_def
      mem_defs Let_def opened_world_def opened_event_def)

definition joined_slot :: slot where
  "joined_slot = new_slot demo_service opened_event 1 (demo_uuid 1) (b64url (demo_bytes 1)) 2000000000"

definition joined_world :: world where
  "joined_world = opened_world\<lparr>w_mem := \<lparr>me_revision = 5,
     me_entries = [(eventKey (demo_uuid 0), \<lparr>en_Value = VEvent opened_event, en_Revision = 3\<rparr>),
                   (invitationKey ''41'', \<lparr>en_Value = VText (demo_uuid 0), en_Revision = 2\<rparr>),
                   (slotKey (demo_uuid 0) 1, \<lparr>en_Value = VSlot joined_slot, en_Revision = 4\<rparr>),
                   (sessionKey ''42'', \<lparr>en_Value = VIndex \<lparr>ix_Deleted = False, ix_EventID = demo_uuid 0, ix_Slot = 1\<rparr>, en_Revision = 5\<rparr>)]\<rparr>,
     w_ticks := 4, w_rands := 2, w_uuids := 3,
     w_signed := [\<lparr>jc_Issuer = ''https://guests'', jc_Subject = subj (demo_uuid 0) (demo_uuid 1), jc_Audience = [''nats''],
        jc_ID = demo_uuid 2, jc_IssuedAt = 3000000000, jc_Expiry = time_add 3000000000 (60 * second), jc_Guest = True,
        jc_Name = ''Demo User 1'', jc_Username = ''demo-user-1'', jc_ApplicationID = ''app'', jc_EventID = demo_uuid 0, jc_Slot = 1\<rparr>]\<rparr>"

lemma itoa_1: "itoa 1 = ''1''"
  by code_simp

lemma joined_slot_sel [simp]:
  "sl_EventID joined_slot = demo_uuid 0" "sl_Number joined_slot = 1" "sl_Generation joined_slot = demo_uuid 1"
  "sl_ResumeDigest joined_slot = ''42''" "sl_Subject joined_slot = subj (demo_uuid 0) (demo_uuid 1)" "sl_Cleanup joined_slot = None"
  by (simp_all add: joined_slot_def) (simp add: new_slot_def)

lemma run_joined:
  "\<exists>ses. run (serve demo_service (CallStartSession (b64url (demo_bytes 0)))) opened_world = (ReplySession (Inr ses), joined_world)"
proof -
  have sl: "new_slot demo_service opened_event 1 (demo_uuid (Suc 0)) (b64url (demo_bytes (Suc 0))) 2000000000 = joined_slot"
    by (simp add: joined_slot_def)
  have app: "ev_ApplicationID opened_event = ''app''"
    by (simp add: opened_event_def created_event_def new_event_def demo_input_def)
  show ?thesis
    by (simp add: replying_def StartSession_def numeral_eq_Suc loadEvent_def randomSecret_def admit_def sl
        opened_world_def created_world_def demo_world_def mem_defs Let_def mint_def Mint_def itoa_1 demo_issuer_def app joined_world_def)
qed

definition deleting_event :: "progress \<Rightarrow> event" where
  "deleting_event p = opened_event\<lparr>ev_State := Deleting, ev_DeletionID := demo_uuid 3, ev_DeletedBySubject := ''host'',
     ev_UpdatedAt := 5000000000, ev_Cleanup := Some p\<rparr>"

definition demo_receipt :: receipt where
  "demo_receipt = \<lparr>rc_DeletionID = demo_uuid 3, rc_EventID = demo_uuid 0, rc_ApplicationID = ''app'', rc_OwnerSubject = ''host'',
     rc_DeletedBySubject = ''host'', rc_CreatedAt = 0, rc_DeletedAt = 7000000000, rc_IdentitiesDeleted = 1\<rparr>"

definition deleted_world :: world where
  "deleted_world = joined_world\<lparr>w_mem := \<lparr>me_revision = 9,
     me_entries = [(sessionKey ''42'', \<lparr>en_Value = VIndex \<lparr>ix_Deleted = True, ix_EventID = demo_uuid 0, ix_Slot = 1\<rparr>, en_Revision = 9\<rparr>),
                   (receiptKey (demo_uuid 0), \<lparr>en_Value = VReceipt demo_receipt, en_Revision = 8\<rparr>)]\<rparr>,
     w_ticks := 8, w_uuids := 4,
     w_cleanups := [\<lparr>cc_DeletionID = demo_uuid 3, cc_ApplicationID = ''app'', cc_EventID = demo_uuid 0,
        cc_Subjects = [subj (demo_uuid 0) (demo_uuid 1)], cc_Reason = ''demo_event_deleted''\<rparr>]\<rparr>"

lemma opened_event_app [simp]:
  "ev_ApplicationID opened_event = ''app''" "ev_CreatedAt opened_event = 0"
  by (simp_all add: opened_event_def created_event_def new_event_def demo_input_def)

lemma run_deleted:
  "run (serve demo_service (CallDeleteEvent ''host'' (demo_uuid 0))) joined_world = (ReplyReceipt (Inr demo_receipt), deleted_world)"
  by (simp add: replying_def DeleteEvent_def numeral_eq_Suc loadEvent_def can_def start_deleting_def cleanEvent_def get_receipt_def
      upgrade_tracked_def claimCleanup_def claim_next_def before_def zero_time_def erase_event_def cleanup_error_def ack_count_def receipt_of_def
      save_receipt_def finalizeEvent_def markSessionDeleted_def deleteIfExists_def
      joined_world_def opened_world_def created_world_def demo_world_def mem_defs Let_def deleted_world_def demo_receipt_def)

section \<open>The states reached\<close>

definition at_stage :: "nat \<Rightarrow> world \<Rightarrow> sys \<Rightarrow> bool" where
  "at_stage i w S \<longleftrightarrow> reachable demo_service S \<and> (\<forall>j \<ge> i. sy_pool S j = None) \<and> fair demo_service 16 w \<and>
     matches demo_service w (sy_env S)"

lemma at_stage_next:
  assumes S: "at_stage i w S" and r: "run (serve demo_service cl) w = (rep, w')" and n: "w_uuids w' \<le> 16"
    and f: "fair demo_service 16 w'" and i': "i' = Suc i"
  shows "\<exists>S'. at_stage i' w' S' \<and> steps demo_service S S'"
proof -
  from S have S: "sy_pool S i = None" "fair demo_service 16 w" "matches demo_service w (sy_env S)"
    and none: "\<And>j. j \<ge> i \<Longrightarrow> sy_pool S j = None" and R: "reachable demo_service S"
    by (simp_all add: at_stage_def)
  from serve_completes [OF S, of cl] r n obtain S' where
    "steps demo_service S S'" "sy_pool S' = (sy_pool S)(i \<mapsto> Ret rep)" "matches demo_service w' (sy_env S')"
    by auto
  with none f i' R show ?thesis by (auto simp: at_stage_def intro: reachable_more)
qed

lemma demo_worlds_fair [simp]:
  "fair demo_service 16 created_world" "fair demo_service 16 opened_world"
  "fair demo_service 16 joined_world" "fair demo_service 16 deleted_world"
  by (simp_all add: created_world_def opened_world_def joined_world_def deleted_world_def demo_fair)

lemma stage_0: "at_stage 0 demo_world init_sys"
  by (simp add: at_stage_def reachable_def steps.stay init_sys_def demo_fair matches_def empty_env_def erased_by_def signed_by_def)
    (simp add: demo_world_def)

lemma demo_worlds_uuids [simp]:
  "w_uuids created_world = 1" "w_uuids opened_world = 1" "w_uuids joined_world = 3" "w_uuids deleted_world = 4"
  by (simp_all add: created_world_def opened_world_def joined_world_def deleted_world_def)

lemma stage_1: "\<exists>S. at_stage 1 created_world S"
proof -
  have "\<exists>S. at_stage 1 created_world S \<and> steps demo_service init_sys S"
    by (rule at_stage_next [OF stage_0 run_created]) simp_all
  then show ?thesis by blast
qed

lemma stage_2: "\<exists>S. at_stage 2 opened_world S"
proof -
  from stage_1 obtain S where S: "at_stage 1 created_world S" by blast
  have "\<exists>S'. at_stage 2 opened_world S' \<and> steps demo_service S S'"
    by (rule at_stage_next [OF S run_opened]) simp_all
  then show ?thesis by blast
qed

lemma stage_3: "\<exists>S. at_stage 3 joined_world S"
proof -
  from stage_2 obtain S where S: "at_stage 2 opened_world S" by blast
  from run_joined obtain ses where r:
    "run (serve demo_service (CallStartSession (b64url (demo_bytes 0)))) opened_world = (ReplySession (Inr ses), joined_world)" by blast
  have "\<exists>S'. at_stage 3 joined_world S' \<and> steps demo_service S S'"
    by (rule at_stage_next [OF S r]) simp_all
  then show ?thesis by blast
qed

lemma stage_4: "\<exists>S S'. at_stage 3 joined_world S \<and> at_stage 4 deleted_world S' \<and> steps demo_service S S'"
proof -
  from stage_3 obtain S where S: "at_stage 3 joined_world S" by blast
  have "\<exists>S'. at_stage 4 deleted_world S' \<and> steps demo_service S S'"
    by (rule at_stage_next [OF S run_deleted]) simp_all
  with S show ?thesis by blast
qed

text \<open>The same deletion while the application is down: the event stays, being deleted.\<close>

definition failing_world :: world where
  "failing_world = joined_world\<lparr>w_cleaner := (\<lambda>q. Inl (ErrOther ''down''))\<rparr>"

definition stuck_event :: event where
  "stuck_event = opened_event\<lparr>ev_State := Deleting, ev_DeletionID := demo_uuid 3, ev_DeletedBySubject := ''host'',
     ev_UpdatedAt := 5000000000, ev_Cleanup := Some \<lparr>pg_ID = demo_uuid 3, pg_Attempts = 1, pg_StartedAt = 4000000000,
       pg_NextAttemptAt = 12000000000, pg_LastError = ''application_cleanup_failed''\<rparr>\<rparr>"

definition stuck_world :: world where
  "stuck_world = failing_world\<lparr>w_mem := \<lparr>me_revision = 8,
     me_entries = [(eventKey (demo_uuid 0), \<lparr>en_Value = VEvent stuck_event, en_Revision = 8\<rparr>),
                   (invitationKey ''41'', \<lparr>en_Value = VText (demo_uuid 0), en_Revision = 2\<rparr>),
                   (slotKey (demo_uuid 0) 1, \<lparr>en_Value = VSlot joined_slot, en_Revision = 4\<rparr>),
                   (sessionKey ''42'', \<lparr>en_Value = VIndex \<lparr>ix_Deleted = False, ix_EventID = demo_uuid 0, ix_Slot = 1\<rparr>, en_Revision = 5\<rparr>)]\<rparr>,
     w_ticks := 8, w_uuids := 4,
     w_cleanups := [\<lparr>cc_DeletionID = demo_uuid 3, cc_ApplicationID = ''app'', cc_EventID = demo_uuid 0,
        cc_Subjects = [subj (demo_uuid 0) (demo_uuid 1)], cc_Reason = ''demo_event_deleted''\<rparr>]\<rparr>"

lemma sint_5_seconds: "sint (5 * second) = 5000000000"
  by (simp add: second_def)

lemma run_stuck:
  "\<exists>e. run (serve demo_service (CallDeleteEvent ''host'' (demo_uuid 0))) failing_world = (ReplyReceipt (Inl e), stuck_world)"
  by (simp add: replying_def DeleteEvent_def numeral_eq_Suc loadEvent_def can_def start_deleting_def cleanEvent_def get_receipt_def
      upgrade_tracked_def claimCleanup_def claim_next_def before_def zero_time_def erase_event_def cleanup_error_def
      record_failure_def failed_attempt_def retryDelay_def time_add_def sint_5_seconds
      failing_world_def joined_world_def opened_world_def created_world_def demo_world_def mem_defs Let_def stuck_world_def stuck_event_def)

lemma failing_fair [simp]: "fair demo_service 16 failing_world" "fair demo_service 16 stuck_world" "w_uuids stuck_world = 4"
proof -
  show f: "fair demo_service 16 failing_world"
    using demo_worlds_fair(3) unfolding fair_def failing_world_def by simp
  then show "fair demo_service 16 stuck_world" by (simp add: stuck_world_def)
  show "w_uuids stuck_world = 4" by (simp add: stuck_world_def)
qed

lemma stage_4_stuck: "\<exists>S. at_stage 4 stuck_world S"
proof -
  from stage_3 obtain S where S: "at_stage 3 joined_world S" by blast
  then have S: "at_stage 3 failing_world S"
    by (simp add: at_stage_def) (simp add: matches_def failing_world_def erased_by_def signed_by_def digests_of_def
      joined_world_def opened_world_def created_world_def demo_world_def)
  from run_stuck obtain e where r:
    "run (serve demo_service (CallDeleteEvent ''host'' (demo_uuid 0))) failing_world = (ReplyReceipt (Inl e), stuck_world)" by blast
  have "\<exists>S'. at_stage 4 stuck_world S' \<and> steps demo_service S S'"
    by (rule at_stage_next [OF S r]) simp_all
  then show ?thesis by blast
qed

text \<open>What the environment holds once the guest has joined, and once the event is deleted.\<close>

lemma joined_env:
  assumes "at_stage 3 joined_world S"
  shows "reachable demo_service S" "(demo_uuid 0, subj (demo_uuid 0) (demo_uuid 1)) \<in> en_signed (sy_env S)"
    "mem_at (en_mem (sy_env S)) (slotKey (demo_uuid 0) 1) = Some \<lparr>en_Value = VSlot joined_slot, en_Revision = 4\<rparr>"
    "mem_at (en_mem (sy_env S)) (eventKey (demo_uuid 0)) = Some \<lparr>en_Value = VEvent opened_event, en_Revision = 3\<rparr>"
  using assms
  by (auto simp: at_stage_def matches_def signed_by_def mem_at_def joined_world_def opened_world_def created_world_def demo_world_def)

lemma deleted_env:
  assumes "at_stage 4 deleted_world S"
  shows "reachable demo_service S" "(demo_uuid 0, subj (demo_uuid 0) (demo_uuid 1)) \<in> en_signed (sy_env S)"
    "mem_at (en_mem (sy_env S)) (receiptKey (demo_uuid 0)) = Some \<lparr>en_Value = VReceipt demo_receipt, en_Revision = 8\<rparr>"
    "mem_at (en_mem (sy_env S)) (eventKey (demo_uuid 0)) = None"
  using assms
  by (auto simp: at_stage_def matches_def signed_by_def mem_at_def deleted_world_def joined_world_def opened_world_def created_world_def demo_world_def)

lemma stuck_env:
  assumes "at_stage 4 stuck_world S"
  shows "reachable demo_service S"
    "mem_at (en_mem (sy_env S)) (slotKey (demo_uuid 0) 1) = Some \<lparr>en_Value = VSlot joined_slot, en_Revision = 4\<rparr>"
    "mem_at (en_mem (sy_env S)) (eventKey (demo_uuid 0)) = Some \<lparr>en_Value = VEvent stuck_event, en_Revision = 8\<rparr>"
  using assms
  by (auto simp: at_stage_def matches_def mem_at_def stuck_world_def)

text \<open>The first call of the history, as a run of the concurrent system.\<close>

lemma created_is_reachable:
  "\<exists>S. reachable demo_service S \<and> steps demo_service init_sys S \<and>
     sy_pool S = (sy_pool init_sys)(0 \<mapsto> Ret (ReplyCreated (Inr (created_event, invitationURL demo_service (b64url (demo_bytes 0)))))) \<and>
     en_mem (sy_env S) = w_mem created_world \<and> en_signed (sy_env S) = signed_by created_world \<and> en_erased (sy_env S) = erased_by created_world"
proof (rule sequential_run_is_reachable [OF _ _ _ _ run_created])
  show "reachable demo_service init_sys" "sy_pool init_sys 0 = None" "fair demo_service 16 demo_world"
    "matches demo_service demo_world (sy_env init_sys)"
    using stage_0 by (simp_all add: at_stage_def)
qed simp

end
