(* ===== verification/Refinement.thy ===== *)
theory Refinement
  imports Scenario
begin

text \<open>
  The system implements the abstract machine of Specification: every history of the calls, with
  all their interleavings and failures, looks from outside like a history of the machine.
\<close>

section \<open>What is seen of a state\<close>

text \<open>
  The machine's state pictures a state of the system: the same events, slots and receipts in the
  store, the same tokens signed, the same guests erased.
\<close>

definition pictured :: "sys \<Rightarrow> guest_access \<Rightarrow> bool" where
  "pictured S A \<longleftrightarrow>
     ga_event A = event_view (en_mem (sy_env S)) \<and> ga_slot A = slot_view (en_mem (sy_env S)) \<and>
     ga_receipts A = {e. mem_at (en_mem (sy_env S)) (receiptKey e) \<noteq> None} \<and>
     en_signed (sy_env S) = (\<lambda>(e, g). (e, subj e g)) ` ga_tokens A \<and>
     ga_erased A = {(e, g). subj e g \<in> en_erased (sy_env S)}"

lemma view_pictured:
  assumes "sys_inv s S w T"
  shows "pictured S (view (sy_env S) w)"
proof -
  from assms have "core s (sy_env S) w T" by (simp add: sys_inv_def)
  then have signed: "\<exists>g. snd x = subj (fst x) g" if "x \<in> en_signed (sy_env S)" for x
    using coreD(10) that by (fastforce simp: signed_ok_def)
  have "en_signed (sy_env S) = (\<lambda>(e, g). (e, subj e g)) ` {(e, g). (e, subj e g) \<in> en_signed (sy_env S)}"
    using signed by (fastforce simp: image_iff)
  then show ?thesis by (simp add: pictured_def view_def)
qed

lemma reachable_pictured:
  assumes "reachable s S" and "steps s S S'"
  obtains A A' where "spec_steps (sv_maxCapacity s) no_access A" "pictured S A" "spec_steps (sv_maxCapacity s) A A'" "pictured S' A'"
    "spec_inv (sv_maxCapacity s) A" "spec_inv (sv_maxCapacity s) A'"
proof -
  from inv_follows [OF assms(1) [unfolded reachable_def] inv_init] obtain w T where
    i: "sys_inv s S w T" "spec_steps (sv_maxCapacity s) no_access (view (sy_env S) w)"
    unfolding view_init by blast
  from inv_follows [OF assms(2) i(1)] obtain w' T' where
    i': "sys_inv s S' w' T'" "spec_steps (sv_maxCapacity s) (view (sy_env S) w) (view (sy_env S') w')" by blast
  from i(2) spec_inv_none have inv: "spec_inv (sv_maxCapacity s) (view (sy_env S) w)" by (rule spec_inv_steps)
  from that [OF i(2) view_pictured [OF i(1)] i'(2) view_pictured [OF i'(1)] inv spec_inv_steps [OF i'(2) inv]] show ?thesis .
qed

lemma pictured_signed:
  assumes "pictured S A" "(e, x) \<in> en_signed (sy_env S)"
  obtains g where "x = subj e g" "(e, g) \<in> ga_tokens A"
  using assms by (auto simp: pictured_def)

section \<open>Refinement\<close>

text \<open>
  C8: the service refines the abstract machine. For every reachable state and every later one
  there are histories of the machine, the second one going on from the first, whose states show
  the same events, slots, receipts, tokens and erasures. So whatever calls interleave and
  whatever fails, events change state by the table of transitions, a slot is only given to a new
  guest when free, an identity is only admitted at an open event within its capacity, a token is only signed for an admitted guest, a slot with a token is only freed
  after the erasure of its guest, and a receipt is only written when all guests are settled.
\<close>

theorem service_refines_specification:
  assumes "reachable s S" and "steps s S S'"
  shows "\<exists>A A'. spec_steps (sv_maxCapacity s) no_access A \<and> pictured S A \<and> spec_steps (sv_maxCapacity s) A A' \<and> pictured S' A'"
  using reachable_pictured [OF assms] by metis

theorem service_refines_specification_witness:
  "\<exists>S A. reachable demo_service S \<and> spec_steps 2 no_access A \<and> pictured S A \<and> (demo_uuid 0, demo_uuid 1) \<in> ga_tokens A \<and>
     ga_slot A (demo_uuid 0) 1 = Some (demo_uuid 1)"
proof -
  from stage_3 obtain S where S: "at_stage 3 joined_world S" by blast
  note env = joined_env [OF S]
  have m: "sv_maxCapacity demo_service = 2" by simp
  from service_refines_specification [OF env(1) steps.stay] obtain A where
    A: "spec_steps 2 no_access A" "pictured S A" unfolding m by blast
  from pictured_signed [OF A(2) env(2)] have "(demo_uuid 0, demo_uuid 1) \<in> ga_tokens A" by (metis subj_inj)
  moreover have "ga_slot A (demo_uuid 0) 1 = Some (demo_uuid 1)"
    using A(2) env(3) by (simp add: pictured_def slot_view_def)
  ultimately show ?thesis using A env(1) by blast
qed

end
