(* ===== verification/Guarantees.thy ===== *)
theory Guarantees
  imports Refinement
begin

text \<open>
  What the service guarantees however its calls interleave and whatever fails: properties of
  every reachable state of the concurrent system, and of every later one.
\<close>

section \<open>Consequences of the invariant\<close>

lemma inv_core: "sys_inv s S w T \<Longrightarrow> core s (sy_env S) w T"
  by (simp add: sys_inv_def)

lemma reachable_slot:
  assumes "reachable s S" "mem_at (en_mem (sy_env S)) k = Some en" "en_Value en = VSlot sl"
  shows "k = slotKey (sl_EventID sl) (sl_Number sl)" "slot_ok s sl"
  using reachable_inv [OF assms(1)] mem_slot(2,3) [OF inv_core assms(2,3)] by blast+

text \<open>From a reachable state to a later one.\<close>

lemma reachable_steps:
  assumes "reachable s S" "steps s S S'"
  obtains w T w' T' where "sys_inv s S w T" "sys_inv s S' w' T'" "fle w w'"
  using reachable_inv [OF assms(1)] inv_steps [OF assms(2)] by blast

lemma fle_closed: "fle w w' \<Longrightarrow> e \<in> fa_closed w \<Longrightarrow> e \<in> fa_closed w'"
  by (auto simp: fle_def)

section \<open>Erasure before reuse\<close>

text \<open>
  C1: purge before reuse. In every reachable state, a subject a guest token was ever signed for
  is either erased, by a complete acknowledgement of the application, or still held by a slot
  of its event. So no slot is given to a new guest, and no event disappears, before the
  application confirmed the erasure of the guest that held it.
\<close>

theorem token_subject_erased_or_held:
  assumes "reachable s S" and "(e, x) \<in> en_signed (sy_env S)"
  shows "x \<in> en_erased (sy_env S) \<or>
    (\<exists>k en sl. mem_at (en_mem (sy_env S)) k = Some en \<and> en_Value en = VSlot sl \<and> sl_EventID sl = e \<and> sl_Subject sl = x)"
proof -
  from reachable_pictured [OF assms(1) steps.stay] obtain A where A: "pictured S A" "spec_inv (sv_maxCapacity s) A" by blast
  from pictured_signed [OF A(1) assms(2)] obtain g where g: "x = subj e g" "(e, g) \<in> ga_tokens A" .
  from spec_token_erased_or_held [OF A(2) g(2)] show ?thesis
  proof
    assume "holds_slot A (e, g)"
    with A(1) obtain n where "slot_view (en_mem (sy_env S)) e n = Some g" by (auto simp: holds_slot_def pictured_def)
    then obtain en sl where sl: "mem_at (en_mem (sy_env S)) (slotKey e n) = Some en" "en_Value en = VSlot sl"
      "sl_EventID sl = e" "sl_Generation sl = g"
      by (auto simp: slot_view_iff)
    with reachable_slot(2) [OF assms(1) sl(1,2)] g(1) have "sl_Subject sl = x" by (simp add: slot_ok_def)
    with sl show ?thesis by blast
  qed (use A(1) g(1) in \<open>simp add: pictured_def\<close>)
qed

theorem token_subject_erased_or_held_witness:
  "\<exists>S. reachable demo_service S \<and> (demo_uuid 0, subj (demo_uuid 0) (demo_uuid 1)) \<in> en_signed (sy_env S) \<and>
     (subj (demo_uuid 0) (demo_uuid 1) \<in> en_erased (sy_env S) \<or>
      (\<exists>k en sl. mem_at (en_mem (sy_env S)) k = Some en \<and> en_Value en = VSlot sl \<and> sl_EventID sl = demo_uuid 0 \<and>
         sl_Subject sl = subj (demo_uuid 0) (demo_uuid 1)))"
proof -
  from stage_3 obtain S where "at_stage 3 joined_world S" by blast
  from joined_env(1,2) [OF this] token_subject_erased_or_held [OF joined_env(1,2) [OF this]] show ?thesis by blast
qed

text \<open>
  C2: a deletion receipt is a proof of erasure. Once the store holds the receipt of an event,
  then in that state and in every later one each subject a token was signed for under that
  event, before or after, is erased.
\<close>

theorem receipt_proves_erasure:
  assumes "reachable s S" and "mem_at (en_mem (sy_env S)) (receiptKey e) = Some en"
    and "steps s S S'" and "(e, x) \<in> en_signed (sy_env S')"
  shows "x \<in> en_erased (sy_env S')"
proof -
  from reachable_pictured [OF assms(1,3)] obtain A A' where A: "pictured S A" "spec_steps (sv_maxCapacity s) A A'" "pictured S' A'"
    "spec_inv (sv_maxCapacity s) A'" by blast
  from A(1) assms(2) have "e \<in> ga_receipts A" by (simp add: pictured_def)
  with spec_receipts_stay [OF A(2)] have "e \<in> ga_receipts A'" by blast
  with pictured_signed [OF A(3) assms(4)] spec_receipt_erased [OF A(4)] A(3) show ?thesis by (fastforce simp: pictured_def)
qed

theorem receipt_proves_erasure_witness:
  "\<exists>S. reachable demo_service S \<and> mem_at (en_mem (sy_env S)) (receiptKey (demo_uuid 0)) \<noteq> None \<and>
     (demo_uuid 0, subj (demo_uuid 0) (demo_uuid 1)) \<in> en_signed (sy_env S) \<and> subj (demo_uuid 0) (demo_uuid 1) \<in> en_erased (sy_env S)"
proof -
  from stage_4 obtain S where S: "at_stage 4 deleted_world S" by blast
  note env = deleted_env [OF S]
  from receipt_proves_erasure [OF env(1) env(3) steps.stay env(2)] env show ?thesis by auto
qed

text \<open>
  C3: deletion is terminal. Once an event is being deleted, then in every later state it is
  still being deleted or it is gone: no interleaving of state changes, retries and late writes
  opens, pauses or recreates it.
\<close>

theorem deleting_is_terminal:
  assumes "reachable s S" and "mem_at (en_mem (sy_env S)) (eventKey e) = Some en" "en_Value en = VEvent ev"
    and "ev_State ev = Deleting" and "steps s S S'"
  shows "mem_at (en_mem (sy_env S')) (eventKey e) = None \<or>
    (\<exists>en' ev'. mem_at (en_mem (sy_env S')) (eventKey e) = Some en' \<and> en_Value en' = VEvent ev' \<and>
       ev_ID ev' = e \<and> ev_State ev' = Deleting)"
proof (cases "mem_at (en_mem (sy_env S')) (eventKey e)")
  case (Some en')
  from reachable_steps [OF assms(1,5)] obtain w T w' T' where i: "sys_inv s S w T" "sys_inv s S' w' T'" "fle w w'" .
  from mem_entry(2) [OF inv_core [OF i(1)] assms(2)] assms(3,4) have "e \<in> fa_closed w" by simp
  with i(3) have cl: "e \<in> fa_closed w'" by (rule fle_closed)
  from entry_ok_eventKey [OF mem_entry(2) [OF inv_core [OF i(2)] Some]] obtain ev' where
    ev': "en_Value en' = VEvent ev'" "ev_ID ev' = e" by blast
  from coreD(7) [OF inv_core [OF i(2)]] cl Some ev'(1) have "ev_State ev' = Deleting"
    unfolding closing_def by blast
  with ev' Some show ?thesis by simp
qed simp

theorem deleting_is_terminal_witness:
  "\<exists>S. reachable demo_service S \<and> mem_at (en_mem (sy_env S)) (eventKey (demo_uuid 0)) = Some \<lparr>en_Value = VEvent stuck_event, en_Revision = 8\<rparr> \<and>
     (\<forall>S'. steps demo_service S S' \<longrightarrow> mem_at (en_mem (sy_env S')) (eventKey (demo_uuid 0)) = None \<or>
       (\<exists>en' ev'. mem_at (en_mem (sy_env S')) (eventKey (demo_uuid 0)) = Some en' \<and> en_Value en' = VEvent ev' \<and>
          ev_ID ev' = demo_uuid 0 \<and> ev_State ev' = Deleting))"
proof -
  from stage_4_stuck obtain S where S: "at_stage 4 stuck_world S" by blast
  note env = stuck_env [OF S]
  have "ev_State stuck_event = Deleting" by (simp add: stuck_event_def)
  from deleting_is_terminal [OF env(1,3) _ this] env(1,3) show ?thesis
    by (intro exI [of _ S]) simp
qed

section \<open>Capacity and identity\<close>

definition slot_keys :: "memory \<Rightarrow> string \<Rightarrow> string set" where
  "slot_keys m e = {k. \<exists>en sl. mem_at m k = Some en \<and> en_Value en = VSlot sl \<and> sl_EventID sl = e}"

text \<open>
  C4: the hard capacity bound. In every reachable state an event has at most the configured
  maximum number of slots in the store, whatever races there were between joins, capacity
  changes and cleanups.
\<close>

theorem slots_within_capacity:
  assumes "reachable s S"
  shows "finite (slot_keys (en_mem (sy_env S)) e) \<and> int (card (slot_keys (en_mem (sy_env S)) e)) \<le> max 0 (sv_maxCapacity s)"
proof -
  let ?K = "slot_keys (en_mem (sy_env S)) e"
  have "?K \<subseteq> slotKey e ` {1..sv_maxCapacity s}"
    using reachable_slot [OF assms] by (fastforce simp: slot_keys_def slot_ok_def)
  then have "finite ?K \<and> card ?K \<le> card {1..sv_maxCapacity s}"
    by (meson card_image_le card_mono finite_atLeastAtMost_int finite_imageI finite_subset order_trans)
  then show ?thesis by (auto simp: nat_le_iff)
qed

theorem slots_within_capacity_witness:
  "\<exists>S. reachable demo_service S \<and> slotKey (demo_uuid 0) 1 \<in> slot_keys (en_mem (sy_env S)) (demo_uuid 0) \<and>
     finite (slot_keys (en_mem (sy_env S)) (demo_uuid 0)) \<and> int (card (slot_keys (en_mem (sy_env S)) (demo_uuid 0))) \<le> 2"
proof -
  from stage_3 obtain S where S: "at_stage 3 joined_world S" by blast
  note env = joined_env [OF S]
  from env(3) have "slotKey (demo_uuid 0) 1 \<in> slot_keys (en_mem (sy_env S)) (demo_uuid 0)" by (auto simp: slot_keys_def)
  with slots_within_capacity [OF env(1), of "demo_uuid 0"] env(1) show ?thesis by auto
qed

text \<open>
  C7: what the keys hold. In every reachable state each key of the store holds the kind of
  document its prefix says, under the id and number in it: events with a capacity between 0
  and the maximum, slots numbered from 1 to the maximum with the subject of their event and
  generation, session indexes, receipts and invitations. No read of the service ever meets a
  document of another kind.
\<close>

definition well_keyed :: "service \<Rightarrow> string \<Rightarrow> val \<Rightarrow> bool" where
  "well_keyed s k v =
     (case v of
        VEvent ev \<Rightarrow> k = eventKey (ev_ID ev) \<and> 0 \<le> ev_Capacity ev \<and> ev_Capacity ev \<le> sv_maxCapacity s
      | VSlot sl \<Rightarrow> k = slotKey (sl_EventID sl) (sl_Number sl) \<and> 1 \<le> sl_Number sl \<and> sl_Number sl \<le> sv_maxCapacity s \<and>
          sl_Subject sl = ''guest:'' @ sl_EventID sl @ '':'' @ sl_Generation sl
      | VIndex ix \<Rightarrow> (\<exists>d. k = sessionKey d)
      | VReceipt rc \<Rightarrow> k = receiptKey (rc_EventID rc)
      | VText t \<Rightarrow> (\<exists>d. k = invitationKey d))"

theorem store_well_keyed:
  assumes "reachable s S" and "mem_at (en_mem (sy_env S)) k = Some en"
  shows "well_keyed s k (en_Value en)"
proof -
  from reachable_inv [OF assms(1)] obtain w T where i: "sys_inv s S w T" by blast
  from mem_entry(2) [OF inv_core [OF i] assms(2)] show ?thesis
    by (auto simp: well_keyed_def entry_ok_def event_ok_def slot_ok_def subj_def split: val.splits)
qed

theorem store_well_keyed_witness:
  "\<exists>S. reachable demo_service S \<and> mem_at (en_mem (sy_env S)) (slotKey (demo_uuid 0) 1) \<noteq> None \<and>
     well_keyed demo_service (slotKey (demo_uuid 0) 1) (VSlot joined_slot)"
proof -
  from stage_3 obtain S where S: "at_stage 3 joined_world S" by blast
  note env = joined_env [OF S]
  from store_well_keyed [OF env(1) env(3)] env show ?thesis by auto
qed

text \<open>
  C6: guests do not share an identity. In every reachable state two slots of the store with the
  same generation, or two slots of one event with the same subject, are the same slot.
\<close>

theorem identities_distinct:
  assumes "reachable s S"
    and "mem_at (en_mem (sy_env S)) k = Some x" "en_Value x = VSlot a"
    and "mem_at (en_mem (sy_env S)) k' = Some y" "en_Value y = VSlot b"
    and "sl_Generation a = sl_Generation b \<or> (sl_EventID a = sl_EventID b \<and> sl_Subject a = sl_Subject b)"
  shows "k = k' \<and> a = b"
proof -
  from reachable_inv [OF assms(1)] obtain w T where i: "sys_inv s S w T" by blast
  note c = inv_core [OF i]
  from mem_slot(3) [OF c assms(2,3)] mem_slot(3) [OF c assms(4,5)] assms(6)
  have "sl_Generation a = sl_Generation b" by (auto simp: slot_ok_def subj_def)
  from mem_gen_unique [OF c assms(2-5) this] assms(2-5) show ?thesis by simp
qed

theorem identities_distinct_witness:
  "\<exists>S. reachable demo_service S \<and> mem_at (en_mem (sy_env S)) (slotKey (demo_uuid 0) 1) \<noteq> None \<and>
     (\<forall>k en b. mem_at (en_mem (sy_env S)) k = Some en \<longrightarrow> en_Value en = VSlot b \<longrightarrow> sl_Generation b = demo_uuid 1 \<longrightarrow>
        k = slotKey (demo_uuid 0) 1 \<and> b = joined_slot)"
proof -
  from stage_3 obtain S where S: "at_stage 3 joined_world S" by blast
  note env = joined_env [OF S]
  have "k = slotKey (demo_uuid 0) 1 \<and> b = joined_slot"
    if "mem_at (en_mem (sy_env S)) k = Some en" "en_Value en = VSlot b" "sl_Generation b = demo_uuid 1" for k en b
    using identities_distinct [OF env(1) env(3) _ that(1,2), of joined_slot] that(3) by simp
  with env(1,3) show ?thesis by blast
qed

text \<open>
  C5: a resume secret resumes one guest only. If a slot in the store has a resume digest, then
  whatever slot has that digest in any later state, it is of the same event and the same subject:
  a renewed session is never another guest's.
\<close>

theorem resume_digest_names_one_guest:
  assumes "reachable s S" and "steps s S S'"
    and "mem_at (en_mem (sy_env S)) k = Some x" "en_Value x = VSlot a"
    and "mem_at (en_mem (sy_env S')) k' = Some y" "en_Value y = VSlot b"
    and "sl_ResumeDigest a = sl_ResumeDigest b"
  shows "sl_EventID a = sl_EventID b \<and> sl_Generation a = sl_Generation b \<and> sl_Subject a = sl_Subject b \<and> k = k'"
proof -
  from reachable_steps [OF assms(1,2)] obtain w T w' T' where i: "sys_inv s S w T" "sys_inv s S' w' T'" "fle w w'" .
  note c = inv_core [OF i(1)] and c' = inv_core [OF i(2)]
  from mem_slot(1) [OF c assms(3,4)] i(3) have a: "slot_at w' (en_Revision x) a" by (rule fle_parts(3) [rotated])
  note b = mem_slot(1) [OF c' assms(5,6)]
  from facts_digest [OF coreD(3) [OF c'] a b assms(7)] have same: "sl_EventID a = sl_EventID b" "sl_Generation a = sl_Generation b" by auto
  from same_gen(1) [OF c' a b same(2)] mem_slot(2,3) [OF c assms(3,4)] mem_slot(2,3) [OF c' assms(5,6)] same
  show ?thesis by (simp add: slot_ok_def)
qed

theorem resume_digest_names_one_guest_witness:
  "\<exists>S. reachable demo_service S \<and> mem_at (en_mem (sy_env S)) (slotKey (demo_uuid 0) 1) \<noteq> None \<and>
     (\<forall>S' k en b. steps demo_service S S' \<longrightarrow> mem_at (en_mem (sy_env S')) k = Some en \<longrightarrow> en_Value en = VSlot b \<longrightarrow>
        sl_ResumeDigest b = ''42'' \<longrightarrow> sl_Subject b = subj (demo_uuid 0) (demo_uuid 1))"
proof -
  from stage_3 obtain S where S: "at_stage 3 joined_world S" by blast
  note env = joined_env [OF S]
  have "sl_Subject b = subj (demo_uuid 0) (demo_uuid 1)"
    if "steps demo_service S S'" "mem_at (en_mem (sy_env S')) k = Some en" "en_Value en = VSlot b" "sl_ResumeDigest b = ''42''" for S' k en b
    using resume_digest_names_one_guest [OF env(1) that(1) env(3) _ that(2,3), of joined_slot] that(4) by (simp, metis)
  with env(1,3) show ?thesis by blast
qed

end
