(* ===== verification/Runs.thy ===== *)
theory Runs
  imports Calls
begin

text \<open>
  Symbolic execution of one call alone: how each store operation of a run acts on the entries
  of the store, as rewrite rules in the collection \<open>run_simps\<close>. The proofs of theories
  Management_Facts, Session_Facts and Recovery_Facts evaluate the methods with them.
\<close>

named_theorems run_simps \<open>evaluation of store operations on known entries\<close>

section \<open>The effect of a write and of a removal\<close>

definition put :: "memory \<Rightarrow> string \<Rightarrow> val \<Rightarrow> memory" where
  "put m k v = m\<lparr>me_revision := me_revision m + 1,
     me_entries := AList.update k \<lparr>en_Value = v, en_Revision = me_revision m + 1\<rparr> (me_entries m)\<rparr>"

definition del :: "memory \<Rightarrow> string \<Rightarrow> memory" where
  "del m k = m\<lparr>me_entries := AList.delete k (me_entries m)\<rparr>"

lemma put_at [simp]: "mem_at (put m k v) = (mem_at m)(k \<mapsto> \<lparr>en_Value = v, en_Revision = me_revision m + 1\<rparr>)"
  by (simp add: put_def mem_at_def fun_eq_iff)

lemma del_at [simp]: "mem_at (del m k) = (mem_at m)(k := None)"
  by (simp add: del_def mem_at_def fun_eq_iff)

lemma put_revision [simp]: "me_revision (put m k v) = me_revision m + 1" "me_revision (del m k) = me_revision m"
  by (simp_all add: put_def del_def)

lemma mem_get_at [run_simps]:
  "mem_at m k = Some en \<Longrightarrow> mem_get m k = Inr en"
  "mem_at m k = None \<Longrightarrow> mem_get m k = Inl StoreNotFound"
  by (simp_all add: mem.get_eq)

lemma mem_create_at [run_simps]:
  "mem_at m k = None \<Longrightarrow> mem_create m k v = (Inr (me_revision m + 1), put m k v)"
  "mem_at m k = Some en \<Longrightarrow> mem_create m k v = (Inl StoreExists, m)"
  by (simp_all add: mem_at_def mem_create_def put_def Let_def)

lemma mem_update_at [run_simps]:
  "mem_at m k = Some en \<Longrightarrow> en_Revision en = n \<Longrightarrow> mem_update m k v n = (Inr (me_revision m + 1), put m k v)"
  "mem_at m k = None \<Longrightarrow> mem_update m k v n = (Inl StoreNotFound, m)"
  by (simp_all add: mem_at_def mem_update_def put_def Let_def)

lemma mem_delete_at [run_simps]:
  "mem_at m k = Some en \<Longrightarrow> mem_delete m k = (Inr (), del m k)"
  "mem_at m k = None \<Longrightarrow> mem_delete m k = (Inl StoreNotFound, m)"
  by (simp_all add: mem_at_def mem_delete_def del_def)

lemma mem_delete_revision_at [run_simps]:
  "mem_at m k = Some en \<Longrightarrow> en_Revision en = n \<Longrightarrow> mem_delete_revision m k n = (Inr (), del m k)"
  "mem_at m k = None \<Longrightarrow> mem_delete_revision m k n = (Inl StoreNotFound, m)"
  by (simp_all add: mem_at_def mem_delete_revision_def del_def)

text \<open>A world whose store changed, and the rest of it kept.\<close>

lemma put_wf [simp]: "mem_wf m \<Longrightarrow> mem_wf (put m k v)"
  using set_update_subset [of k "\<lparr>en_Value = v, en_Revision = me_revision m + 1\<rparr>" "me_entries m"]
  by (fastforce simp: put_def mem_wf_def AList.distinct_update)

lemma del_wf [simp]: "mem_wf m \<Longrightarrow> mem_wf (del m k)"
  using set_delete_subset [of k "me_entries m"]
  by (auto simp: del_def mem_wf_def AList.distinct_delete)

section \<open>Loading\<close>

lemma run_load [run_simps]:
  "mem_at (w_mem w) (eventKey eid) = Some \<lparr>en_Value = VEvent ev, en_Revision = n\<rparr> \<Longrightarrow> run (loadEvent eid) w = (Inr (ev, n), w)"
  "mem_at (w_mem w) (eventKey eid) = None \<Longrightarrow> run (loadEvent eid) w = (Inl ErrNotFound, w)"
  "mem_at (w_mem w) (slotKey eid i) = Some \<lparr>en_Value = VSlot sl, en_Revision = n\<rparr> \<Longrightarrow> run (loadSlot eid i) w = (Inr (sl, n), w)"
  "mem_at (w_mem w) (slotKey eid i) = None \<Longrightarrow> run (loadSlot eid i) w = (Inl StoreNotFound, w)"
  by (simp_all add: run_loadEvent run_loadSlot)

lemma run_deleteIfExists:
  "run (deleteIfExists k) w = (Inr (), w\<lparr>w_mem := (if mem_at (w_mem w) k = None then w_mem w else del (w_mem w) k)\<rparr>)"
  by (cases "mem_at (w_mem w) k") (auto simp: deleteIfExists_def run_simps)

lemma del_absent: "mem_at m k = None \<Longrightarrow> mem_at (del m k) = mem_at m"
  by auto

lemma run_deleteIfExists_at:
  obtains m where "run (deleteIfExists k) w = (Inr (), w\<lparr>w_mem := m\<rparr>)" "mem_at m = (mem_at (w_mem w))(k := None)"
    "me_revision m = me_revision (w_mem w)" "mem_wf (w_mem w) \<Longrightarrow> mem_wf m"
proof
  let ?m = "if mem_at (w_mem w) k = None then w_mem w else del (w_mem w) k"
  show "run (deleteIfExists k) w = (Inr (), w\<lparr>w_mem := ?m\<rparr>)" by (rule run_deleteIfExists)
qed auto

end
