(* ===== verification/Frames.thy ===== *)
theory Frames
  imports Runs
begin

text \<open>
  What a program leaves as it was: the keys it may write (\<open>writes_in\<close>), and predicates on the
  store that a run keeps (\<open>keeps\<close>), with a rule for every operation.
\<close>

section \<open>The keys a program writes\<close>

primrec writes_in :: "(string \<Rightarrow> bool) \<Rightarrow> 'a prog \<Rightarrow> bool" where
  "writes_in K (Ret x) = True"
| "writes_in K (DoGet k c) = (\<forall>r. writes_in K (c r))"
| "writes_in K (DoCreate k v c) = (K k \<and> (\<forall>r. writes_in K (c r)))"
| "writes_in K (DoUpdate k v n c) = (K k \<and> (\<forall>r. writes_in K (c r)))"
| "writes_in K (DoDelete k c) = (K k \<and> (\<forall>r. writes_in K (c r)))"
| "writes_in K (DoDeleteRev k n c) = (K k \<and> (\<forall>r. writes_in K (c r)))"
| "writes_in K (DoList p c) = (\<forall>r. (\<forall>xs. r = Inr xs \<longrightarrow> (\<forall>x \<in> set xs. prefix p (fst x))) \<longrightarrow> writes_in K (c r))"
| "writes_in K (DoNow c) = (\<forall>r. writes_in K (c r))"
| "writes_in K (DoRand c) = (\<forall>r. writes_in K (c r))"
| "writes_in K (DoUuid c) = (\<forall>r. writes_in K (c r))"
| "writes_in K (DoCleanup q c) = (\<forall>r. writes_in K (c r))"
| "writes_in K (DoSign q c) = (\<forall>r. writes_in K (c r))"
| "writes_in K (DoCtx c) = (\<forall>r. writes_in K (c r))"

lemma writes_in_bind: "writes_in K p \<Longrightarrow> (\<And>x. writes_in K (f x)) \<Longrightarrow> writes_in K (prog_bind p f)"
  by (induction p) auto

lemma writes_in_tryp: "writes_in K p \<Longrightarrow> (\<And>x. writes_in K (f x)) \<Longrightarrow> writes_in K (tryp p f)"
  unfolding tryp_def by (rule writes_in_bind) (auto split: sum.splits)

lemmas writes_intros = writes_in_bind writes_in_tryp

lemma mem_other_key:
  "k' \<noteq> k \<Longrightarrow> mem_at (snd (mem_create m k v)) k' = mem_at m k'" "k' \<noteq> k \<Longrightarrow> mem_at (snd (mem_update m k v n)) k' = mem_at m k'"
  "k' \<noteq> k \<Longrightarrow> mem_at (snd (mem_delete m k)) k' = mem_at m k'" "k' \<noteq> k \<Longrightarrow> mem_at (snd (mem_delete_revision m k n)) k' = mem_at m k'"
  by (auto simp: mem_at_def mem_defs Let_def split: option.splits)

lemma mem_list_prefix: "x \<in> set (mem_list m p) \<Longrightarrow> prefix p (fst x)"
  by (auto simp: mem_list_def)

lemma writes_in_run: "writes_in K p \<Longrightarrow> \<not> K k \<Longrightarrow> mem_at (w_mem (snd (run p w))) k = mem_at (w_mem w) k"
proof (induction p arbitrary: w)
  case (DoCreate k' v c)
  then show ?case using mem_other_key(1) [of k k' "w_mem w" v] by (auto simp: case_prod_beta)
next
  case (DoUpdate k' v n c)
  then show ?case using mem_other_key(2) [of k k' "w_mem w" v n] by (auto simp: case_prod_beta)
next
  case (DoDelete k' c)
  then show ?case using mem_other_key(3) [of k k' "w_mem w"] by (auto simp: case_prod_beta)
next
  case (DoDeleteRev k' n c)
  then show ?case using mem_other_key(4) [of k k' "w_mem w" n] by (auto simp: case_prod_beta)
qed (auto simp: mem_list_prefix)

section \<open>What a run keeps\<close>

text \<open>
  From a store with \<open>J\<close>, a run ends in a store with \<open>J\<close> and returns a result with \<open>Q\<close>. A read
  may assume that it sees a store with \<open>J\<close>, which is what \<open>writes_in\<close> does not offer.
\<close>

definition keeps :: "(memory \<Rightarrow> bool) \<Rightarrow> ('a \<Rightarrow> bool) \<Rightarrow> 'a prog \<Rightarrow> bool" where
  "keeps J Q p \<longleftrightarrow> (\<forall>w. J (w_mem w) \<longrightarrow> Q (fst (run p w)) \<and> J (w_mem (snd (run p w))))"

lemma keepsD: "keeps J Q p \<Longrightarrow> J (w_mem w) \<Longrightarrow> run p w = (x, w') \<Longrightarrow> Q x \<and> J (w_mem w')"
  unfolding keeps_def by (metis fst_conv snd_conv)

lemma keeps_bind: "keeps J P p \<Longrightarrow> (\<And>x. P x \<Longrightarrow> keeps J Q (f x)) \<Longrightarrow> keeps J Q (prog_bind p f)"
  unfolding keeps_def by (auto split: prod.splits)

lemma keeps_tryp:
  "keeps J (\<lambda>r. case r of Inl e \<Rightarrow> Q (Inl e) | Inr x \<Rightarrow> P x) p \<Longrightarrow> (\<And>x. P x \<Longrightarrow> keeps J Q (f x)) \<Longrightarrow> keeps J Q (tryp p f)"
  unfolding tryp_def by (rule keeps_bind) (auto simp: keeps_def split: sum.splits)

lemma keeps_steps:
  "Q x \<Longrightarrow> keeps J Q (Ret x)"
  "(\<And>m. J m \<Longrightarrow> keeps J Q (c1 (mem_get m k))) \<Longrightarrow> keeps J Q (DoGet k c1)"
  "(\<And>m. J m \<Longrightarrow> J (snd (mem_create m k v))) \<Longrightarrow> (\<And>r. keeps J Q (c2 r)) \<Longrightarrow> keeps J Q (DoCreate k v c2)"
  "(\<And>m. J m \<Longrightarrow> J (snd (mem_update m k v n))) \<Longrightarrow> (\<And>r. keeps J Q (c2 r)) \<Longrightarrow> keeps J Q (DoUpdate k v n c2)"
  "(\<And>m. J m \<Longrightarrow> J (snd (mem_delete m k))) \<Longrightarrow> (\<And>r. keeps J Q (c3 r)) \<Longrightarrow> keeps J Q (DoDelete k c3)"
  "(\<And>m. J m \<Longrightarrow> J (snd (mem_delete_revision m k n))) \<Longrightarrow> (\<And>r. keeps J Q (c3 r)) \<Longrightarrow> keeps J Q (DoDeleteRev k n c3)"
  "(\<And>t. keeps J Q (c4 t)) \<Longrightarrow> keeps J Q (DoNow c4)"
  "(\<And>b. keeps J Q (c5 b)) \<Longrightarrow> keeps J Q (DoRand c5)"
  "(\<And>u. keeps J Q (c6 u)) \<Longrightarrow> keeps J Q (DoUuid c6)"
  "(\<And>a. keeps J Q (c7 a)) \<Longrightarrow> keeps J Q (DoCleanup q c7)"
  "(\<And>a. keeps J Q (c8 a)) \<Longrightarrow> keeps J Q (DoSign j c8)"
  unfolding keeps_def by (simp_all add: case_prod_beta)

lemmas keeps_intros = keeps_steps keeps_bind keeps_tryp

lemma mem_after:
  "mem_at (snd (mem_create m k v)) = mem_at m \<or> mem_at (snd (mem_create m k v)) = (mem_at m)(k \<mapsto> \<lparr>en_Value = v, en_Revision = me_revision m + 1\<rparr>)"
  "mem_at (snd (mem_update m k v n)) = mem_at m \<or> mem_at (snd (mem_update m k v n)) = (mem_at m)(k \<mapsto> \<lparr>en_Value = v, en_Revision = me_revision m + 1\<rparr>)"
  "mem_at (snd (mem_delete m k)) = mem_at m \<or> mem_at (snd (mem_delete m k)) = (mem_at m)(k := None)"
  "mem_at (snd (mem_delete_revision m k n)) = mem_at m \<or> mem_at (snd (mem_delete_revision m k n)) = (mem_at m)(k := None)"
  by (auto simp: mem_at_def mem_defs Let_def fun_eq_iff split: option.splits)

end
