(* ===== verification/Management_Facts.thy ===== *)
theory Management_Facts
  imports Runs Scenario Frames
begin

text \<open>
  What the presenter's methods do when they run alone: who may call them, what they write, and
  how many writes they attempt; and what a creation leaves on a store whose calls may fail.
\<close>

section \<open>Authorization\<close>

lemma forbidden_operate:
  assumes "mem_at (w_mem w) (eventKey eid) = Some \<lparr>en_Value = VEvent ev, en_Revision = n\<rparr>" and "\<not> can ev pr CapOperate"
  shows "run (SetState f pr eid t) w = (Inl ErrForbidden, w)"
    and "0 \<le> c \<Longrightarrow> c \<le> sv_maxCapacity s \<Longrightarrow> run (UpdateCapacity s pr eid c) w = (Inl ErrForbidden, w)"
    and "run (RotateInvitation s pr eid) w = (Inl ErrForbidden, w)"
    and "run (ReleaseSlot s pr eid i) w = (Inl ErrForbidden, w)"
  using assms
  by (simp_all add: SetState_def UpdateCapacity_def RotateInvitation_def ReleaseSlot_def GetEvent_def numeral_eq_Suc run_simps)

text \<open>
  a presenter without the operate capability changes nothing. For an event in the store,
  each operating method called by a principal that neither owns it nor was granted operate
  returns ErrForbidden and leaves the whole world as it was.
\<close>

theorem operate_required:
  assumes "mem_at (w_mem w) (eventKey eid) = Some \<lparr>en_Value = VEvent ev, en_Revision = n\<rparr>" and "\<not> can ev pr CapOperate"
    and "0 \<le> c" "c \<le> sv_maxCapacity s"
  shows "run (SetState f pr eid t) w = (Inl ErrForbidden, w) \<and> run (UpdateCapacity s pr eid c) w = (Inl ErrForbidden, w) \<and>
    run (RotateInvitation s pr eid) w = (Inl ErrForbidden, w) \<and> run (ReleaseSlot s pr eid i) w = (Inl ErrForbidden, w)"
  using forbidden_operate [OF assms(1,2)] assms(3,4) by blast

lemma opened_at:
  "mem_at (w_mem opened_world) (eventKey (demo_uuid 0)) = Some \<lparr>en_Value = VEvent opened_event, en_Revision = 3\<rparr>"
  by (simp add: mem_at_def opened_world_def)

lemma opened_can: "can opened_event pr c \<longleftrightarrow> pr = ''host''"
  by (auto simp: can_def cohost_caps_def opened_event_def created_event_def new_event_def)

theorem operate_required_witness:
  "run (SetState 1 ''mallory'' (demo_uuid 0) Paused) opened_world = (Inl ErrForbidden, opened_world)"
  using operate_required [OF opened_at, of "''mallory''" 0 demo_service 1 Paused 1] by (simp add: opened_can)

text \<open>
  deletion needs its own grant, and only the owner manages cohosts. A principal without the
  delete capability gets ErrForbidden from DeleteEvent, and one that is not the owner gets
  ErrForbidden from SetCohost, with nothing changed; operating an event gives neither right.
\<close>

theorem delete_and_cohosts_guarded:
  assumes "mem_at (w_mem w) (eventKey eid) = Some \<lparr>en_Value = VEvent ev, en_Revision = n\<rparr>"
    and "\<not> can ev pr CapDelete" and "\<forall>c \<in> set caps. valid_capability c"
  shows "run (DeleteEvent s pr eid) w = (Inl ErrForbidden, w) \<and> run (SetCohost pr eid cohost caps) w = (Inl ErrForbidden, w)"
proof -
  have "ev_OwnerSubject ev \<noteq> pr" using assms(2) by (auto simp: can_def)
  with assms show ?thesis
    by (auto simp: DeleteEvent_def SetCohost_def numeral_eq_Suc run_simps)
qed

theorem delete_and_cohosts_guarded_witness:
  "run (DeleteEvent demo_service ''mallory'' (demo_uuid 0)) opened_world = (Inl ErrForbidden, opened_world)"
  using delete_and_cohosts_guarded [OF opened_at, of "''mallory''" "[]" demo_service "''x''"] by (simp add: opened_can)

section \<open>State changes\<close>

text \<open>A slot of the listing before and after it was reserved.\<close>

definition reserved_as :: "entry \<Rightarrow> entry \<Rightarrow> bool" where
  "reserved_as en en' \<longleftrightarrow> (\<exists>sl. en_Value en = VSlot sl \<and>
     (if sl_Reserved sl \<or> sl_Cleanup sl \<noteq> None then en' = en else en_Value en' = VSlot (sl\<lparr>sl_Reserved := True\<rparr>)))"

lemma reserved_as_entry:
  "reserved_as en en' \<Longrightarrow> \<exists>sl r. en_Value en = VSlot sl \<and>
     Some en' = (if sl_Reserved sl \<or> sl_Cleanup sl \<noteq> None then Some en else Some \<lparr>en_Value = VSlot (sl\<lparr>sl_Reserved := True\<rparr>), en_Revision = r\<rparr>)"
  by (cases en') (auto simp: reserved_as_def)

lemma run_reserve_loop:
  assumes "distinct (map fst xs)" "\<And>k en. (k, en) \<in> set xs \<Longrightarrow> mem_at (w_mem w) k = Some en \<and> (\<exists>sl. en_Value en = VSlot sl)"
  shows "\<exists>m. run (reserve_loop again xs) w = (Inr (), w\<lparr>w_mem := m\<rparr>) \<and>
    (\<forall>(k, en) \<in> set xs. \<exists>en'. mem_at m k = Some en' \<and> reserved_as en en') \<and>
    (\<forall>k. k \<notin> fst ` set xs \<longrightarrow> mem_at m k = mem_at (w_mem w) k)"
  using assms
proof (induction xs arbitrary: w)
  case Nil
  have "run (reserve_loop again []) w = (Inr (), w\<lparr>w_mem := w_mem w\<rparr>)" by simp
  then show ?case by (intro exI [of _ "w_mem w"]) simp
next
  case (Cons x xs)
  obtain k en where x: "x = (k, en)" by fastforce
  from Cons.prems(2) [of k en] x obtain sl where sl: "mem_at (w_mem w) k = Some en" "en_Value en = VSlot sl" by auto
  from Cons.prems(1) x have k: "k \<notin> fst ` set xs" by auto
  show ?case
  proof (cases "sl_Reserved sl \<or> sl_Cleanup sl \<noteq> None")
    case True
    have "\<exists>m. run (reserve_loop again xs) w = (Inr (), w\<lparr>w_mem := m\<rparr>) \<and>
      (\<forall>(k, en) \<in> set xs. \<exists>en'. mem_at m k = Some en' \<and> reserved_as en en') \<and>
      (\<forall>k. k \<notin> fst ` set xs \<longrightarrow> mem_at m k = mem_at (w_mem w) k)"
    proof (rule Cons.IH)
      fix k' en' assume "(k', en') \<in> set xs"
      with Cons.prems(2) [of k' en'] show "mem_at (w_mem w) k' = Some en' \<and> (\<exists>sl. en_Value en' = VSlot sl)" by simp
    qed (use Cons.prems(1) in simp)
    then obtain m where m: "run (reserve_loop again xs) w = (Inr (), w\<lparr>w_mem := m\<rparr>)"
      "\<forall>(k, en) \<in> set xs. \<exists>en'. mem_at m k = Some en' \<and> reserved_as en en'"
      "\<forall>k. k \<notin> fst ` set xs \<longrightarrow> mem_at m k = mem_at (w_mem w) k"
      by blast
    have "run (reserve_loop again (x # xs)) w = (Inr (), w\<lparr>w_mem := m\<rparr>)" using True sl m(1) x by simp
    moreover have "mem_at m k = Some en \<and> reserved_as en en" using m(3) k sl True by (auto simp: reserved_as_def)
    ultimately show ?thesis using m x by (intro exI [of _ m]) auto
  next
    case False
    let ?v = "VSlot (sl\<lparr>sl_Reserved := True\<rparr>)"
    let ?w = "w\<lparr>w_mem := put (w_mem w) k ?v\<rparr>"
    have upd: "mem_update (w_mem w) k ?v (en_Revision en) = (Inr (me_revision (w_mem w) + 1), put (w_mem w) k ?v)"
      using sl(1) by (rule mem_update_at) simp
    have at: "mem_at (w_mem ?w) k' = mem_at (w_mem w) k'" if "k' \<in> fst ` set xs" for k' using that k by auto
    have "\<exists>m. run (reserve_loop again xs) ?w = (Inr (), ?w\<lparr>w_mem := m\<rparr>) \<and>
      (\<forall>(k, en) \<in> set xs. \<exists>en'. mem_at m k = Some en' \<and> reserved_as en en') \<and>
      (\<forall>k. k \<notin> fst ` set xs \<longrightarrow> mem_at m k = mem_at (w_mem ?w) k)"
    proof (rule Cons.IH)
      fix k' en' assume x': "(k', en') \<in> set xs"
      with Cons.prems(2) [of k' en'] at [of k'] show "mem_at (w_mem ?w) k' = Some en' \<and> (\<exists>sl. en_Value en' = VSlot sl)"
        by (force simp: image_iff)
    qed (use Cons.prems(1) in simp)
    then obtain m where m: "run (reserve_loop again xs) ?w = (Inr (), ?w\<lparr>w_mem := m\<rparr>)"
      "\<forall>(k, en) \<in> set xs. \<exists>en'. mem_at m k = Some en' \<and> reserved_as en en'"
      "\<forall>k. k \<notin> fst ` set xs \<longrightarrow> mem_at m k = mem_at (w_mem ?w) k"
      by blast
    have "run (reserve_loop again (x # xs)) w = (Inr (), w\<lparr>w_mem := m\<rparr>)" using False sl m(1) x upd by simp
    moreover have "\<exists>en'. mem_at m k = Some en' \<and> reserved_as en en'" using m(3) k sl False by (simp add: reserved_as_def)
    ultimately show ?thesis using m x by (intro exI [of _ m]) auto
  qed
qed

lemma run_reserveSlots:
  assumes wf: "mem_wf (w_mem w)" and sl: "\<And>k en. prefix (slotPrefix eid) k \<Longrightarrow> mem_at (w_mem w) k = Some en \<Longrightarrow> \<exists>sl. en_Value en = VSlot sl"
  shows "\<exists>m. run (reserveSlots (Suc fuel) eid) w = (Inr (), w\<lparr>w_mem := m\<rparr>) \<and>
    (\<forall>k en. prefix (slotPrefix eid) k \<longrightarrow> mem_at (w_mem w) k = Some en \<longrightarrow> (\<exists>en'. mem_at m k = Some en' \<and> reserved_as en en')) \<and>
    (\<forall>k. \<not> prefix (slotPrefix eid) k \<or> mem_at (w_mem w) k = None \<longrightarrow> mem_at m k = mem_at (w_mem w) k)"
proof -
  let ?xs = "mem_list (w_mem w) (slotPrefix eid)"
  have set: "(k, en) \<in> set ?xs \<longleftrightarrow> prefix (slotPrefix eid) k \<and> mem_at (w_mem w) k = Some en" for k en
    by (rule mem_listing_at [OF wf])
  have "distinct (map fst ?xs)" by (rule mem_listing_distinct [OF wf])
  from run_reserve_loop [OF this, of w "reserveSlots fuel eid"] sl set obtain m where m:
    "run (reserve_loop (reserveSlots fuel eid) ?xs) w = (Inr (), w\<lparr>w_mem := m\<rparr>)"
    "\<forall>(k, en) \<in> set ?xs. \<exists>en'. mem_at m k = Some en' \<and> reserved_as en en'"
    "\<forall>k. k \<notin> fst ` set ?xs \<longrightarrow> mem_at m k = mem_at (w_mem w) k"
    by blast
  have "k \<notin> fst ` set ?xs" if "\<not> prefix (slotPrefix eid) k \<or> mem_at (w_mem w) k = None" for k
    using that set by force
  moreover have "\<exists>en'. mem_at m k = Some en' \<and> reserved_as en en'" if "prefix (slotPrefix eid) k" "mem_at (w_mem w) k = Some en" for k en
  proof -
    from that set have "(k, en) \<in> set ?xs" by blast
    with m(2) show ?thesis by blast
  qed
  ultimately show ?thesis using m(1,3) by (intro exI [of _ m]) simp
qed

text \<open>
  C18: pausing reserves every guest. Run alone, pausing an open event ends (one pass over the
  slots is enough), returns the event as paused, and stores it so. Every slot of the event stays:
  one that is reserved or being cleaned up is what it was, and any other is the same slot, marked
  reserved. No slot appears, and no other key is changed.
\<close>

theorem pause_reserves_slots:
  assumes "mem_wf (w_mem w)" and "mem_at (w_mem w) (eventKey eid) = Some \<lparr>en_Value = VEvent ev, en_Revision = n\<rparr>"
    and "can ev pr CapOperate" and "ev_State ev = Open \<or> ev_State ev = Paused"
    and "\<And>k en. prefix (slotPrefix eid) k \<Longrightarrow> mem_at (w_mem w) k = Some en \<Longrightarrow> \<exists>sl. en_Value en = VSlot sl"
  shows "\<exists>ev' w'. run (SetState (Suc fuel) pr eid Paused) w = (Inr ev', w') \<and>
    ev' = ev\<lparr>ev_State := Paused, ev_UpdatedAt := w_clock w (w_ticks w)\<rparr> \<and>
    (\<exists>r. mem_at (w_mem w') (eventKey eid) = Some \<lparr>en_Value = VEvent ev', en_Revision = r\<rparr>) \<and>
    (\<forall>k. prefix (slotPrefix eid) k \<longrightarrow> (case mem_at (w_mem w) k of
        None \<Rightarrow> mem_at (w_mem w') k = None
      | Some en \<Rightarrow> \<exists>sl r. en_Value en = VSlot sl \<and> mem_at (w_mem w') k =
          (if sl_Reserved sl \<or> sl_Cleanup sl \<noteq> None then Some en
           else Some \<lparr>en_Value = VSlot (sl\<lparr>sl_Reserved := True\<rparr>), en_Revision = r\<rparr>))) \<and>
    (\<forall>k. k \<noteq> eventKey eid \<longrightarrow> \<not> prefix (slotPrefix eid) k \<longrightarrow> mem_at (w_mem w') k = mem_at (w_mem w) k)"
proof -
  let ?ev = "ev\<lparr>ev_State := Paused, ev_UpdatedAt := w_clock w (w_ticks w)\<rparr>"
  let ?w = "w\<lparr>w_ticks := w_ticks w + 1, w_mem := put (w_mem w) (eventKey eid) (VEvent ?ev)\<rparr>"
  have pre: "mem_at (w_mem ?w) k = mem_at (w_mem w) k" if "prefix (slotPrefix eid) k" for k using that by auto
  have "mem_wf (w_mem ?w)" using assms(1) by simp
  from run_reserveSlots [OF this, of eid fuel] assms(5) pre obtain m where m:
    "run (reserveSlots (Suc fuel) eid) ?w = (Inr (), ?w\<lparr>w_mem := m\<rparr>)"
    "\<forall>k en. prefix (slotPrefix eid) k \<longrightarrow> mem_at (w_mem ?w) k = Some en \<longrightarrow> (\<exists>en'. mem_at m k = Some en' \<and> reserved_as en en')"
    "\<forall>k. \<not> prefix (slotPrefix eid) k \<or> mem_at (w_mem ?w) k = None \<longrightarrow> mem_at m k = mem_at (w_mem ?w) k"
    by metis
  have run: "run (SetState (Suc fuel) pr eid Paused) w = (Inr ?ev, ?w\<lparr>w_mem := m\<rparr>)"
    using assms(2-4) m(1) mem_update_at(1) [OF assms(2), of n "VEvent ?ev"]
    by (auto simp: SetState_def numeral_eq_Suc run_simps validTransition_def Let_def simp del: reserveSlots.simps)
  have slots: "case mem_at (w_mem w) k of None \<Rightarrow> mem_at m k = None
      | Some en \<Rightarrow> \<exists>sl r. en_Value en = VSlot sl \<and> mem_at m k = (if sl_Reserved sl \<or> sl_Cleanup sl \<noteq> None then Some en
           else Some \<lparr>en_Value = VSlot (sl\<lparr>sl_Reserved := True\<rparr>), en_Revision = r\<rparr>)"
    if k: "prefix (slotPrefix eid) k" for k
  proof (cases "mem_at (w_mem w) k")
    case None
    with m(3) pre [OF k] show ?thesis by simp
  next
    case (Some en)
    with m(2) k pre [OF k] obtain en' where en': "mem_at m k = Some en'" "reserved_as en en'" by auto
    show ?thesis unfolding Some en'(1) option.case by (rule reserved_as_entry [OF en'(2)])
  qed
  have kept: "mem_at m (eventKey eid) = Some \<lparr>en_Value = VEvent ?ev, en_Revision = me_revision (w_mem w) + 1\<rparr>"
    using m(3) by simp
  have others: "mem_at m k = mem_at (w_mem w) k" if "k \<noteq> eventKey eid" "\<not> prefix (slotPrefix eid) k" for k
    using m(3) that by simp
  have mem: "w_mem (?w\<lparr>w_mem := m\<rparr>) = m" by simp
  show ?thesis
    by (rule exI [of _ ?ev], rule exI [of _ "?w\<lparr>w_mem := m\<rparr>"], unfold mem, intro conjI allI impI)
      (rule run, rule refl, rule exI, rule kept, rule slots, assumption, rule others, assumption+)
qed

lemma joined_at:
  "mem_at (w_mem joined_world) (eventKey (demo_uuid 0)) = Some \<lparr>en_Value = VEvent opened_event, en_Revision = 3\<rparr>"
  "mem_at (w_mem joined_world) (slotKey (demo_uuid 0) 1) = Some \<lparr>en_Value = VSlot joined_slot, en_Revision = 4\<rparr>"
  "mem_wf (w_mem joined_world)"
  by (simp_all add: mem_at_def mem_wf_def joined_world_def)

lemma joined_slots:
  "prefix (slotPrefix (demo_uuid 0)) k \<Longrightarrow> mem_at (w_mem joined_world) k = Some en \<Longrightarrow> en_Value en = VSlot joined_slot"
  by (auto simp: mem_at_def joined_world_def split: if_splits)

theorem pause_reserves_slots_witness:
  "\<exists>ev' w' r. run (SetState 1 ''host'' (demo_uuid 0) Paused) joined_world = (Inr ev', w') \<and> ev_State ev' = Paused \<and>
    mem_at (w_mem w') (slotKey (demo_uuid 0) 1) = Some \<lparr>en_Value = VSlot (joined_slot\<lparr>sl_Reserved := True\<rparr>), en_Revision = r\<rparr>"
proof -
  have "can opened_event ''host'' CapOperate" by (simp add: opened_can)
  from pause_reserves_slots [OF joined_at(3,1) this, of 0] joined_slots obtain ev' w' where w':
    "run (SetState 1 ''host'' (demo_uuid 0) Paused) joined_world = (Inr ev', w')" "ev_State ev' = Paused"
    "\<forall>k. prefix (slotPrefix (demo_uuid 0)) k \<longrightarrow> (case mem_at (w_mem joined_world) k of
        None \<Rightarrow> mem_at (w_mem w') k = None
      | Some en \<Rightarrow> \<exists>sl r. en_Value en = VSlot sl \<and> mem_at (w_mem w') k =
          (if sl_Reserved sl \<or> sl_Cleanup sl \<noteq> None then Some en
           else Some \<lparr>en_Value = VSlot (sl\<lparr>sl_Reserved := True\<rparr>), en_Revision = r\<rparr>))" by fastforce
  have "prefix (slotPrefix (demo_uuid 0)) (slotKey (demo_uuid 0) 1)" by (simp add: slotPrefix_def slotKey_def)
  with w'(3) joined_at(2) have "\<exists>r. mem_at (w_mem w') (slotKey (demo_uuid 0) 1) = Some \<lparr>en_Value = VSlot (joined_slot\<lparr>sl_Reserved := True\<rparr>), en_Revision = r\<rparr>"
    by (fastforce simp: joined_slot_def new_slot_def)
  with w'(1,2) show ?thesis by blast
qed

lemma writes_reserve_loop:
  assumes "writes_in (prefix p) again" "\<forall>x \<in> set xs. prefix p (fst x)"
  shows "writes_in (prefix p) (reserve_loop again xs)"
  using assms(2) by (induction xs) (use assms(1) in \<open>auto split: sum.splits\<close>)

lemma writes_reserveSlots: "writes_in (prefix (slotPrefix eid)) (reserveSlots fuel eid)"
  by (induction fuel) (auto intro!: writes_reserve_loop split: sum.splits)

text \<open>
  C23: SetState is the state machine of events. For a presenter that may operate the event, it
  answers a conflict and changes nothing unless the target is the present state or one of the
  three transitions: draft opens, open is paused, paused opens. Otherwise it stores the event in
  the target state, where it still is at the end; after a pause the slots are reserved, and an
  error of that is the answer.
\<close>

theorem set_state_follows_table:
  assumes "mem_at (w_mem w) (eventKey eid) = Some \<lparr>en_Value = VEvent ev, en_Revision = n\<rparr>" and "can ev pr CapOperate"
  shows "let ev' = ev\<lparr>ev_State := t, ev_UpdatedAt := w_clock w (w_ticks w)\<rparr>;
        w1 = w\<lparr>w_ticks := w_ticks w + 1, w_mem := put (w_mem w) (eventKey eid) (VEvent ev')\<rparr>
     in if ev_State ev = t \<or> (ev_State ev, t) \<in> {(Draft, Open), (Open, Paused), (Paused, Open)}
        then run (SetState f pr eid t) w =
            (if t = Paused then run (tryp (reserveSlots f eid) (\<lambda>_. Ret (Inr ev'))) w1 else (Inr ev', w1)) \<and>
          (\<exists>r. mem_at (w_mem (snd (run (SetState f pr eid t) w))) (eventKey eid) = Some \<lparr>en_Value = VEvent ev', en_Revision = r\<rparr>)
        else run (SetState f pr eid t) w = (Inl (Wrapped ''cannot transition'' ErrConflict), w)"
proof -
  let ?ev = "ev\<lparr>ev_State := t, ev_UpdatedAt := w_clock w (w_ticks w)\<rparr>"
  let ?w = "w\<lparr>w_ticks := w_ticks w + 1, w_mem := put (w_mem w) (eventKey eid) (VEvent ?ev)\<rparr>"
  let ?p = "tryp (reserveSlots f eid) (\<lambda>_. Ret (Inr ?ev))"
  have table: "validTransition (ev_State ev) t \<longleftrightarrow> (ev_State ev, t) \<in> {(Draft, Open), (Open, Paused), (Paused, Open)}"
    by (auto simp: validTransition_def)
  have run: "run (SetState f pr eid t) w =
    (if ev_State ev = t \<or> validTransition (ev_State ev) t then if t = Paused then run ?p ?w else (Inr ?ev, ?w)
     else (Inl (Wrapped ''cannot transition'' ErrConflict), w))"
    using assms mem_update_at(1) [OF assms(1), of n]
    by (auto simp: SetState_def numeral_eq_Suc run_simps transition_error_def Let_def simp del: reserveSlots.simps)
  have "writes_in (prefix (slotPrefix eid)) ?p" by (rule writes_in_tryp [OF writes_reserveSlots]) simp
  from writes_in_run [OF this, of "eventKey eid" ?w] have "mem_at (w_mem (snd (run ?p ?w))) (eventKey eid) = mem_at (w_mem ?w) (eventKey eid)" by simp
  then have kept: "\<exists>r. mem_at (w_mem (snd (run ?p ?w))) (eventKey eid) = Some \<lparr>en_Value = VEvent ?ev, en_Revision = r\<rparr>" by simp
  show ?thesis
  proof (cases "t = Paused")
    case True
    show ?thesis using kept unfolding Let_def table [symmetric] run unfolding True by (simp del: run_tryp)
  next
    case False
    then show ?thesis unfolding Let_def table [symmetric] run by (simp del: run_tryp)
  qed
qed

theorem set_state_follows_table_witness:
  "run (SetState 1 ''host'' (demo_uuid 0) Draft) opened_world = (Inl (Wrapped ''cannot transition'' ErrConflict), opened_world) \<and>
   (\<exists>ev r. ev_State ev = Paused \<and>
     mem_at (w_mem (snd (run (SetState 1 ''host'' (demo_uuid 0) Paused) opened_world))) (eventKey (demo_uuid 0)) = Some \<lparr>en_Value = VEvent ev, en_Revision = r\<rparr>)"
proof -
  have can: "can opened_event ''host'' CapOperate" by (simp add: opened_can)
  have "ev_State opened_event = Open" by simp
  then show ?thesis
    using set_state_follows_table [OF opened_at can, of Draft 1] set_state_follows_table [OF opened_at can, of Paused 1]
    by (fastforce simp: Let_def)
qed

section \<open>Creation\<close>

text \<open>
  C19: run alone, creating an event is all or nothing. On a store that fails no call, when
  CreateEvent fails (the input, the random bytes, an id or a digest that is taken), every key of
  the store holds what it held before. When it succeeds, the event is stored as a
  draft with a valid capacity, the URL it returns ends in a secret whose digest is the
  event's invitation and leads to the event, and no other key has changed.
\<close>

theorem create_event_all_or_nothing:
  "case run (CreateEvent s owner input) w of
     (Inl e, w') \<Rightarrow> mem_at (w_mem w') = mem_at (w_mem w)
   | (Inr (ev, url), w') \<Rightarrow>
       ev_State ev = Draft \<and> ev_OwnerSubject ev = owner \<and> 0 \<le> ev_Capacity ev \<and> ev_Capacity ev \<le> sv_maxCapacity s \<and>
       mem_at (w_mem w) (eventKey (ev_ID ev)) = None \<and>
       (\<exists>secret n m. url = sv_publicDemoURL s @ ''#'' @ secret \<and> CHR ''#'' \<notin> set secret \<and>
          ev_InvitationDigest ev = digest s secret \<and>
          mem_at (w_mem w') = (mem_at (w_mem w))(eventKey (ev_ID ev) \<mapsto> \<lparr>en_Value = VEvent ev, en_Revision = n\<rparr>,
            invitationKey (digest s secret) \<mapsto> \<lparr>en_Value = VText (ev_ID ev), en_Revision = m\<rparr>))"
proof -
  let ?in = "input\<lparr>ci_Name := trim_space (ci_Name input), ci_ApplicationID := trim_space (ci_ApplicationID input)\<rparr>"
  show ?thesis
  proof (cases "valid_input s owner ?in \<and> (\<exists>bs. w_rand w (w_rands w) = Inr bs)")
    case False
    then show ?thesis
      by (cases "w_rand w (w_rands w)") (auto simp: CreateEvent_def randomSecret_def Let_def)
  next
    case True
    then obtain bs where v: "valid_input s owner ?in" and bs: "w_rand w (w_rands w) = Inr bs" by blast
    let ?ev = "new_event owner ?in (w_uuid w (w_uuids w)) (digest s (b64url bs)) (w_clock w (w_ticks w))"
    have sel: "ev_State ?ev = Draft" "ev_OwnerSubject ?ev = owner" "ev_InvitationDigest ?ev = digest s (b64url bs)" "ev_ID ?ev = w_uuid w (w_uuids w)"
      "ev_Capacity ?ev = ci_Capacity input"
      by (simp_all add: new_event_def)
    from v have cap: "0 \<le> ci_Capacity input" "ci_Capacity input \<le> sv_maxCapacity s" by (simp_all add: valid_input_def)
    show ?thesis
    proof (cases "mem_at (w_mem w) (eventKey (w_uuid w (w_uuids w)))")
      case (Some en)
      then show ?thesis using v bs by (simp add: CreateEvent_def randomSecret_def Let_def run_simps sel)
    next
      case None
      show ?thesis
      proof (cases "mem_at (w_mem w) (invitationKey (digest s (b64url bs)))")
        case (Some en)
        then show ?thesis using v bs None
          by (simp add: CreateEvent_def randomSecret_def Let_def run_simps sel) auto
      next
        case inv: None
        show ?thesis using v bs None inv cap
          by (simp add: CreateEvent_def randomSecret_def Let_def run_simps sel) (auto simp: invitationURL_def b64url_no_hash)
      qed
    qed
  qed
qed

section \<open>Creation on a store that fails\<close>

text \<open>One program alone, on an environment that may fail every call and lose acknowledgements.\<close>

inductive alone :: "service \<Rightarrow> 'a prog \<Rightarrow> env \<Rightarrow> 'a prog \<Rightarrow> env \<Rightarrow> bool" for s where
  here: "alone s p E p E"
| step: "op_step s p E p1 E1 \<Longrightarrow> alone s p1 E1 p2 E2 \<Longrightarrow> alone s p E p2 E2"

inductive_cases alone_RetE: "alone s (Ret x) E p E'"
inductive_cases alone_CreateE: "alone s (DoCreate k v c) E (Ret x) E'"
inductive_cases alone_DeleteE: "alone s (DoDelete k c) E (Ret x) E'"
inductive_cases alone_NowE: "alone s (DoNow c) E (Ret x) E'"
inductive_cases alone_RandE: "alone s (DoRand c) E (Ret x) E'"
inductive_cases alone_UuidE: "alone s (DoUuid c) E (Ret x) E'"

lemma alone_Ret: "alone s (Ret x) E (Ret y) E' \<longleftrightarrow> y = x \<and> E' = E"
  by (auto elim: alone_RetE intro: alone.here)

text \<open>What a faulty create and a faulty delete may leave, and what they answer.\<close>

definition creates :: "(string \<Rightarrow> entry option) \<Rightarrow> string \<Rightarrow> val \<Rightarrow> err + nat \<Rightarrow> (string \<Rightarrow> entry option) \<Rightarrow> bool" where
  "creates at k v r at' \<longleftrightarrow> at' = at \<and> isl r \<or> at k = None \<and> (\<exists>n. at' = at(k \<mapsto> \<lparr>en_Value = v, en_Revision = n\<rparr>))"

lemma alone_Create:
  assumes "alone s (DoCreate k v c) E (Ret x) E'"
  shows "\<exists>r E1. creates (mem_at (en_mem E)) k v r (mem_at (en_mem E1)) \<and> alone s (c r) E1 (Ret x) E'"
proof -
  from assms obtain r m where rm: "faulty (mem_create (en_mem E) k v) (en_mem E) r m" "alone s (c r) (E\<lparr>en_mem := m\<rparr>) (Ret x) E'"
    by (auto elim!: alone_CreateE op_step_CreateE)
  have "creates (mem_at (en_mem E)) k v r (mem_at m)"
  proof (cases "mem_at (en_mem E) k")
    case None
    with rm(1) show ?thesis by (auto simp: creates_def mem_create_at elim!: faultyE)
  next
    case (Some en)
    with rm(1) show ?thesis by (auto simp: creates_def mem_create_at elim!: faultyE)
  qed
  with rm(2) show ?thesis by force
qed

lemma alone_Delete:
  assumes "alone s (DoDelete k c) E (Ret x) E'"
  shows "\<exists>r E1. (mem_at (en_mem E1) = mem_at (en_mem E) \<or> mem_at (en_mem E1) = (mem_at (en_mem E))(k := None)) \<and> alone s (c r) E1 (Ret x) E'"
  using assms
proof (elim alone_DeleteE op_step_DeleteE)
  fix p1 E1 r m assume p: "alone s p1 E1 (Ret x) E'" "p1 = c r" "E1 = E\<lparr>en_mem := m\<rparr>" "faulty (mem_delete (en_mem E) k) (en_mem E) r m"
  have "m = en_mem E \<or> m = snd (mem_delete (en_mem E) k)"
    using p(4) by (cases "mem_delete (en_mem E) k") (auto elim!: faultyE)
  then have "mem_at m = mem_at (en_mem E) \<or> mem_at m = (mem_at (en_mem E))(k := None)" using mem_after(3) [of "en_mem E" k] by auto
  with p(1-3) show ?thesis by (intro exI [of _ r] exI [of _ "E\<lparr>en_mem := m\<rparr>"]) simp
qed auto

lemma alone_effects:
  "alone s (DoNow c1) E (Ret x) E' \<Longrightarrow> \<exists>t. alone s (c1 t) E (Ret x) E'"
  "alone s (DoRand c2) E (Ret x) E' \<Longrightarrow> \<exists>r E1. en_mem E1 = en_mem E \<and> alone s (c2 r) E1 (Ret x) E'"
  "alone s (DoUuid c3) E (Ret x) E' \<Longrightarrow> \<exists>u E1. en_mem E1 = en_mem E \<and> alone s (c3 u) E1 (Ret x) E'"
proof -
  show "\<exists>t. alone s (c1 t) E (Ret x) E'" if "alone s (DoNow c1) E (Ret x) E'"
    using that by (auto elim!: alone_NowE op_step_NowE)
  show "\<exists>r E1. en_mem E1 = en_mem E \<and> alone s (c2 r) E1 (Ret x) E'" if "alone s (DoRand c2) E (Ret x) E'"
    using that by (elim alone_RandE op_step_RandE) (rule exI, rule exI, rule conjI [rotated], force, simp)+
  show "\<exists>u E1. en_mem E1 = en_mem E \<and> alone s (c3 u) E1 (Ret x) E'" if "alone s (DoUuid c3) E (Ret x) E'"
  proof -
    from that obtain u where "alone s (c3 u) (E\<lparr>en_uuids := insert u (en_uuids E)\<rparr>) (Ret x) E'" by (auto elim!: alone_UuidE op_step_UuidE)
    then show ?thesis by (intro exI [of _ u] exI [of _ "E\<lparr>en_uuids := insert u (en_uuids E)\<rparr>"]) simp
  qed
qed

text \<open>Of the writes for the event \<open>ev\<close>, any may be left.\<close>

definition leaves_at_most :: "(string \<Rightarrow> entry option) \<Rightarrow> event \<Rightarrow> (string \<Rightarrow> entry option) \<Rightarrow> bool" where
  "leaves_at_most at ev at' \<longleftrightarrow> (\<forall>k. at' k = at k \<or> at k = None \<and>
     (k = eventKey (ev_ID ev) \<and> (\<exists>n. at' k = Some \<lparr>en_Value = VEvent ev, en_Revision = n\<rparr>) \<or>
      k = invitationKey (ev_InvitationDigest ev) \<and> (\<exists>n. at' k = Some \<lparr>en_Value = VText (ev_ID ev), en_Revision = n\<rparr>)))"

lemma leaves_same: "leaves_at_most at ev at"
  by (simp add: leaves_at_most_def)

lemma create_tail:
  assumes "alone s (DoCreate (eventKey (ev_ID ev)) (VEvent ev) (\<lambda>r. case r of
      Inl e \<Rightarrow> Ret (Inl e)
    | Inr _ \<Rightarrow> DoCreate (invitationKey (ev_InvitationDigest ev)) (VText (ev_ID ev)) (\<lambda>r. case r of
          Inl e \<Rightarrow> DoDelete (eventKey (ev_ID ev)) (\<lambda>_. Ret (Inl e))
        | Inr _ \<Rightarrow> Ret (Inr (ev, url))))) E (Ret res) E'" (is "alone s (DoCreate ?k ?v ?f) E _ _")
  shows "case res of
     Inl e \<Rightarrow> leaves_at_most (mem_at (en_mem E)) ev (mem_at (en_mem E'))
   | Inr (ev', url') \<Rightarrow> ev' = ev \<and> url' = url \<and> mem_at (en_mem E) ?k = None \<and> mem_at (en_mem E) (invitationKey (ev_InvitationDigest ev)) = None \<and>
       (\<exists>n m. mem_at (en_mem E') = (mem_at (en_mem E))(?k \<mapsto> \<lparr>en_Value = ?v, en_Revision = n\<rparr>,
         invitationKey (ev_InvitationDigest ev) \<mapsto> \<lparr>en_Value = VText (ev_ID ev), en_Revision = m\<rparr>))"
proof -
  let ?at = "\<lambda>E. mem_at (en_mem E)" and ?i = "invitationKey (ev_InvitationDigest ev)"
  from alone_Create [OF assms] obtain r E1 where c1: "creates (?at E) ?k ?v r (?at E1)" "alone s (?f r) E1 (Ret res) E'" by blast
  show ?thesis
  proof (cases r)
    case (Inl e)
    with c1(2) have "res = Inl e" "E' = E1" by (simp_all add: alone_Ret)
    with c1(1) show ?thesis by (auto simp: creates_def leaves_at_most_def split: if_splits)
  next
    case (Inr rev)
    with c1(1) obtain n where n: "?at E ?k = None" "?at E1 = (?at E)(?k \<mapsto> \<lparr>en_Value = ?v, en_Revision = n\<rparr>)" by (auto simp: creates_def)
    from alone_Create [OF c1(2) [unfolded Inr, simplified]] obtain r' E2 where c2: "creates (?at E1) ?i (VText (ev_ID ev)) r' (?at E2)"
      "alone s (case r' of Inl e \<Rightarrow> DoDelete ?k (\<lambda>_. Ret (Inl e)) | Inr _ \<Rightarrow> Ret (Inr (ev, url))) E2 (Ret res) E'" by blast
    show ?thesis
    proof (cases r')
      case (Inl e)
      with c2(2) alone_Delete [of s ?k "\<lambda>_. Ret (Inl e)" E2 res E'] have "res = Inl e"
        "?at E' = ?at E2 \<or> ?at E' = (?at E2)(?k := None)" by (auto simp: alone_Ret)
      with c2(1) n show ?thesis by (auto simp: creates_def leaves_at_most_def split: if_splits)
    next
      case (Inr rev')
      with c2 n show ?thesis by (auto simp: creates_def alone_Ret)
    qed
  qed
qed

text \<open>
  C20: what a failing store can leave of a creation. Whichever calls fail, and whether or not a
  failed write took effect all the same, a CreateEvent that succeeds has stored its draft and the
  invitation that leads to it and nothing else, and one that fails leaves at most the draft and
  the invitation it was making, under keys that were free: nothing that was stored is touched.
\<close>

theorem create_event_under_faults:
  assumes "alone s (CreateEvent s owner input) E (Ret res) E'"
  shows "case res of
     Inl e \<Rightarrow> \<exists>ev. ev_State ev = Draft \<and> ev_OwnerSubject ev = owner \<and> leaves_at_most (mem_at (en_mem E)) ev (mem_at (en_mem E'))
   | Inr (ev, url) \<Rightarrow> ev_State ev = Draft \<and> ev_OwnerSubject ev = owner \<and> 0 \<le> ev_Capacity ev \<and> ev_Capacity ev \<le> sv_maxCapacity s \<and>
       mem_at (en_mem E) (eventKey (ev_ID ev)) = None \<and> mem_at (en_mem E) (invitationKey (ev_InvitationDigest ev)) = None \<and>
       (\<exists>secret n m. url = sv_publicDemoURL s @ ''#'' @ secret \<and> ev_InvitationDigest ev = digest s secret \<and>
         mem_at (en_mem E') = (mem_at (en_mem E))(eventKey (ev_ID ev) \<mapsto> \<lparr>en_Value = VEvent ev, en_Revision = n\<rparr>,
           invitationKey (ev_InvitationDigest ev) \<mapsto> \<lparr>en_Value = VText (ev_ID ev), en_Revision = m\<rparr>))"
proof -
  let ?in = "input\<lparr>ci_Name := trim_space (ci_Name input), ci_ApplicationID := trim_space (ci_ApplicationID input)\<rparr>"
  let ?new = "new_event owner ?in"
  have new: "ev_State (?new u d t) = Draft" "ev_OwnerSubject (?new u d t) = owner" "ev_ID (?new u d t) = u" "ev_InvitationDigest (?new u d t) = d"
    "ev_Capacity (?new u d t) = ci_Capacity input" for u d t
    by (simp_all add: new_event_def)
  have unchanged: ?thesis if "res = Inl e" "mem_at (en_mem E') = mem_at (en_mem E)" for e
    using that new(1,2) [of "''''" "''''" 0] leaves_same by auto
  define tail where "tail bs now eid = (let ev = ?new eid (digest s (b64url bs)) now
      in DoCreate (eventKey (ev_ID ev)) (VEvent ev) (\<lambda>r. case r of
          Inl e \<Rightarrow> Ret (Inl e)
        | Inr _ \<Rightarrow> DoCreate (invitationKey (ev_InvitationDigest ev)) (VText (ev_ID ev)) (\<lambda>r. case r of
              Inl e \<Rightarrow> DoDelete (eventKey (ev_ID ev)) (\<lambda>_. Ret (Inl e))
            | Inr _ \<Rightarrow> Ret (Inr (ev, invitationURL s (b64url bs))))))" for bs now eid
  show ?thesis
  proof (cases "valid_input s owner ?in")
    case False
    with assms have no: "res = Inl invalid_event" "mem_at (en_mem E') = mem_at (en_mem E)" by (simp_all add: CreateEvent_def Let_def alone_Ret)
    show ?thesis by (rule unchanged [OF no])
  next
    case True
    then have cap: "0 \<le> ci_Capacity input" "ci_Capacity input \<le> sv_maxCapacity s" by (simp_all add: valid_input_def)
    have "CreateEvent s owner input = DoRand (\<lambda>r. case r of Inl e \<Rightarrow> Ret (Inl e) | Inr bs \<Rightarrow> DoNow (\<lambda>now. DoUuid (tail bs now)))"
      using True unfolding CreateEvent_def Let_def randomSecret_def tryp_def tail_def by (auto simp: fun_eq_iff Let_def split: sum.split)
    with assms alone_effects(2) obtain r E1 where r: "en_mem E1 = en_mem E"
      "alone s (case r of Inl e \<Rightarrow> Ret (Inl e) | Inr bs \<Rightarrow> DoNow (\<lambda>now. DoUuid (tail bs now))) E1 (Ret res) E'" by metis
    show ?thesis
    proof (cases r)
      case (Inl e)
      with r have "res = Inl e" "mem_at (en_mem E') = mem_at (en_mem E)" by (simp_all add: alone_Ret)
    then show ?thesis by (rule unchanged)
    next
      case (Inr bs)
      from r(2) [unfolded Inr sum.case, THEN alone_effects(1)] obtain t where "alone s (DoUuid (tail bs t)) E1 (Ret res) E'" by blast
      from alone_effects(3) [OF this] r(1) obtain u E2 where E2: "en_mem E2 = en_mem E" "alone s (tail bs t u) E2 (Ret res) E'" by auto
      from create_tail [OF E2(2) [unfolded tail_def Let_def]] show ?thesis
        unfolding E2(1) using new [of u "digest s (b64url bs)" t] cap by (auto simp: invitationURL_def split: sum.splits) blast
    qed
  qed
qed

text \<open>
  The rollback that fails: the invitation could not be stored, and the error of the deletion of
  the event is dropped, so an event remains that no invitation leads to.
\<close>

definition orphaned_env :: env where
  "orphaned_env = empty_env\<lparr>en_mem := put NewMemory (eventKey (demo_uuid 0)) (VEvent created_event),
     en_uuids := {demo_uuid 0}, en_digests := {''41''}\<rparr>"

lemma orphaned_event:
  "alone demo_service (CreateEvent demo_service ''host'' demo_input) empty_env (Ret (Inl (ErrOther ''timeout''))) orphaned_env"
proof -
  let ?k = "eventKey (demo_uuid 0)" and ?t = "Inl (ErrOther ''timeout'')"
  let ?E1 = "empty_env\<lparr>en_digests := {''41''}\<rparr>" and ?E2 = "empty_env\<lparr>en_digests := {''41''}, en_uuids := {demo_uuid 0}\<rparr>"
  let ?roll = "\<lambda>r. case r of Inl e \<Rightarrow> DoDelete ?k (\<lambda>_. Ret (Inl e)) | Inr _ \<Rightarrow> Ret (Inr (created_event, invitationURL demo_service (b64url (demo_bytes 0))))"
  let ?inv = "\<lambda>r. case r of Inl e \<Rightarrow> Ret (Inl e) | Inr _ \<Rightarrow> DoCreate (invitationKey ''41'') (VText (demo_uuid 0)) ?roll"
  have ev: "new_event ''host'' \<lparr>ci_ApplicationID = ''app'', ci_Name = ''Demo'', ci_Capacity = 1, ci_InspectLive = False\<rparr> (demo_uuid 0) ''41'' 0 = created_event"
    by (simp add: created_event_def demo_input_def)
  have free: "mem_at NewMemory k = None" for k by simp
  have rev: "me_revision NewMemory = 0" by (simp add: NewMemory_def)
  have len: "length (demo_bytes 0) = 32" by (simp add: demo_bytes_def)
  have 1: "op_step demo_service (CreateEvent demo_service ''host'' demo_input) empty_env
      (DoNow (\<lambda>now. DoUuid (\<lambda>eid. let ev = new_event ''host'' demo_input eid ''41'' now
        in DoCreate (eventKey (ev_ID ev)) (VEvent ev) (\<lambda>r. case r of Inl e \<Rightarrow> Ret (Inl e) | Inr _ \<Rightarrow>
          DoCreate (invitationKey (ev_InvitationDigest ev)) (VText (ev_ID ev)) (\<lambda>r. case r of
            Inl e \<Rightarrow> DoDelete (eventKey (ev_ID ev)) (\<lambda>_. Ret (Inl e))
          | Inr _ \<Rightarrow> Ret (Inr (ev, invitationURL demo_service (b64url (demo_bytes 0))))))))) ?E1" (is "op_step _ _ _ (DoNow (\<lambda>now. DoUuid (?u now))) _")
  proof -
    have "\<exists>c. CreateEvent demo_service ''host'' demo_input = DoRand c \<and> c (Inr (demo_bytes 0)) = DoNow (\<lambda>now. DoUuid (?u now))"
      by (simp add: CreateEvent_def demo_input_def valid_input_def randomSecret_def tryp_def Let_def)
    then obtain c where c: "CreateEvent demo_service ''host'' demo_input = DoRand c" "c (Inr (demo_bytes 0)) = DoNow (\<lambda>now. DoUuid (?u now))" by blast
    have "op_step demo_service (DoRand c) empty_env (c (Inr (demo_bytes 0))) ?E1"
      using op_step.rand [OF len, of demo_service empty_env c] by (simp add: empty_env_def)
    then show ?thesis unfolding c .
  qed
  have 2: "op_step demo_service (DoNow (\<lambda>now. DoUuid (?u now))) ?E1 (DoUuid (?u 0)) ?E1" by (rule op_step.now)
  have 3: "op_step demo_service (DoUuid (?u 0)) ?E1 (DoCreate ?k (VEvent created_event) ?inv) ?E2"
    using op_step.uuid [of "demo_uuid 0" ?E1 demo_service "?u 0"] by (simp add: demo_uuid_format empty_env_def Let_def demo_input_def ev)
  have 4: "op_step demo_service (DoCreate ?k (VEvent created_event) ?inv) ?E2 (?inv (Inr 1)) orphaned_env"
  proof -
    have "faulty (mem_create (en_mem ?E2) ?k (VEvent created_event)) (en_mem ?E2) (Inr 1) (put NewMemory ?k (VEvent created_event))"
      by (simp add: mem_create_at(1) [OF free] empty_env_def rev faulty.answered)
    from op_step.create [OF this, of demo_service ?inv] show ?thesis by (simp add: empty_env_def orphaned_env_def)
  qed
  have fail: "faulty res m (Inl (ErrOther ''timeout'')) m" for res :: "(err + 'r) \<times> memory" and m by (cases res) (simp add: faulty.failed)
  have 5: "op_step demo_service (?inv (Inr 1)) orphaned_env (?roll ?t) (orphaned_env\<lparr>en_mem := en_mem orphaned_env\<rparr>)"
    using op_step.create [OF fail, of demo_service "invitationKey ''41''" "VText (demo_uuid 0)" ?roll orphaned_env] by simp
  have 6: "op_step demo_service (?roll ?t) orphaned_env (Ret ?t) (orphaned_env\<lparr>en_mem := en_mem orphaned_env\<rparr>)"
    using op_step.delete [OF fail, of demo_service ?k "\<lambda>_. Ret ?t" orphaned_env] by simp
  have same: "orphaned_env\<lparr>en_mem := en_mem orphaned_env\<rparr> = orphaned_env" by simp
  show ?thesis
    by (rule alone.step [OF 1], rule alone.step [OF 2], rule alone.step [OF 3], rule alone.step [OF 4],
        rule alone.step [OF 5 [unfolded same]], rule alone.step [OF 6 [unfolded same]], rule alone.here)
qed

theorem create_event_under_faults_witness:
  "\<exists>ev. ev_State ev = Draft \<and> leaves_at_most (mem_at (en_mem empty_env)) ev (mem_at (en_mem orphaned_env)) \<and>
     mem_at (en_mem orphaned_env) (eventKey (demo_uuid 0)) \<noteq> None"
proof -
  have "mem_at (en_mem orphaned_env) (eventKey (demo_uuid 0)) \<noteq> None" by (simp add: orphaned_env_def)
  with create_event_under_faults [OF orphaned_event] show ?thesis by auto
qed

section \<open>Invitations and cohosts\<close>

text \<open>
  C21: rotating the invitation replaces the link. Where the old link works and the fresh digest is
  unused, the new URL's secret leads to the event afterwards, the old digest leads nowhere, the
  event carries the new digest, and no other key has changed.
\<close>

theorem rotation_replaces_link:
  assumes "mem_at (w_mem w) (eventKey eid) = Some \<lparr>en_Value = VEvent ev, en_Revision = n\<rparr>" and "can ev pr CapOperate"
    and "ev_State ev \<noteq> Deleting" and "mem_at (w_mem w) (invitationKey (ev_InvitationDigest ev)) = Some old"
    and "w_rand w (w_rands w) = Inr bs" and "mem_at (w_mem w) (invitationKey (digest s (b64url bs))) = None"
  shows "\<exists>w' ev' r. run (RotateInvitation s pr eid) w = (Inr (sv_publicDemoURL s @ ''#'' @ b64url bs), w') \<and>
    mem_at (w_mem w') (invitationKey (digest s (b64url bs))) = Some \<lparr>en_Value = VText eid, en_Revision = me_revision (w_mem w) + 1\<rparr> \<and>
    mem_at (w_mem w') (invitationKey (ev_InvitationDigest ev)) = None \<and>
    mem_at (w_mem w') (eventKey eid) = Some \<lparr>en_Value = VEvent ev', en_Revision = r\<rparr> \<and>
    ev_InvitationDigest ev' = digest s (b64url bs) \<and> ev_State ev' = ev_State ev \<and>
    (\<forall>k. k \<notin> {eventKey eid, invitationKey (ev_InvitationDigest ev), invitationKey (digest s (b64url bs))} \<longrightarrow>
       mem_at (w_mem w') k = mem_at (w_mem w) k)"
proof -
  let ?d = "digest s (b64url bs)"
  from assms(4,6) have ne: "ev_InvitationDigest ev \<noteq> ?d" by auto
  let ?ev = "ev\<lparr>ev_InvitationDigest := ?d, ev_UpdatedAt := w_clock w (w_ticks w)\<rparr>"
  let ?m = "del (put (put (w_mem w) (invitationKey ?d) (VText eid)) (eventKey eid) (VEvent ?ev)) (invitationKey (ev_InvitationDigest ev))"
  have upd: "mem_update (put (w_mem w) (invitationKey ?d) (VText eid)) (eventKey eid) (VEvent ?ev) n
      = (Inr (me_revision (w_mem w) + 2), put (put (w_mem w) (invitationKey ?d) (VText eid)) (eventKey eid) (VEvent ?ev))"
    using assms(1) mem_update_at(1) [of "put (w_mem w) (invitationKey ?d) (VText eid)" "eventKey eid" "\<lparr>en_Value = VEvent ev, en_Revision = n\<rparr>" n "VEvent ?ev"] by simp
  have "run (RotateInvitation s pr eid) w = (Inr (sv_publicDemoURL s @ ''#'' @ b64url bs),
      w\<lparr>w_rands := w_rands w + 1, w_ticks := w_ticks w + 1, w_mem := ?m\<rparr>)"
    using assms ne upd by (simp add: RotateInvitation_def randomSecret_def Let_def run_simps invitationURL_def)
  then show ?thesis using assms(1) ne by (intro exI [of _ "w\<lparr>w_rands := w_rands w + 1, w_ticks := w_ticks w + 1, w_mem := ?m\<rparr>"] exI [of _ ?ev]) auto
qed

theorem rotation_replaces_link_witness:
  "\<exists>w'. fst (run (RotateInvitation demo_service ''host'' (demo_uuid 0)) opened_world) = Inr (sv_publicDemoURL demo_service @ ''#'' @ b64url (demo_bytes 1)) \<and>
     w' = snd (run (RotateInvitation demo_service ''host'' (demo_uuid 0)) opened_world) \<and> mem_at (w_mem w') (invitationKey ''41'') = None \<and>
     mem_at (w_mem w') (invitationKey ''42'') \<noteq> None"
proof -
  have "mem_at (w_mem opened_world) (invitationKey (ev_InvitationDigest opened_event)) = Some \<lparr>en_Value = VText (demo_uuid 0), en_Revision = 2\<rparr>"
    "w_rand opened_world (w_rands opened_world) = Inr (demo_bytes 1)"
    "mem_at (w_mem opened_world) (invitationKey (digest demo_service (b64url (demo_bytes 1)))) = None"
    by (simp_all add: mem_at_def opened_world_def created_world_def demo_world_def)
  from rotation_replaces_link [OF opened_at, of "''host''", OF _ _ this] show ?thesis by (auto simp: opened_can)
qed

lemma can_set_cohost:
  assumes "q \<noteq> ev_OwnerSubject ev"
  shows "can (set_cohost ev cohost caps) q c \<longleftrightarrow> (if q = cohost then c \<in> set caps else can ev q c)"
  using assms by (auto simp: can_def set_cohost_def cohost_caps_def)

text \<open>
  C22: a grant is exact. When the owner sets a cohost's capabilities, the stored event gives that
  principal exactly those (none, when the list is empty), and every other principal what it had.
\<close>

theorem cohost_grant_exact:
  assumes "mem_at (w_mem w) (eventKey eid) = Some \<lparr>en_Value = VEvent ev, en_Revision = n\<rparr>" and "ev_OwnerSubject ev = pr"
    and "ev_State ev \<noteq> Deleting" and "cohost \<noteq> ''''" "cohost \<noteq> pr" and "\<forall>c \<in> set caps. valid_capability c"
  shows "\<exists>ev' w' r. run (SetCohost pr eid cohost caps) w = (Inr ev', w') \<and>
    mem_at (w_mem w') = (mem_at (w_mem w))(eventKey eid \<mapsto> \<lparr>en_Value = VEvent ev', en_Revision = r\<rparr>) \<and>
    (\<forall>q c. can ev' q c \<longleftrightarrow> (if q = cohost then c \<in> set caps else can ev q c))"
proof -
  let ?ev = "(set_cohost ev cohost caps)\<lparr>ev_UpdatedAt := w_clock w (w_ticks w)\<rparr>"
  have "run (SetCohost pr eid cohost caps) w = (Inr ?ev, w\<lparr>w_ticks := w_ticks w + 1, w_mem := put (w_mem w) (eventKey eid) (VEvent ?ev)\<rparr>)"
    using assms mem_update_at(1) [OF assms(1), of n "VEvent ?ev"] by (auto simp: SetCohost_def numeral_eq_Suc run_simps Let_def)
  moreover have "can ?ev q c \<longleftrightarrow> (if q = cohost then c \<in> set caps else can ev q c)" for q c
  proof -
    have "can ?ev q c \<longleftrightarrow> can (set_cohost ev cohost caps) q c" by (simp add: can_def cohost_caps_def)
    then show ?thesis using can_set_cohost [of q ev cohost caps c] assms(2,5)
      by (cases "q = ev_OwnerSubject ev") (auto simp: can_def set_cohost_def)
  qed
  ultimately show ?thesis by (intro exI [of _ ?ev]) (auto intro!: exI)
qed

theorem cohost_grant_exact_witness:
  "\<exists>ev' w' r. run (SetCohost ''host'' (demo_uuid 0) ''cohost'' [CapInspect]) opened_world = (Inr ev', w') \<and>
    mem_at (w_mem w') = (mem_at (w_mem opened_world))(eventKey (demo_uuid 0) \<mapsto> \<lparr>en_Value = VEvent ev', en_Revision = r\<rparr>) \<and>
    (\<forall>q c. can ev' q c \<longleftrightarrow> (if q = ''cohost'' then c \<in> set [CapInspect] else can opened_event q c))"
  by (rule cohost_grant_exact [OF opened_at]) (simp_all add: valid_capability_def)

section \<open>Queries\<close>

lemma visible_events_set: "set (visible_events pr xs) = {ev. \<exists>k en. (k, en) \<in> set xs \<and> en_Value en = VEvent ev \<and> can_see ev pr}"
proof (induction xs)
  case (Cons x xs)
  then show ?case by (cases x; cases "en_Value (snd x)") (auto simp: decode_event_def)
qed simp

lemma decodable_slots_set: "set (decodable_slots xs) = {sl. \<exists>k en. (k, en) \<in> set xs \<and> en_Value en = VSlot sl}"
proof (induction xs)
  case (Cons x xs)
  then show ?case by (cases x; cases "en_Value (snd x)") (auto simp: decode_slot_def)
qed simp

text \<open>
  C26: a presenter is listed what it may see, no more and no less. ListEvents returns the stored
  events the principal owns or is a cohost of, ordered by their creation, and changes nothing.
\<close>

theorem list_events_exact:
  assumes "mem_wf (w_mem w)"
  shows "\<exists>evs. run (ListEvents pr) w = (Inr evs, w) \<and> sorted (map ev_CreatedAt evs) \<and>
    set evs = {ev. \<exists>k en. prefix ''event.'' k \<and> mem_at (w_mem w) k = Some en \<and> en_Value en = VEvent ev \<and>
      (ev_OwnerSubject ev = pr \<or> cohost_caps ev pr \<noteq> None)}"
  by (rule exI [of _ "sort_key ev_CreatedAt (visible_events pr (mem_list (w_mem w) ''event.''))"])
    (auto simp: ListEvents_def visible_events_set mem_listing_at [OF assms] can_see_def)

theorem list_events_exact_witness:
  "\<exists>evs. run (ListEvents ''host'') joined_world = (Inr evs, joined_world) \<and> opened_event \<in> set evs"
proof -
  from list_events_exact [OF joined_at(3), of "''host''"] obtain evs where
    evs: "run (ListEvents ''host'') joined_world = (Inr evs, joined_world)"
    "set evs = {ev. \<exists>k en. prefix ''event.'' k \<and> mem_at (w_mem joined_world) k = Some en \<and> en_Value en = VEvent ev \<and>
      (ev_OwnerSubject ev = ''host'' \<or> cohost_caps ev ''host'' \<noteq> None)}" by blast
  have "opened_event \<in> set evs"
    unfolding evs(2) using joined_at(1) opened_event_sel(5) prefix_event(1) [of "demo_uuid 0"]
    by (intro CollectI exI [of _ "eventKey (demo_uuid 0)"] exI [of _ "\<lparr>en_Value = VEvent opened_event, en_Revision = 3\<rparr>"]) simp
  with evs(1) show ?thesis by blast
qed

text \<open>
  Listing slots is exact and isolated. With the inspect or the operate capability, ListSlots
  returns in the order of their numbers exactly the slots of that event, as long as ids have no
  dot; the slots of every other event stay out of it.
\<close>

theorem list_slots_exact:
  assumes "mem_wf (w_mem w)" and "mem_at (w_mem w) (eventKey eid) = Some \<lparr>en_Value = VEvent ev, en_Revision = n\<rparr>"
    and "can ev pr CapInspect \<or> can ev pr CapOperate" and "CHR ''.'' \<notin> set eid"
    and "\<And>k en sl. mem_at (w_mem w) k = Some en \<Longrightarrow> en_Value en = VSlot sl \<Longrightarrow>
      k = slotKey (sl_EventID sl) (sl_Number sl) \<and> CHR ''.'' \<notin> set (sl_EventID sl)"
  shows "\<exists>sls. run (ListSlots pr eid) w = (Inr sls, w) \<and> sorted (map sl_Number sls) \<and>
    set sls = {sl. \<exists>k en. mem_at (w_mem w) k = Some en \<and> en_Value en = VSlot sl \<and> sl_EventID sl = eid}"
proof -
  let ?xs = "mem_list (w_mem w) (slotPrefix eid)"
  have "can_see ev pr" using assms(3) can_imp_can_see by blast
  then have r: "run (ListSlots pr eid) w = (Inr (sort_key sl_Number (decodable_slots ?xs)), w)"
    using assms(2,3) by (auto simp: ListSlots_def GetEvent_def run_simps)
  have "prefix (slotPrefix eid) k \<longleftrightarrow> sl_EventID sl = eid" if "mem_at (w_mem w) k = Some en" "en_Value en = VSlot sl" for k en sl
    using assms(5) [OF that] prefix_slotKey [OF assms(4)] by metis
  then have "set (decodable_slots ?xs) = {sl. \<exists>k en. mem_at (w_mem w) k = Some en \<and> en_Value en = VSlot sl \<and> sl_EventID sl = eid}"
    unfolding decodable_slots_set mem_listing_at [OF assms(1)] by blast
  with r show ?thesis by auto
qed

theorem list_slots_exact_witness:
  "\<exists>sls. run (ListSlots ''host'' (demo_uuid 0)) joined_world = (Inr sls, joined_world) \<and> set sls = {joined_slot}"
proof -
  have nd: "CHR ''.'' \<notin> set (demo_uuid 0)" using demo_uuid_format [of 0] uuid_no_dot by simp
  have sl: "k = slotKey (demo_uuid 0) 1 \<and> sl = joined_slot"
    if "mem_at (w_mem joined_world) k = Some en" "en_Value en = VSlot sl" for k en sl
    using that by (auto simp: mem_at_def joined_world_def split: if_splits)
  have "\<exists>sls. run (ListSlots ''host'' (demo_uuid 0)) joined_world = (Inr sls, joined_world) \<and> sorted (map sl_Number sls) \<and>
    set sls = {sl. \<exists>k en. mem_at (w_mem joined_world) k = Some en \<and> en_Value en = VSlot sl \<and> sl_EventID sl = demo_uuid 0}"
  proof (rule list_slots_exact [OF joined_at(3,1)])
    show "k = slotKey (sl_EventID sl) (sl_Number sl) \<and> CHR ''.'' \<notin> set (sl_EventID sl)"
      if "mem_at (w_mem joined_world) k = Some en" "en_Value en = VSlot sl" for k en sl
      using sl [OF that] nd by simp
  qed (simp_all add: opened_can nd)
  moreover have "{sl. \<exists>k en. mem_at (w_mem joined_world) k = Some en \<and> en_Value en = VSlot sl \<and> sl_EventID sl = demo_uuid 0} = {joined_slot}"
    using sl joined_at(2) by fastforce
  ultimately show ?thesis by auto
qed

section \<open>Bounded retries\<close>

lemma updates_le_add: "updates_le K p n \<Longrightarrow> updates_le K p (n + d)"
proof (induction p arbitrary: n)
  case (DoUpdate k v r c)
  show ?case
  proof (cases "K k")
    case True
    with DoUpdate.prems have n: "0 < n" "\<And>x. updates_le K (c x) (n - 1)" by auto
    then have "updates_le K (c x) (n - 1 + d)" for x
      by (intro DoUpdate.IH) auto
    with n True show ?thesis by (simp add: algebra_simps)
  qed (use DoUpdate in auto)
qed auto

lemma updates_le_bind: "updates_le K p n \<Longrightarrow> (\<And>x. updates_le K (f x) m) \<Longrightarrow> updates_le K (prog_bind p f) (n + m)"
proof (induction p arbitrary: n)
  case (Ret x)
  show ?case using updates_le_add [OF Ret(2) [of x], of n] by (simp add: add.commute)
next
  case (DoUpdate k v r c)
  show ?case
  proof (cases "K k")
    case True
    with DoUpdate.prems have n: "0 < n" "\<And>x. updates_le K (c x) (n - 1)" by auto
    then have "updates_le K (prog_bind (c x) f) (n - 1 + m)" for x
      by (intro DoUpdate.IH) (use DoUpdate.prems in auto)
    with n True show ?thesis by (simp add: algebra_simps)
  qed (use DoUpdate in auto)
qed auto

lemma updates_le_read_only: "read_only p \<Longrightarrow> updates_le K p 0"
  by (induction p) auto

lemma updates_le_tryp:
  "updates_le K p 0 \<Longrightarrow> (\<And>x. updates_le K (f x) n) \<Longrightarrow> updates_le K (tryp p f) n"
  unfolding tryp_def
  by (rule updates_le_bind [of K p 0 _ n, simplified]) (auto split: sum.splits)

lemma updates_le_load: "(\<And>x. updates_le K (f x) n) \<Longrightarrow> updates_le K (prog_bind (loadSlot a b) f) n"
  using updates_le_bind [of K "loadSlot a b" 0 f n] by (simp add: updates_le_read_only)

lemma loops_bounded:
  "updates_le (\<lambda>_. True) (UpdateCapacity_loop m pr eid c) m" "updates_le (\<lambda>_. True) (SetCohost_loop m pr eid cohost caps) m"
  "updates_le (\<lambda>_. True) (renewLease_loop s m d ix) m" "updates_le (\<lambda>_. True) (markSessionDeleted_loop m sl) m"
proof (induction m)
  case (Suc m)
  {
    case 1
    show ?case using Suc(1) by (auto intro!: updates_le_tryp updates_le_read_only simp: Let_def split: sum.splits)
  next
    case 2
    show ?case using Suc(2) by (auto intro!: updates_le_tryp updates_le_read_only simp: Let_def split: sum.splits)
  next
    case 3
    show ?case using Suc(3)
      by (auto intro!: updates_le_tryp updates_le_read_only updates_le_load simp: Let_def split: sum.splits)
  next
    case 4
    show ?case using Suc(4) by (auto split: sum.splits)
  }
qed simp_all

text \<open>Reserving the slots, however often it starts over, writes slots only.\<close>

lemma reserve_loop_bounded:
  assumes "\<forall>k. prefix p k \<longrightarrow> \<not> K k" "updates_le K again 0" "\<forall>x \<in> set xs. prefix p (fst x)"
  shows "updates_le K (reserve_loop again xs) 0"
  using assms(3) by (induction xs) (use assms(1,2) in \<open>auto split: sum.splits\<close>)

lemma reserveSlots_bounded: "\<forall>k. prefix (slotPrefix eid) k \<longrightarrow> \<not> K k \<Longrightarrow> updates_le K (reserveSlots fuel eid) 0"
  by (induction fuel) (auto intro!: reserve_loop_bounded split: sum.splits)

lemma SetState_bounded: "updates_le (\<lambda>k. k = eventKey eid) (SetState_loop fuel m pr eid t) m"
proof (induction m)
  case (Suc m)
  have "updates_le (\<lambda>k. k = eventKey eid) (reserveSlots fuel eid) 0" by (rule reserveSlots_bounded) auto
  then have "updates_le (\<lambda>k. k = eventKey eid) (tryp (reserveSlots fuel eid) (\<lambda>_. Ret (Inr ev))) m" for ev :: event
    by (rule updates_le_tryp) simp
  with Suc show ?case by (auto intro!: updates_le_tryp updates_le_read_only simp: Let_def split: sum.splits)
qed simp

text \<open>
  C25: the five compare-and-set loops are bounded. Whatever the store answers, and however often
  other writers get in between, changing a capacity or a cohost, renewing a lease and marking a
  session deleted attempt at most five updates, and setting a state attempts at most five updates
  of the event. The reservation of slots that follows a pause is not one of these loops: it starts
  over as long as it meets conflicts.
\<close>

theorem cas_attempts_bounded:
  "updates_le (\<lambda>_. True) (UpdateCapacity s pr eid c) 5 \<and> updates_le (\<lambda>_. True) (SetCohost pr eid cohost caps) 5 \<and>
   updates_le (\<lambda>_. True) (renewLease s secret) 5 \<and> updates_le (\<lambda>_. True) (markSessionDeleted sl) 5 \<and>
   updates_le (\<lambda>k. k = eventKey eid) (SetState fuel pr eid t) 5"
  by (auto simp: UpdateCapacity_def SetCohost_def renewLease_def markSessionDeleted_def SetState_def Let_def loops_bounded SetState_bounded split: sum.splits)

end
