(* ===== verification/Recovery_Facts.thy ===== *)
theory Recovery_Facts
  imports Runs Scenario
begin

text \<open>
  What cleanup does when it runs alone: the backoff, one attempt at a slot, the deletion of an
  event, and what the reconciler counts and never does.
\<close>

section \<open>Backoff\<close>

lemma sint_retryDelay: "sint (retryDelay n) = 5000000000 * 2 ^ nat (min 6 (max 1 n) - 1)"
proof -
  define m where "m = min 6 (max 1 n)"
  have "retryDelay n = push_bit (nat (m - 1)) 1 * 5 * second"
    by (auto simp: m_def retryDelay_def Let_def min_def max_def)
  moreover have "m \<in> {1, 2, 3, 4, 5, 6}" by (auto simp: m_def)
  then have "sint (push_bit (nat (m - 1)) 1 * 5 * second) = 5000000000 * 2 ^ nat (m - 1)"
    by (auto simp: second_def push_bit_eq_mult)
  ultimately show ?thesis by (simp add: m_def)
qed

text \<open>
  The backoff is bounded. The delay after the n-th failed attempt is five seconds doubled
  n - 1 times, at least 5 and at most 160 seconds whatever the counter, without wrapping around,
  and it never decreases.
\<close>

theorem retry_delay_bounded:
  "sint (retryDelay n) = 5000000000 * 2 ^ nat (min 6 (max 1 n) - 1) \<and>
   5000000000 \<le> sint (retryDelay n) \<and> sint (retryDelay n) \<le> 160000000000 \<and> sint (retryDelay n) \<le> sint (retryDelay (n + 1))"
proof -
  have "(2 :: int) ^ nat (min 6 (max 1 n) - 1) \<le> 2 ^ 5" "(2 :: int) ^ nat (min 6 (max 1 n) - 1) \<le> 2 ^ nat (min 6 (max 1 (n + 1)) - 1)"
    "(1 :: int) \<le> 2 ^ nat (min 6 (max 1 n) - 1)"
    by (rule power_increasing; simp)+ simp
  then show ?thesis unfolding sint_retryDelay by simp
qed

section \<open>One attempt at a slot\<close>

definition claim_base :: "progress option \<Rightarrow> string \<Rightarrow> time \<Rightarrow> progress" where
  "claim_base p u now = (case p of Some p \<Rightarrow> p
     | None \<Rightarrow> \<lparr>pg_ID = u, pg_Attempts = 0, pg_StartedAt = now, pg_NextAttemptAt = zero_time, pg_LastError = ''''\<rparr>)"

lemma run_claimCleanup:
  "run (claimCleanup p now lease) w =
     (claim_next (claim_base p (w_uuid w (w_uuids w)) now) now lease, if p = None then w\<lparr>w_uuids := w_uuids w + 1\<rparr> else w)"
  by (auto simp: claimCleanup_def claim_base_def split: option.splits)

definition claimed :: "progress \<Rightarrow> time \<Rightarrow> duration \<Rightarrow> progress" where
  "claimed p now lease = p\<lparr>pg_Attempts := pg_Attempts p + 1, pg_NextAttemptAt := time_add now lease\<rparr>"

definition slot_call :: "event \<Rightarrow> slot \<Rightarrow> progress \<Rightarrow> cleanup_call" where
  "slot_call ev sl p = \<lparr>cc_DeletionID = pg_ID p, cc_ApplicationID = ev_ApplicationID ev, cc_EventID = ev_ID ev,
     cc_Subjects = [sl_Subject sl], cc_Reason = ''guest_slot_released''\<rparr>"

lemma cleanup_error_None: "cleanup_error r n = None \<longleftrightarrow> r = Inr n"
  by (auto simp: cleanup_error_def split: sum.splits)

text \<open>A successful cleanup of a claimed slot, and a failed one.\<close>

lemma run_cleanSlot_ok:
  assumes "sv_cleaner s" and "mem_at (w_mem w) (slotKey (ev_ID ev) (sl_Number sl)) = Some en" "en_Revision en = n"
    and "p = claim_base (sl_Cleanup sl) (w_uuid w (w_uuids w)) (w_clock w (w_ticks w))"
    and "\<not> before (w_clock w (w_ticks w)) (pg_NextAttemptAt p)"
    and "w_cleaner w (slot_call ev sl p) = Inr 1"
  shows "\<exists>w'. run (cleanSlot s ev sl n) w = (Inr (), w') \<and>
    mem_at (w_mem w') = (mem_at (w_mem w))(slotKey (ev_ID ev) (sl_Number sl) := None, sessionKey (sl_ResumeDigest sl) := None) \<and>
    w_cleanups w' = w_cleanups w @ [slot_call ev sl p] \<and> w_signed w' = w_signed w \<and> w_rands w' = w_rands w \<and>
    w_uuids w' = (if sl_Cleanup sl = None then w_uuids w + 1 else w_uuids w) \<and> w_ticks w' = w_ticks w + 1"
proof -
  let ?key = "slotKey (ev_ID ev) (sl_Number sl)" and ?now = "w_clock w (w_ticks w)"
  let ?p = "claimed p ?now (sv_cleanupLease s)"
  let ?v = "VSlot (sl\<lparr>sl_Cleanup := Some ?p\<rparr>)"
  let ?u = "if sl_Cleanup sl = None then w_uuids w + 1 else w_uuids w"
  let ?w = "w\<lparr>w_ticks := w_ticks w + 1, w_uuids := ?u, w_mem := put (w_mem w) ?key ?v, w_cleanups := w_cleanups w @ [slot_call ev sl p]\<rparr>"
  have c: "claim_next p ?now (sv_cleanupLease s) = Inr ?p" using assms(5) by (simp add: claim_next_def claimed_def)
  have call: "\<lparr>cc_DeletionID = pg_ID ?p, cc_ApplicationID = ev_ApplicationID ev, cc_EventID = ev_ID ev,
     cc_Subjects = [sl_Subject sl], cc_Reason = ''guest_slot_released''\<rparr> = slot_call ev sl p"
    by (simp add: slot_call_def claimed_def)
  have "run (cleanSlot s ev sl n) w = run (release_slot ?key (sl\<lparr>sl_Cleanup := Some ?p\<rparr>) (me_revision (w_mem w) + 1)) ?w"
    using assms(1,2,6) c call mem_update_at(1) [OF assms(2,3), of ?v]
    by (auto simp: cleanSlot_def run_claimCleanup assms(4) [symmetric] Let_def erase_slot_def cleanup_error_def)
  moreover obtain m where m: "run (deleteIfExists (sessionKey (sl_ResumeDigest sl))) ?w = (Inr (), ?w\<lparr>w_mem := m\<rparr>)"
    "mem_at m = (mem_at (w_mem ?w))(sessionKey (sl_ResumeDigest sl) := None)"
    by (rule run_deleteIfExists_at)
  have "mem_at m ?key = Some \<lparr>en_Value = ?v, en_Revision = me_revision (w_mem w) + 1\<rparr>" using m(2) by simp
  then have "run (release_slot ?key (sl\<lparr>sl_Cleanup := Some ?p\<rparr>) (me_revision (w_mem w) + 1)) ?w = (Inr (), ?w\<lparr>w_mem := del m ?key\<rparr>)"
    using m(1) by (simp add: release_slot_def mem_delete_revision_at)
  ultimately show ?thesis using m(2) by (auto simp: fun_eq_iff)
qed

lemma run_cleanSlot_failed:
  assumes "sv_cleaner s" and "mem_at (w_mem w) (slotKey (ev_ID ev) (sl_Number sl)) = Some en" "en_Revision en = n"
    and "p = claim_base (sl_Cleanup sl) (w_uuid w (w_uuids w)) (w_clock w (w_ticks w))"
    and "\<not> before (w_clock w (w_ticks w)) (pg_NextAttemptAt p)"
    and "w_cleaner w (slot_call ev sl p) \<noteq> Inr 1"
  shows "\<exists>e w' r. run (cleanSlot s ev sl n) w = (Inl e, w') \<and>
    mem_at (w_mem w') = (mem_at (w_mem w))(slotKey (ev_ID ev) (sl_Number sl) \<mapsto> \<lparr>en_Value = VSlot (sl\<lparr>sl_Cleanup :=
        Some (failed_attempt (claimed p (w_clock w (w_ticks w)) (sv_cleanupLease s)) (w_clock w (w_ticks w + 1)))\<rparr>), en_Revision = r\<rparr>) \<and>
    w_cleanups w' = w_cleanups w @ [slot_call ev sl p] \<and> w_signed w' = w_signed w"
proof -
  let ?key = "slotKey (ev_ID ev) (sl_Number sl)" and ?now = "w_clock w (w_ticks w)"
  let ?p = "claimed p ?now (sv_cleanupLease s)"
  let ?v = "VSlot (sl\<lparr>sl_Cleanup := Some ?p\<rparr>)" and ?r = "me_revision (w_mem w) + 1"
  let ?v' = "VSlot (sl\<lparr>sl_Cleanup := Some (failed_attempt ?p (w_clock w (w_ticks w + 1)))\<rparr>)"
  let ?u = "if sl_Cleanup sl = None then w_uuids w + 1 else w_uuids w"
  let ?w = "w\<lparr>w_ticks := w_ticks w + 1, w_uuids := ?u, w_mem := put (w_mem w) ?key ?v, w_cleanups := w_cleanups w @ [slot_call ev sl p]\<rparr>"
  have c: "claim_next p ?now (sv_cleanupLease s) = Inr ?p" using assms(5) by (simp add: claim_next_def claimed_def)
  have call: "\<lparr>cc_DeletionID = pg_ID ?p, cc_ApplicationID = ev_ApplicationID ev, cc_EventID = ev_ID ev,
     cc_Subjects = [sl_Subject sl], cc_Reason = ''guest_slot_released''\<rparr> = slot_call ev sl p"
    by (simp add: slot_call_def claimed_def)
  from assms(6) obtain e where e: "cleanup_error (w_cleaner w (slot_call ev sl p)) 1 = Some e"
    using cleanup_error_None by fastforce
  have "run (cleanSlot s ev sl n) w = run (record_failure ?key (\<lambda>p. VSlot (sl\<lparr>sl_Cleanup := Some p\<rparr>)) ?p ?r e) ?w"
    using assms(1,2) c call e mem_update_at(1) [OF assms(2,3), of ?v]
    by (auto simp: cleanSlot_def run_claimCleanup assms(4) [symmetric] Let_def erase_slot_def)
  moreover have "mem_update (put (w_mem w) ?key ?v) ?key ?v' ?r = (Inr (?r + 1), put (put (w_mem w) ?key ?v) ?key ?v')"
    using mem_update_at(1) [of "put (w_mem w) ?key ?v" ?key "\<lparr>en_Value = ?v, en_Revision = ?r\<rparr>" ?r ?v'] by simp
  then have "run (record_failure ?key (\<lambda>p. VSlot (sl\<lparr>sl_Cleanup := Some p\<rparr>)) ?p ?r e) ?w =
    (Inl (Joined [e]), ?w\<lparr>w_ticks := w_ticks w + 2, w_mem := put (put (w_mem w) ?key ?v) ?key ?v'\<rparr>)"
    (is "_ = (_, ?w')") by (simp add: record_failure_def err_of_def)
  ultimately have "run (cleanSlot s ev sl n) w = (Inl (Joined [e]), ?w')" by simp
  then show ?thesis by (intro exI [of _ "Joined [e]"] exI [of _ ?w'] exI [of _ "?r + 1"]) (simp add: fun_eq_iff)
qed

text \<open>
  C15: an acknowledged cleanup frees the slot. When the claim on a slot is due, the revision is
  current and the application acknowledges the one subject, exactly one cleanup was requested,
  for that subject and under the claim's id, and the slot and its session index are gone; every
  other key is as it was.
\<close>

theorem clean_slot_frees:
  assumes "sv_cleaner s" and "mem_at (w_mem w) (slotKey (ev_ID ev) (sl_Number sl)) = Some en" "en_Revision en = n"
    and "p = claim_base (sl_Cleanup sl) (w_uuid w (w_uuids w)) (w_clock w (w_ticks w))"
    and "pg_NextAttemptAt p \<le> w_clock w (w_ticks w)" and "w_cleaner w (slot_call ev sl p) = Inr 1"
  shows "\<exists>w'. run (cleanSlot s ev sl n) w = (Inr (), w') \<and> w_cleanups w' = w_cleanups w @ [slot_call ev sl p] \<and>
    mem_at (w_mem w') = (mem_at (w_mem w))(slotKey (ev_ID ev) (sl_Number sl) := None, sessionKey (sl_ResumeDigest sl) := None)"
  using run_cleanSlot_ok [OF assms(1-4) _ assms(6)] assms(5) by (auto simp: before_def)

lemma joined_claim: "claim_base (sl_Cleanup joined_slot) u now = \<lparr>pg_ID = u, pg_Attempts = 0, pg_StartedAt = now, pg_NextAttemptAt = zero_time, pg_LastError = ''''\<rparr>"
  by (simp add: claim_base_def)

lemma joined_slot_at:
  "mem_at (w_mem joined_world) (slotKey (ev_ID opened_event) (sl_Number joined_slot)) = Some \<lparr>en_Value = VSlot joined_slot, en_Revision = 4\<rparr>"
  by (simp add: mem_at_def joined_world_def)

lemma joined_clock: "w_clock joined_world n = int n * 1000000000"
  by (simp add: joined_world_def opened_world_def created_world_def demo_world_def)

theorem clean_slot_frees_witness:
  "\<exists>w'. run (cleanSlot demo_service opened_event joined_slot 4) joined_world = (Inr (), w') \<and>
    mem_at (w_mem w') (slotKey (demo_uuid 0) 1) = None"
proof -
  let ?p = "claim_base (sl_Cleanup joined_slot) (w_uuid joined_world (w_uuids joined_world)) (w_clock joined_world (w_ticks joined_world))"
  have "pg_NextAttemptAt ?p \<le> w_clock joined_world (w_ticks joined_world)"
    unfolding joined_claim joined_clock by (simp add: zero_time_def)
  moreover have "w_cleaner joined_world (slot_call opened_event joined_slot ?p) = Inr 1"
    by (simp add: joined_world_def opened_world_def created_world_def demo_world_def slot_call_def)
  ultimately show ?thesis using clean_slot_frees [OF _ joined_slot_at, of demo_service] by fastforce
qed

text \<open>
  C14: a failed cleanup keeps the identity and schedules the next attempt. When the application
  fails or acknowledges another count, an error is returned and the slot stays, with the same
  subject, digest and cleanup id, one attempt more, a bounded error code, and its next attempt
  the backoff of that attempt after the failure; the session index and every other key stay.
\<close>

theorem failed_cleanup_keeps_slot:
  assumes "sv_cleaner s" and "mem_at (w_mem w) (slotKey (ev_ID ev) (sl_Number sl)) = Some en" "en_Revision en = n"
    and "p = claim_base (sl_Cleanup sl) (w_uuid w (w_uuids w)) (w_clock w (w_ticks w))"
    and "pg_NextAttemptAt p \<le> w_clock w (w_ticks w)" and "w_cleaner w (slot_call ev sl p) \<noteq> Inr 1"
  shows "\<exists>e w' sl' q r. run (cleanSlot s ev sl n) w = (Inl e, w') \<and> w_cleanups w' = w_cleanups w @ [slot_call ev sl p] \<and>
    mem_at (w_mem w') = (mem_at (w_mem w))(slotKey (ev_ID ev) (sl_Number sl) \<mapsto> \<lparr>en_Value = VSlot sl', en_Revision = r\<rparr>) \<and>
    sl' = sl\<lparr>sl_Cleanup := Some q\<rparr> \<and> pg_ID q = pg_ID p \<and> pg_Attempts q = pg_Attempts p + 1 \<and> pg_StartedAt q = pg_StartedAt p \<and>
    pg_LastError q = ''application_cleanup_failed'' \<and>
    pg_NextAttemptAt q = w_clock w (w_ticks w + 1) + 5000000000 * 2 ^ nat (min 6 (max 1 (pg_Attempts p + 1)) - 1)"
proof -
  have "sint (retryDelay k) = 5000000000 * 2 ^ nat (min 6 (max 1 k) - 1)" for k by (rule sint_retryDelay)
  then show ?thesis
    using run_cleanSlot_failed [OF assms(1-4) _ assms(6)] assms(5)
    by (force simp: before_def failed_attempt_def claimed_def time_add_def)
qed

theorem failed_cleanup_keeps_slot_witness:
  "\<exists>e w'. run (cleanSlot demo_service opened_event joined_slot 4) failing_world = (Inl e, w') \<and>
    mem_at (w_mem w') (slotKey (demo_uuid 0) 1) \<noteq> None"
proof -
  let ?p = "claim_base (sl_Cleanup joined_slot) (w_uuid failing_world (w_uuids failing_world)) (w_clock failing_world (w_ticks failing_world))"
  have "pg_NextAttemptAt ?p \<le> w_clock failing_world (w_ticks failing_world)"
    unfolding joined_claim by (simp add: zero_time_def failing_world_def joined_clock)
  moreover have "w_cleaner failing_world (slot_call opened_event joined_slot ?p) \<noteq> Inr 1"
    "mem_at (w_mem failing_world) (slotKey (ev_ID opened_event) (sl_Number joined_slot)) = Some \<lparr>en_Value = VSlot joined_slot, en_Revision = 4\<rparr>"
    using joined_slot_at by (simp_all add: failing_world_def)
  ultimately show ?thesis using failed_cleanup_keeps_slot [of demo_service failing_world opened_event joined_slot _ 4 ?p] by fastforce
qed

text \<open>
  C16: a claim is exclusive. While another worker's claim is not due, or when the slot was written
  since it was read, an attempt at it fails without asking the application for anything and
  without touching the store; only the first of two workers with one revision gets through.
\<close>

theorem clean_slot_exclusive:
  assumes "sv_cleaner s" and "mem_at (w_mem w) (slotKey (ev_ID ev) (sl_Number sl)) = Some en"
    and "en_Revision en \<noteq> n \<or> (\<exists>p. sl_Cleanup sl = Some p \<and> w_clock w (w_ticks w) < pg_NextAttemptAt p)"
  shows "\<exists>e w'. run (cleanSlot s ev sl n) w = (Inl e, w') \<and> (e = ErrCleanupPending \<or> e = StoreConflict) \<and>
    w_mem w' = w_mem w \<and> w_cleanups w' = w_cleanups w"
proof -
  have "mem_update (w_mem w) (slotKey (ev_ID ev) (sl_Number sl)) v n = (Inl StoreConflict, w_mem w)" if "en_Revision en \<noteq> n" for v
    using assms(2) that by (simp add: mem_update_def mem_at_def)
  with assms show ?thesis
    by (auto simp: cleanSlot_def run_claimCleanup claim_next_def claim_base_def before_def Let_def split: option.splits)
qed

theorem clean_slot_exclusive_witness:
  "\<exists>e w'. run (cleanSlot demo_service opened_event joined_slot 3) joined_world = (Inl e, w') \<and> (e = ErrCleanupPending \<or> e = StoreConflict) \<and>
    w_mem w' = w_mem joined_world \<and> w_cleanups w' = w_cleanups joined_world"
  by (rule clean_slot_exclusive [OF _ joined_slot_at]) simp_all

section \<open>Deleting an event\<close>

definition tombstone :: "entry \<Rightarrow> bool" where
  "tombstone en \<longleftrightarrow> (\<exists>ix. en_Value en = VIndex ix \<and> ix_Deleted ix)"

text \<open>The entry of a session index before and after its session was marked deleted.\<close>

definition marked :: "entry option \<Rightarrow> entry option \<Rightarrow> bool" where
  "marked x y \<longleftrightarrow> (x = None \<and> y = None) \<or> (x \<noteq> None \<and> (\<exists>en. y = Some en \<and> tombstone en))"

lemma marked_trans: "marked x y \<Longrightarrow> marked y z \<Longrightarrow> marked x z"
  by (auto simp: marked_def)

lemma run_markSessionDeleted:
  "\<exists>m. run (markSessionDeleted sl) w = (Inr (), w\<lparr>w_mem := m\<rparr>) \<and>
     marked (mem_at (w_mem w) (sessionKey (sl_ResumeDigest sl))) (mem_at m (sessionKey (sl_ResumeDigest sl))) \<and>
     (\<forall>k. k \<noteq> sessionKey (sl_ResumeDigest sl) \<longrightarrow> mem_at m k = mem_at (w_mem w) k)"
proof (cases "mem_at (w_mem w) (sessionKey (sl_ResumeDigest sl))")
  case None
  then have "run (markSessionDeleted sl) w = (Inr (), w\<lparr>w_mem := w_mem w\<rparr>)"
    by (simp add: markSessionDeleted_def numeral_eq_Suc run_simps)
  with None show ?thesis by (intro exI [of _ "w_mem w"]) (simp add: marked_def)
next
  case (Some en)
  let ?v = "VIndex \<lparr>ix_Deleted = True, ix_EventID = sl_EventID sl, ix_Slot = sl_Number sl\<rparr>"
  let ?m = "put (w_mem w) (sessionKey (sl_ResumeDigest sl)) ?v"
  have "run (markSessionDeleted sl) w = (Inr (), w\<lparr>w_mem := ?m\<rparr>)"
    using Some mem_update_at(1) [OF Some refl, of ?v] by (simp add: markSessionDeleted_def numeral_eq_Suc run_simps)
  with Some show ?thesis by (intro exI [of _ ?m]) (simp add: marked_def tombstone_def)
qed

definition session_keys :: "(string \<times> entry) list \<Rightarrow> string set" where
  "session_keys xs = {sessionKey (sl_ResumeDigest sl) | k en sl. (k, en) \<in> set xs \<and> en_Value en = VSlot sl}"

lemma session_keys_Cons: "en_Value en = VSlot sl \<Longrightarrow> session_keys ((k, en) # xs) = insert (sessionKey (sl_ResumeDigest sl)) (session_keys xs)"
  by (auto simp: session_keys_def)

lemma run_finalize_slots:
  assumes "distinct (map fst xs)" and "\<And>k en. (k, en) \<in> set xs \<Longrightarrow> mem_at (w_mem w) k = Some en \<and> (\<exists>sl. en_Value en = VSlot sl)"
    and "\<And>k. k \<in> fst ` set xs \<Longrightarrow> prefix (slotPrefix eid) k"
  shows "\<exists>m. run (finalize_slots xs) w = (Inr (), w\<lparr>w_mem := m\<rparr>) \<and> (\<forall>k \<in> fst ` set xs. mem_at m k = None) \<and>
    (\<forall>k \<in> session_keys xs. marked (mem_at (w_mem w) k) (mem_at m k)) \<and>
    (\<forall>k. k \<notin> fst ` set xs \<longrightarrow> k \<notin> session_keys xs \<longrightarrow> mem_at m k = mem_at (w_mem w) k)"
  using assms
proof (induction xs arbitrary: w)
  case Nil
  have "run (finalize_slots []) w = (Inr (), w\<lparr>w_mem := w_mem w\<rparr>)" by simp
  then show ?case by (intro exI [of _ "w_mem w"]) (simp add: session_keys_def)
next
  case (Cons x xs)
  obtain k en where x: "x = (k, en)" by fastforce
  from Cons.prems(2) [of k en] x obtain sl where sl: "mem_at (w_mem w) k = Some en" "en_Value en = VSlot sl" by auto
  from Cons.prems(1) x have k: "k \<notin> fst ` set xs" by auto
  let ?s = "sessionKey (sl_ResumeDigest sl)"
  have slots: "k' \<noteq> sessionKey d" if "k' \<in> fst ` set (x # xs)" for k' d
    using Cons.prems(3) [OF that] by auto
  have ks: "k \<noteq> ?s" using slots [of k] x by simp
  from run_markSessionDeleted [of sl w] obtain m1 where m1: "run (markSessionDeleted sl) w = (Inr (), w\<lparr>w_mem := m1\<rparr>)"
    "marked (mem_at (w_mem w) ?s) (mem_at m1 ?s)" "\<And>k. k \<noteq> ?s \<Longrightarrow> mem_at m1 k = mem_at (w_mem w) k" by blast
  let ?w = "w\<lparr>w_mem := del m1 k\<rparr>"
  have at: "mem_at (w_mem ?w) k' = mem_at (w_mem w) k'" if "k' \<in> fst ` set xs" for k'
    using that k m1(3) [of k'] slots [of k'] by auto
  have "\<exists>m. run (finalize_slots xs) ?w = (Inr (), ?w\<lparr>w_mem := m\<rparr>) \<and> (\<forall>k \<in> fst ` set xs. mem_at m k = None) \<and>
    (\<forall>k \<in> session_keys xs. marked (mem_at (w_mem ?w) k) (mem_at m k)) \<and>
    (\<forall>k. k \<notin> fst ` set xs \<longrightarrow> k \<notin> session_keys xs \<longrightarrow> mem_at m k = mem_at (w_mem ?w) k)"
  proof (rule Cons.IH)
    fix k' en' assume x': "(k', en') \<in> set xs"
    with Cons.prems(2) [of k' en'] at [of k'] show "mem_at (w_mem ?w) k' = Some en' \<and> (\<exists>sl. en_Value en' = VSlot sl)"
      by (force simp: image_iff)
  qed (use Cons.prems in auto)
  then obtain m where m: "run (finalize_slots xs) ?w = (Inr (), ?w\<lparr>w_mem := m\<rparr>)" "\<forall>k \<in> fst ` set xs. mem_at m k = None"
    "\<And>k. k \<in> session_keys xs \<Longrightarrow> marked (mem_at (w_mem ?w) k) (mem_at m k)"
    "\<And>k. k \<notin> fst ` set xs \<Longrightarrow> k \<notin> session_keys xs \<Longrightarrow> mem_at m k = mem_at (w_mem ?w) k" by blast
  have "mem_at m1 k = Some en" using m1(3) ks sl(1) by simp
  then have "run (finalize_slots (x # xs)) w = (Inr (), w\<lparr>w_mem := m\<rparr>)"
    using x sl(2) m1(1) m(1) by (simp add: mem_delete_revision_at)
  moreover have ksess: "k \<notin> session_keys xs" using slots [of k] x by (auto simp: session_keys_def)
  moreover have "mem_at m k = None" using m(4) [OF k ksess] by simp
  moreover have "marked (mem_at (w_mem w) k') (mem_at m k')" if "k' \<in> session_keys (x # xs)" for k'
  proof -
    from that obtain d where d: "k' = sessionKey d" by (auto simp: session_keys_def)
    have nk: "k' \<noteq> k" "k' \<notin> fst ` set xs" using slots [of k'] d x slots [of k] by auto
    show ?thesis
    proof (cases "k' = ?s")
      case True
      have "marked (mem_at m1 k') (mem_at m k')" if "k' \<in> session_keys xs" using m(3) [OF that] nk by simp
      moreover have "mem_at m k' = mem_at m1 k'" if "k' \<notin> session_keys xs" using m(4) [OF nk(2) that] nk by simp
      ultimately show ?thesis using m1(2) True marked_trans by (cases "k' \<in> session_keys xs") auto
    next
      case False
      with that session_keys_Cons [OF sl(2), of k xs] x have "k' \<in> session_keys xs" by simp
      from m(3) [OF this] nk m1(3) [OF False] show ?thesis by simp
    qed
  qed
  moreover have "mem_at m k' = mem_at (w_mem w) k'" if "k' \<notin> fst ` set (x # xs)" "k' \<notin> session_keys (x # xs)" for k'
    using that m(4) [of k'] m1(3) [of k'] session_keys_Cons [OF sl(2), of k xs] x by auto
  ultimately show ?case using m(2) x by (intro exI [of _ m]) auto
qed

text \<open>The session indexes of an event's slots.\<close>

definition event_sessions :: "memory \<Rightarrow> string \<Rightarrow> string set" where
  "event_sessions m eid = {sessionKey (sl_ResumeDigest sl) | k en sl.
     prefix (slotPrefix eid) k \<and> mem_at m k = Some en \<and> en_Value en = VSlot sl}"

definition only_slots :: "memory \<Rightarrow> string \<Rightarrow> bool" where
  "only_slots m eid \<longleftrightarrow> (\<forall>k en. prefix (slotPrefix eid) k \<longrightarrow> mem_at m k = Some en \<longrightarrow> (\<exists>sl. en_Value en = VSlot sl))"

text \<open>What the deletion of an event leaves of a store \<open>m\<close>, apart from its receipt.\<close>

definition event_gone :: "memory \<Rightarrow> memory \<Rightarrow> event \<Rightarrow> bool" where
  "event_gone m m' ev \<longleftrightarrow> mem_at m' (eventKey (ev_ID ev)) = None \<and> mem_at m' (invitationKey (ev_InvitationDigest ev)) = None \<and>
     (\<forall>k. prefix (slotPrefix (ev_ID ev)) k \<longrightarrow> mem_at m' k = None) \<and>
     (\<forall>k \<in> event_sessions m (ev_ID ev). marked (mem_at m k) (mem_at m' k)) \<and>
     (\<forall>k. k \<noteq> eventKey (ev_ID ev) \<longrightarrow> k \<noteq> invitationKey (ev_InvitationDigest ev) \<longrightarrow> \<not> prefix (slotPrefix (ev_ID ev)) k \<longrightarrow>
        k \<notin> event_sessions m (ev_ID ev) \<longrightarrow> mem_at m' k = mem_at m k)"

lemma run_finalizeEvent:
  assumes wf: "mem_wf (w_mem w)" and sl: "only_slots (w_mem w) (ev_ID ev)"
    and ev: "mem_at (w_mem w) (eventKey (ev_ID ev)) = Some en" "en_Revision en = n"
  shows "\<exists>m. run (finalizeEvent ev n) w = (Inr (), w\<lparr>w_mem := m\<rparr>) \<and> event_gone (w_mem w) m ev"
proof -
  let ?xs = "mem_list (w_mem w) (slotPrefix (ev_ID ev))"
  have set: "(k, en) \<in> set ?xs \<longleftrightarrow> prefix (slotPrefix (ev_ID ev)) k \<and> mem_at (w_mem w) k = Some en" for k en
    by (rule mem_listing_at [OF wf])
  have sess: "session_keys ?xs = event_sessions (w_mem w) (ev_ID ev)"
    unfolding session_keys_def event_sessions_def set by blast
  have "\<exists>m. run (finalize_slots ?xs) w = (Inr (), w\<lparr>w_mem := m\<rparr>) \<and> (\<forall>k \<in> fst ` set ?xs. mem_at m k = None) \<and>
    (\<forall>k \<in> session_keys ?xs. marked (mem_at (w_mem w) k) (mem_at m k)) \<and>
    (\<forall>k. k \<notin> fst ` set ?xs \<longrightarrow> k \<notin> session_keys ?xs \<longrightarrow> mem_at m k = mem_at (w_mem w) k)"
  proof (rule run_finalize_slots)
    show "distinct (map fst ?xs)" by (rule mem_listing_distinct [OF wf])
    show "mem_at (w_mem w) k = Some en \<and> (\<exists>sl. en_Value en = VSlot sl)" if "(k, en) \<in> set ?xs" for k en
      using that sl unfolding set only_slots_def by blast
    show "prefix (slotPrefix (ev_ID ev)) k" if "k \<in> fst ` set ?xs" for k using that set by force
  qed
  then obtain m1 where m1': "run (finalize_slots ?xs) w = (Inr (), w\<lparr>w_mem := m1\<rparr>)" "\<forall>k \<in> fst ` set ?xs. mem_at m1 k = None"
    "\<forall>k \<in> session_keys ?xs. marked (mem_at (w_mem w) k) (mem_at m1 k)"
    "\<forall>k. k \<notin> fst ` set ?xs \<longrightarrow> k \<notin> session_keys ?xs \<longrightarrow> mem_at m1 k = mem_at (w_mem w) k"
    by (elim exE conjE) (rule that)
  note m1 = m1'(1) bspec [OF m1'(2)] bspec [OF m1'(3)] m1'(4) [rule_format]
  have keys: "k \<in> fst ` set ?xs \<longleftrightarrow> prefix (slotPrefix (ev_ID ev)) k \<and> mem_at (w_mem w) k \<noteq> None" for k
    using set by force
  obtain m2 where m2: "run (deleteIfExists (invitationKey (ev_InvitationDigest ev))) (w\<lparr>w_mem := m1\<rparr>) = (Inr (), w\<lparr>w_mem := m1\<rparr>\<lparr>w_mem := m2\<rparr>)"
    "mem_at m2 = (mem_at (w_mem (w\<lparr>w_mem := m1\<rparr>)))(invitationKey (ev_InvitationDigest ev) := None)"
    by (rule run_deleteIfExists_at)
  have nsess: "eventKey a \<notin> session_keys ?xs" "invitationKey a \<notin> session_keys ?xs" "prefix (slotPrefix e) k \<Longrightarrow> k \<notin> session_keys ?xs" for a e k
    by (auto simp: session_keys_def)
  have evk: "mem_at m2 (eventKey (ev_ID ev)) = Some en" using m2(2) m1(4) [of "eventKey (ev_ID ev)"] keys nsess(1) ev(1) by simp
  let ?m = "del m2 (eventKey (ev_ID ev))"
  have "run (finalizeEvent ev n) w = (Inr (), w\<lparr>w_mem := ?m\<rparr>)"
    using m1(1) m2(1) evk ev(2) by (simp add: finalizeEvent_def mem_delete_revision_at)
  moreover have "event_gone (w_mem w) ?m ev"
    unfolding event_gone_def
  proof (intro conjI allI ballI impI)
    show "mem_at ?m k = None" if "prefix (slotPrefix (ev_ID ev)) k" for k
    proof -
      from that have "k \<noteq> eventKey (ev_ID ev)" "k \<noteq> invitationKey (ev_InvitationDigest ev)" by auto
      with that m1(2) [of k] m1(4) [of k] keys [of k] nsess(3) [OF that] m2(2) show ?thesis
        by (cases "mem_at (w_mem w) k") simp_all
    qed
    show "marked (mem_at (w_mem w) k) (mem_at ?m k)" if "k \<in> event_sessions (w_mem w) (ev_ID ev)" for k
    proof -
      from that sess nsess have "k \<noteq> eventKey (ev_ID ev)" "k \<noteq> invitationKey (ev_InvitationDigest ev)" by auto
      with m1(3) [of k] that sess m2(2) show ?thesis by simp
    qed
    show "mem_at ?m k = mem_at (w_mem w) k" if "k \<noteq> eventKey (ev_ID ev)" "k \<noteq> invitationKey (ev_InvitationDigest ev)"
      "\<not> prefix (slotPrefix (ev_ID ev)) k" "k \<notin> event_sessions (w_mem w) (ev_ID ev)" for k
      using that m1(4) [of k] keys [of k] sess m2(2) by simp
  qed (simp_all add: m2(2))
  ultimately show ?thesis by blast
qed

lemma decode_slots_all:
  assumes "\<And>k en. (k, en) \<in> set xs \<Longrightarrow> \<exists>sl. en_Value en = VSlot sl"
  shows "\<exists>sls. decode_slots xs = Inr sls \<and> set sls = {sl. \<exists>k en. (k, en) \<in> set xs \<and> en_Value en = VSlot sl}"
  using assms
proof (induction xs)
  case (Cons x xs)
  obtain k en where x: "x = (k, en)" by fastforce
  with Cons.prems [of k en] obtain sl where sl: "en_Value en = VSlot sl" by auto
  have "\<exists>sls. decode_slots xs = Inr sls \<and> set sls = {sl. \<exists>k en. (k, en) \<in> set xs \<and> en_Value en = VSlot sl}"
    by (rule Cons.IH, rule Cons.prems) (rule list.set_intros(2))
  then obtain sls where sls: "decode_slots xs = Inr sls" "set sls = {sl. \<exists>k en. (k, en) \<in> set xs \<and> en_Value en = VSlot sl}" by blast
  have "{sl. \<exists>k en. (k, en) \<in> set (x # xs) \<and> en_Value en = VSlot sl} = insert sl (set sls)"
    unfolding sls(2) x using sl by (simp add: set_eq_iff) (metis val.inject(2))
  with sls sl x show ?case by simp
qed simp

text \<open>The subjects of an event's slots.\<close>

definition event_subjects :: "memory \<Rightarrow> string \<Rightarrow> string set" where
  "event_subjects m eid = {sl_Subject sl | k en sl. prefix (slotPrefix eid) k \<and> mem_at m k = Some en \<and> en_Value en = VSlot sl}"

lemma event_subjects_cong:
  "(\<And>k. prefix (slotPrefix eid) k \<Longrightarrow> mem_at m k = mem_at m' k) \<Longrightarrow> event_subjects m eid = event_subjects m' eid"
  unfolding event_subjects_def by (metis (no_types, opaque_lifting))

lemma run_erase_event:
  assumes wf: "mem_wf (w_mem w)" and sl: "only_slots (w_mem w) (ev_ID ev)"
    and ev: "mem_at (w_mem w) (eventKey (ev_ID ev)) = Some en" "en_Revision en = n"
    and rc: "mem_at (w_mem w) (receiptKey (ev_ID ev)) = None"
    and ok: "\<And>q. w_cleaner w q = Inr (int (length (cc_Subjects q)))"
  shows "\<exists>subjects rc w' m r. run (erase_event ev p n) w = (Inr rc, w') \<and> set subjects = event_subjects (w_mem w) (ev_ID ev) \<and>
    w_cleanups w' = w_cleanups w @ [\<lparr>cc_DeletionID = ev_DeletionID ev, cc_ApplicationID = ev_ApplicationID ev,
      cc_EventID = ev_ID ev, cc_Subjects = subjects, cc_Reason = ''demo_event_deleted''\<rparr>] \<and>
    rc = receipt_of ev (w_clock w (w_ticks w)) (int (length subjects)) \<and>
    mem_at m = (mem_at (w_mem w))(receiptKey (ev_ID ev) \<mapsto> \<lparr>en_Value = VReceipt rc, en_Revision = r\<rparr>) \<and>
    event_gone m (w_mem w') ev"
proof -
  let ?xs = "mem_list (w_mem w) (slotPrefix (ev_ID ev))"
  have set: "(k, en) \<in> set ?xs \<longleftrightarrow> prefix (slotPrefix (ev_ID ev)) k \<and> mem_at (w_mem w) k = Some en" for k en
    by (rule mem_listing_at [OF wf])
  have "\<exists>sls. decode_slots ?xs = Inr sls \<and> set sls = {sl. \<exists>k en. (k, en) \<in> set ?xs \<and> en_Value en = VSlot sl}"
    using sl by (intro decode_slots_all) (auto simp: set only_slots_def)
  then obtain sls where sls: "decode_slots ?xs = Inr sls" "set sls = {sl. \<exists>k en. (k, en) \<in> set ?xs \<and> en_Value en = VSlot sl}" by blast
  let ?subj = "sort (map sl_Subject sls)"
  let ?q = "\<lparr>cc_DeletionID = ev_DeletionID ev, cc_ApplicationID = ev_ApplicationID ev,
      cc_EventID = ev_ID ev, cc_Subjects = ?subj, cc_Reason = ''demo_event_deleted''\<rparr>"
  let ?rc = "receipt_of ev (w_clock w (w_ticks w)) (int (length ?subj))"
  let ?m = "put (w_mem w) (receiptKey (ev_ID ev)) (VReceipt ?rc)"
  let ?w = "w\<lparr>w_cleanups := w_cleanups w @ [?q], w_ticks := w_ticks w + 1, w_mem := ?m\<rparr>"
  have subj: "set ?subj = event_subjects (w_mem w) (ev_ID ev)"
    by (auto simp: sls(2) set event_subjects_def image_iff)
  have "mem_wf (w_mem ?w)" "only_slots (w_mem ?w) (ev_ID ev)" "mem_at (w_mem ?w) (eventKey (ev_ID ev)) = Some en"
    using wf sl ev(1) by (auto simp: only_slots_def)
  from run_finalizeEvent [OF this ev(2)] obtain m where m: "run (finalizeEvent ev n) ?w = (Inr (), ?w\<lparr>w_mem := m\<rparr>)" "event_gone (w_mem ?w) m ev" by blast
  have "run (erase_event ev p n) w = run (save_receipt ev n ?rc) (w\<lparr>w_cleanups := w_cleanups w @ [?q], w_ticks := w_ticks w + 1\<rparr>)"
    using sls(1) ok [of ?q] by (simp add: erase_event_def Let_def cleanup_error_def ack_count_def)
  also have "\<dots> = (Inr ?rc, ?w\<lparr>w_mem := m\<rparr>)"
    using m(1) mem_create_at(1) [OF rc] by (simp add: save_receipt_def)
  finally show ?thesis using subj m(2)
    by (intro exI [of _ ?subj] exI [of _ ?rc] exI [of _ "?w\<lparr>w_mem := m\<rparr>"] exI [of _ ?m] exI [of _ "me_revision (w_mem w) + 1"]) simp
qed

lemma event_gone_cong:
  assumes "event_gone m1 m' ev" and "\<And>k. k \<noteq> eventKey (ev_ID ev) \<Longrightarrow> k \<noteq> receiptKey (ev_ID ev) \<Longrightarrow> mem_at m1 k = mem_at m k"
  shows "mem_at m' (eventKey (ev_ID ev)) = None" "mem_at m' (invitationKey (ev_InvitationDigest ev)) = None"
    "prefix (slotPrefix (ev_ID ev)) k \<Longrightarrow> mem_at m' k = None"
    "k \<in> event_sessions m (ev_ID ev) \<Longrightarrow> marked (mem_at m k) (mem_at m' k)"
    "mem_at m' (receiptKey (ev_ID ev)) = mem_at m1 (receiptKey (ev_ID ev))"
    "k \<noteq> eventKey (ev_ID ev) \<Longrightarrow> k \<noteq> receiptKey (ev_ID ev) \<Longrightarrow> k \<noteq> invitationKey (ev_InvitationDigest ev) \<Longrightarrow>
       \<not> prefix (slotPrefix (ev_ID ev)) k \<Longrightarrow> k \<notin> event_sessions m (ev_ID ev) \<Longrightarrow> mem_at m' k = mem_at m k"
proof -
  have eq: "mem_at m1 k = mem_at m k" if "prefix (slotPrefix (ev_ID ev)) k" for k
    by (rule assms(2)) (use that in auto)
  have sess: "event_sessions m1 (ev_ID ev) = event_sessions m (ev_ID ev)"
    unfolding event_sessions_def using eq by (metis (no_types, opaque_lifting))
  have keys: "k \<noteq> eventKey a \<and> k \<noteq> receiptKey a" if "k \<in> event_sessions m (ev_ID ev)" for k a
    using that by (auto simp: event_sessions_def)
  from assms(1) show "mem_at m' (eventKey (ev_ID ev)) = None" "mem_at m' (invitationKey (ev_InvitationDigest ev)) = None"
    "prefix (slotPrefix (ev_ID ev)) k \<Longrightarrow> mem_at m' k = None"
    by (simp_all add: event_gone_def)
  show "marked (mem_at m k) (mem_at m' k)" if "k \<in> event_sessions m (ev_ID ev)"
    using that assms(1) keys [OF that] assms(2) [of k] by (auto simp: event_gone_def sess)
  have "receiptKey (ev_ID ev) \<notin> event_sessions m1 (ev_ID ev)" by (auto simp: event_sessions_def)
  then show "mem_at m' (receiptKey (ev_ID ev)) = mem_at m1 (receiptKey (ev_ID ev))"
    using assms(1) by (simp add: event_gone_def)
  show "mem_at m' k = mem_at m k" if "k \<noteq> eventKey (ev_ID ev)" "k \<noteq> receiptKey (ev_ID ev)" "k \<noteq> invitationKey (ev_InvitationDigest ev)"
    "\<not> prefix (slotPrefix (ev_ID ev)) k" "k \<notin> event_sessions m (ev_ID ev)"
    using that assms by (auto simp: event_gone_def sess)
qed

lemma run_cleanEvent:
  fixes w :: world
  defines "now \<equiv> w_clock w (w_ticks w)"
  assumes "mem_at (w_mem w) (receiptKey (ev_ID ev)) = None" and "sv_cleaner s" and "ev_Cleanup ev = Some p"
    and "\<not> before now (pg_NextAttemptAt p)" and "mem_at (w_mem w) (eventKey (ev_ID ev)) = Some en" "en_Revision en = n"
  shows "run (cleanEvent s ev n) w = run (erase_event (ev\<lparr>ev_Cleanup := Some (claimed p now (sv_cleanupLease s))\<rparr>)
      (claimed p now (sv_cleanupLease s)) (me_revision (w_mem w) + 1))
    (w\<lparr>w_ticks := w_ticks w + 1, w_mem := put (w_mem w) (eventKey (ev_ID ev)) (VEvent (ev\<lparr>ev_Cleanup := Some (claimed p now (sv_cleanupLease s))\<rparr>))\<rparr>)"
proof -
  let ?ev = "ev\<lparr>ev_Cleanup := Some (claimed p now (sv_cleanupLease s))\<rparr>"
  have "upgrade_tracked ev = ev" using assms(4) by (simp add: upgrade_tracked_def)
  moreover have "claim_next p now (sv_cleanupLease s) = Inr (claimed p now (sv_cleanupLease s))"
    using assms(5) by (simp add: claim_next_def claimed_def)
  ultimately show ?thesis
    using assms(2-4) mem_update_at(1) [OF assms(6,7), of "VEvent ?ev"]
    by (simp add: cleanEvent_def get_receipt_def mem_get_at claimCleanup_def Let_def now_def [symmetric])
qed

text \<open>
  C9: deletion, end to end. When the delete capability, a configured cleaner and an application
  that acknowledges every subject come together, deleting an event that is not yet being deleted
  returns a receipt that is in the store and names the deleter and the number of identities;
  exactly one cleanup was requested, for exactly the subjects of the event's slots; the event,
  its slots and its invitation are gone, each session index of its guests that existed is a
  tombstone, and every other key is as it was.
\<close>

theorem delete_event_end_to_end:
  assumes "mem_wf (w_mem w)" and "only_slots (w_mem w) eid"
    and "mem_at (w_mem w) (eventKey eid) = Some \<lparr>en_Value = VEvent ev, en_Revision = n\<rparr>" and "ev_ID ev = eid"
    and "can ev pr CapDelete" and "sv_cleaner s" and "ev_State ev \<noteq> Deleting" and "mem_at (w_mem w) (receiptKey eid) = None"
    and "\<And>q. w_cleaner w q = Inr (int (length (cc_Subjects q)))" and "zero_time \<le> w_clock w (w_ticks w + 2)"
  shows "\<exists>rc w' q r. run (DeleteEvent s pr eid) w = (Inr rc, w') \<and>
    w_cleanups w' = w_cleanups w @ [q] \<and> set (cc_Subjects q) = event_subjects (w_mem w) eid \<and> cc_EventID q = eid \<and>
    rc_EventID rc = eid \<and> rc_DeletedBySubject rc = pr \<and> rc_DeletionID rc = cc_DeletionID q \<and> rc_IdentitiesDeleted rc = int (length (cc_Subjects q)) \<and>
    mem_at (w_mem w') (receiptKey eid) = Some \<lparr>en_Value = VReceipt rc, en_Revision = r\<rparr> \<and>
    mem_at (w_mem w') (eventKey eid) = None \<and> mem_at (w_mem w') (invitationKey (ev_InvitationDigest ev)) = None \<and>
    (\<forall>k. prefix (slotPrefix eid) k \<longrightarrow> mem_at (w_mem w') k = None) \<and>
    (\<forall>k \<in> event_sessions (w_mem w) eid. marked (mem_at (w_mem w) k) (mem_at (w_mem w') k)) \<and>
    (\<forall>k. k \<notin> {eventKey eid, receiptKey eid, invitationKey (ev_InvitationDigest ev)} \<longrightarrow> \<not> prefix (slotPrefix eid) k \<longrightarrow>
       k \<notin> event_sessions (w_mem w) eid \<longrightarrow> mem_at (w_mem w') k = mem_at (w_mem w) k)"
proof -
  let ?key = "eventKey eid" and ?c = "\<lambda>i. w_clock w (w_ticks w + i)"
  define e1 where "e1 = start_deleting ev pr (w_uuid w (w_uuids w)) (w_clock w (w_ticks w)) (?c 1)"
  define p0 where "p0 = \<lparr>pg_ID = w_uuid w (w_uuids w), pg_Attempts = 0, pg_StartedAt = w_clock w (w_ticks w),
      pg_NextAttemptAt = zero_time, pg_LastError = ''''\<rparr>"
  define e2 where "e2 = e1\<lparr>ev_Cleanup := Some (claimed p0 (?c 2) (sv_cleanupLease s))\<rparr>"
  let ?w1 = "w\<lparr>w_uuids := w_uuids w + 1, w_ticks := w_ticks w + 2, w_mem := put (w_mem w) ?key (VEvent e1)\<rparr>"
  let ?w2 = "?w1\<lparr>w_ticks := w_ticks ?w1 + 1, w_mem := put (w_mem ?w1) ?key (VEvent e2)\<rparr>" and ?r = "me_revision (w_mem w)"
  have sel: "ev_ID e1 = eid" "ev_Cleanup e1 = Some p0" "ev_InvitationDigest e1 = ev_InvitationDigest ev" "ev_DeletedBySubject e1 = pr"
    using assms(4) by (simp_all add: e1_def start_deleting_def p0_def)
  have "run (DeleteEvent s pr eid) w = run (cleanEvent s e1 (?r + 1)) ?w1"
    using assms(5-7) run_load(1) [OF assms(3)] mem_update_at(1) [OF assms(3), of n "VEvent e1"]
    by (simp add: DeleteEvent_def Let_def e1_def)
  also have "\<dots> = run (erase_event e2 (claimed p0 (?c 2) (sv_cleanupLease s)) (?r + 2)) ?w2"
    using run_cleanEvent [of ?w1 e1 s p0] assms(6,8,10) sel by (simp add: e2_def p0_def before_def)
  finally have del: "run (DeleteEvent s pr eid) w = run (erase_event e2 (claimed p0 (?c 2) (sv_cleanupLease s)) (?r + 2)) ?w2" .
  have sel2: "ev_ID e2 = eid" "ev_InvitationDigest e2 = ev_InvitationDigest ev" "ev_DeletedBySubject e2 = pr"
    using sel by (simp_all add: e2_def)
  have "mem_wf (w_mem ?w2)" "only_slots (w_mem ?w2) (ev_ID e2)"
    "mem_at (w_mem ?w2) (eventKey (ev_ID e2)) = Some \<lparr>en_Value = VEvent e2, en_Revision = ?r + 2\<rparr>"
    "mem_at (w_mem ?w2) (receiptKey (ev_ID e2)) = None"
    using assms(1,2,8) sel2(1) by (auto simp: only_slots_def)
  note er = run_erase_event [OF this(1-3) _ this(4), of "?r + 2" "claimed p0 (?c 2) (sv_cleanupLease s)"]
  have subj: "event_subjects (w_mem ?w2) eid = event_subjects (w_mem w) eid"
    by (rule event_subjects_cong) auto
  let ?q = "\<lambda>subjects. \<lparr>cc_DeletionID = ev_DeletionID e2, cc_ApplicationID = ev_ApplicationID e2,
      cc_EventID = ev_ID e2, cc_Subjects = subjects, cc_Reason = ''demo_event_deleted''\<rparr>"
  from er assms(9) obtain subjects rc w' m r where fin: "run (DeleteEvent s pr eid) w = (Inr rc, w')" "set subjects = event_subjects (w_mem w) eid"
    "w_cleanups w' = w_cleanups w @ [?q subjects]" "rc = receipt_of e2 (w_clock w (w_ticks ?w2)) (int (length subjects))"
    "mem_at m = (mem_at (w_mem ?w2))(receiptKey eid \<mapsto> \<lparr>en_Value = VReceipt rc, en_Revision = r\<rparr>)"
    "event_gone m (w_mem w') e2"
    unfolding del subj [symmetric] sel2 by auto
  have "mem_at m k = mem_at (w_mem w) k" if "k \<noteq> eventKey (ev_ID e2)" "k \<noteq> receiptKey (ev_ID e2)" for k
    using that fin(5) sel2(1) by simp
  note gone = event_gone_cong [OF fin(6) this]
  show ?thesis
    using fin gone sel2
    by (intro exI [of _ rc] exI [of _ w'] exI [of _ "?q subjects"] exI [of _ r]) (simp add: receipt_of_def)
qed

theorem delete_event_end_to_end_witness:
  "\<exists>rc w' (q :: cleanup_call). run (DeleteEvent demo_service ''host'' (demo_uuid 0)) joined_world = (Inr rc, w') \<and> rc_DeletedBySubject rc = ''host'' \<and>
     set (cc_Subjects q) = {subj (demo_uuid 0) (demo_uuid 1)} \<and> mem_at (w_mem w') (slotKey (demo_uuid 0) 1) = None"
proof -
  have sl: "k = slotKey (demo_uuid 0) 1 \<and> en = \<lparr>en_Value = VSlot joined_slot, en_Revision = 4\<rparr>"
    if "prefix (slotPrefix (demo_uuid 0)) k" "mem_at (w_mem joined_world) k = Some en" for k en
    using that by (auto simp: mem_at_def joined_world_def split: if_splits)
  have at: "mem_wf (w_mem joined_world)" "mem_at (w_mem joined_world) (eventKey (demo_uuid 0)) = Some \<lparr>en_Value = VEvent opened_event, en_Revision = 3\<rparr>"
    "mem_at (w_mem joined_world) (receiptKey (demo_uuid 0)) = None" "can opened_event ''host'' CapDelete"
    "\<And>q. w_cleaner joined_world q = Inr (int (length (cc_Subjects q)))"
    by (simp_all add: mem_at_def mem_wf_def can_def joined_world_def opened_world_def created_world_def demo_world_def)
  have only: "only_slots (w_mem joined_world) (demo_uuid 0)" using sl by (fastforce simp: only_slots_def)
  have clock: "zero_time \<le> w_clock joined_world (w_ticks joined_world + 2)" by (simp add: joined_clock zero_time_def)
  have st: "ev_State opened_event \<noteq> Deleting" by simp
  from delete_event_end_to_end [OF at(1) only at(2) opened_event_sel(1) at(4) demo_service_sel(2) st at(3,5) clock]
  obtain rc w' and q :: cleanup_call where del: "run (DeleteEvent demo_service ''host'' (demo_uuid 0)) joined_world = (Inr rc, w')" "rc_DeletedBySubject rc = ''host''"
    "set (cc_Subjects q) = event_subjects (w_mem joined_world) (demo_uuid 0)" "\<forall>k. prefix (slotPrefix (demo_uuid 0)) k \<longrightarrow> mem_at (w_mem w') k = None"
    by (elim exE conjE) (rule that)
  have "event_subjects (w_mem joined_world) (demo_uuid 0) = {subj (demo_uuid 0) (demo_uuid 1)}"
  proof (intro equalityI subsetI)
    show "x \<in> {subj (demo_uuid 0) (demo_uuid 1)}" if "x \<in> event_subjects (w_mem joined_world) (demo_uuid 0)" for x
      using that sl by (fastforce simp: event_subjects_def)
    show "x \<in> event_subjects (w_mem joined_world) (demo_uuid 0)" if "x \<in> {subj (demo_uuid 0) (demo_uuid 1)}" for x
      using that joined_slot_at unfolding event_subjects_def
      by (intro CollectI exI [of _ "slotKey (demo_uuid 0) 1"] exI [of _ "\<lparr>en_Value = VSlot joined_slot, en_Revision = 4\<rparr>"] exI [of _ joined_slot]) simp
  qed
  with del show ?thesis by auto
qed

text \<open>
  C17: a deletion that was interrupted keeps its receipt. When the receipt of an event is already
  stored, cleaning the event again asks the application for nothing, returns the original
  receipt with its count, and finishes the removal.
\<close>

theorem interrupted_deletion_resumes:
  assumes "mem_wf (w_mem w)" and "only_slots (w_mem w) (ev_ID ev)"
    and "mem_at (w_mem w) (receiptKey (ev_ID ev)) = Some \<lparr>en_Value = VReceipt rc, en_Revision = r\<rparr>"
    and "mem_at (w_mem w) (eventKey (ev_ID ev)) = Some en" "en_Revision en = n"
  shows "\<exists>w'. run (cleanEvent s ev n) w = (Inr rc, w') \<and> w_cleanups w' = w_cleanups w \<and> event_gone (w_mem w) (w_mem w') ev \<and>
    mem_at (w_mem w') (receiptKey (ev_ID ev)) = mem_at (w_mem w) (receiptKey (ev_ID ev))"
proof -
  from run_finalizeEvent [OF assms(1,2,4,5)] obtain m where m: "run (finalizeEvent ev n) w = (Inr (), w\<lparr>w_mem := m\<rparr>)" "event_gone (w_mem w) m ev" by blast
  have "run (cleanEvent s ev n) w = (Inr rc, w\<lparr>w_mem := m\<rparr>)"
    using assms(3) m(1) by (simp add: cleanEvent_def get_receipt_def mem_get_at)
  moreover from event_gone_cong(5) [OF m(2)] have "mem_at m (receiptKey (ev_ID ev)) = mem_at (w_mem w) (receiptKey (ev_ID ev))" by blast
  ultimately show ?thesis using m(2) by auto
qed

text \<open>The world of an interrupted deletion: the receipt is stored, the event and its slot are still there.\<close>

definition interrupted_world :: world where
  "interrupted_world = stuck_world\<lparr>w_mem := put (w_mem stuck_world) (receiptKey (demo_uuid 0)) (VReceipt demo_receipt)\<rparr>"

theorem interrupted_deletion_resumes_witness:
  "\<exists>w'. run (cleanEvent demo_service stuck_event 8) interrupted_world = (Inr demo_receipt, w') \<and>
     w_cleanups w' = w_cleanups interrupted_world \<and> mem_at (w_mem w') (slotKey (demo_uuid 0) 1) = None"
proof -
  have id: "ev_ID stuck_event = demo_uuid 0" by (simp add: stuck_event_def)
  have "mem_wf (w_mem stuck_world)" by (simp add: mem_wf_def stuck_world_def)
  moreover have "only_slots (w_mem stuck_world) (demo_uuid 0)"
    by (auto simp: only_slots_def mem_at_def stuck_world_def split: if_splits)
  moreover have "mem_at (w_mem stuck_world) (eventKey (demo_uuid 0)) = Some \<lparr>en_Value = VEvent stuck_event, en_Revision = 8\<rparr>"
    by (simp add: mem_at_def stuck_world_def)
  ultimately have at: "mem_wf (w_mem interrupted_world)" "only_slots (w_mem interrupted_world) (ev_ID stuck_event)"
    "mem_at (w_mem interrupted_world) (receiptKey (ev_ID stuck_event)) = Some \<lparr>en_Value = VReceipt demo_receipt, en_Revision = 9\<rparr>"
    "mem_at (w_mem interrupted_world) (eventKey (ev_ID stuck_event)) = Some \<lparr>en_Value = VEvent stuck_event, en_Revision = 8\<rparr>"
    by (auto simp: interrupted_world_def only_slots_def id) (simp add: stuck_world_def)
  from interrupted_deletion_resumes [OF at, of 8 demo_service] obtain w' where
    "run (cleanEvent demo_service stuck_event 8) interrupted_world = (Inr demo_receipt, w')" "w_cleanups w' = w_cleanups interrupted_world"
    "event_gone (w_mem interrupted_world) (w_mem w') stuck_event" by auto
  then show ?thesis unfolding event_gone_def id by auto
qed

section \<open>The reconciler\<close>

text \<open>Counters of a report: what was attempted is at most the batch and bounds what completed and failed.\<close>

definition counted :: "int \<Rightarrow> int \<Rightarrow> recovery_report \<Rightarrow> bool" where
  "counted batch tasks rep \<longleftrightarrow> 0 \<le> rr_Attempted rep \<and> rr_Attempted rep \<le> batch \<and> 0 \<le> rr_Completed rep \<and> 0 \<le> rr_Failed rep \<and>
     rr_Completed rep + rr_Failed rep \<le> rr_Attempted rep \<and> rr_Pending rep = tasks - rr_Completed rep \<and> 0 \<le> rr_Oldest rep"

lemma process_counted:
  "counted batch tasks rep \<Longrightarrow> always (\<lambda>(rep', e). counted batch tasks rep' \<and> rr_Attempted rep' \<le> rr_Attempted rep + int (length ts)) (process_tasks s now batch ts rep)"
proof (induction ts arbitrary: rep)
  case (Cons t ts)
  let ?rep = "rep\<lparr>rr_Oldest := max (rr_Oldest rep) (time_sub now (tk_started t))\<rparr>"
  let ?rep1 = "?rep\<lparr>rr_Attempted := rr_Attempted ?rep + 1\<rparr>"
  have c: "counted batch tasks ?rep" using Cons.prems by (auto simp: counted_def)
  show ?case
  proof (cases "before now (tk_due t) \<or> rr_Attempted ?rep \<ge> batch")
    case True
    have "always (\<lambda>(rep', e). counted batch tasks rep' \<and> rr_Attempted rep' \<le> rr_Attempted ?rep + int (length ts)) (process_tasks s now batch ts ?rep)"
      by (rule Cons.IH [OF c])
    then have "always (\<lambda>(rep', e). counted batch tasks rep' \<and> rr_Attempted rep' \<le> rr_Attempted rep + int (length (t # ts))) (process_tasks s now batch ts ?rep)"
      by (rule always_mono) auto
    with True show ?thesis by simp
  next
    case False
    have "counted batch tasks (count_result r ?rep1)" "rr_Attempted (count_result r ?rep1) = rr_Attempted rep + 1" for r
      using c False by (auto simp: counted_def count_result_def split: sum.splits)
    then have "always (\<lambda>(rep', e). counted batch tasks rep' \<and> rr_Attempted rep' \<le> rr_Attempted rep + int (length (t # ts)))
        (process_tasks s now batch ts (count_result r ?rep1))" for r
      using Cons.IH [of "count_result r ?rep1"] by (auto elim!: always_mono)
    with False c show ?thesis by (auto simp: Let_def intro: always_mono [OF always_True] split: option.splits)
  qed
qed (simp add: counted_def)

lemma reconcile_always:
  "always (\<lambda>(rep, e). \<exists>tasks. 0 \<le> tasks \<and> counted (max 0 batch) tasks rep \<and> rr_Attempted rep \<le> tasks) (Reconcile s batch)"
proof -
  let ?Q = "\<lambda>(rep, e :: err option). \<exists>tasks. 0 \<le> tasks \<and> counted (max 0 batch) tasks rep \<and> rr_Attempted rep \<le> tasks"
  have e: "?Q (empty_report, x)" for x by (auto simp: counted_def empty_report_def intro!: exI [of _ 0])
  have p: "always ?Q (process_tasks s now batch (sort_key tk_due ts) (empty_report\<lparr>rr_Pending := int (length ts)\<rparr>))" if "1 \<le> batch" for now ts
  proof (rule always_mono [OF process_counted])
    show "counted batch (int (length ts)) (empty_report\<lparr>rr_Pending := int (length ts)\<rparr>)"
      using that by (simp add: counted_def empty_report_def)
    fix x :: "recovery_report \<times> err option"
    assume "case x of (rep', e) \<Rightarrow> counted batch (int (length ts)) rep' \<and> rr_Attempted rep' \<le> rr_Attempted (empty_report\<lparr>rr_Pending := int (length ts)\<rparr>) + int (length (sort_key tk_due ts))"
    then show "?Q x" using that by (auto simp: empty_report_def intro!: exI [of _ "int (length ts)"])
  qed
  show ?thesis using e p by (auto simp: Reconcile_def intro!: always_mono [OF always_True] split: sum.splits)
qed

text \<open>
  What the reconciler reports is bounded. Whatever every call of its environment answers, a
  pass attempts at most its batch, completes and fails no more than it attempted, leaves pending
  what it did not complete, and reports a non-negative age; a batch below one does nothing.
\<close>

theorem reconcile_report_bounded:
  "always (\<lambda>(rep, e). \<exists>tasks. 0 \<le> tasks \<and> counted (max 0 batch) tasks rep \<and> rr_Attempted rep \<le> tasks) (Reconcile s batch)"
  by (rule reconcile_always)

text \<open>A program that signs no token, draws no secret and creates nothing but receipts.\<close>

primrec admits_nobody :: "'a prog \<Rightarrow> bool" where
  "admits_nobody (Ret x) = True"
| "admits_nobody (DoGet k c) = (\<forall>r. admits_nobody (c r))"
| "admits_nobody (DoCreate k v c) = ((\<exists>rc e. v = VReceipt rc \<and> k = receiptKey e) \<and> (\<forall>r. admits_nobody (c r)))"
| "admits_nobody (DoUpdate k v n c) = (\<forall>r. admits_nobody (c r))"
| "admits_nobody (DoDelete k c) = (\<forall>r. admits_nobody (c r))"
| "admits_nobody (DoDeleteRev k n c) = (\<forall>r. admits_nobody (c r))"
| "admits_nobody (DoList p c) = (\<forall>r. admits_nobody (c r))"
| "admits_nobody (DoNow c) = (\<forall>r. admits_nobody (c r))"
| "admits_nobody (DoRand c) = False"
| "admits_nobody (DoUuid c) = (\<forall>r. admits_nobody (c r))"
| "admits_nobody (DoCleanup q c) = (\<forall>r. admits_nobody (c r))"
| "admits_nobody (DoSign q c) = False"
| "admits_nobody (DoCtx c) = (\<forall>r. admits_nobody (c r))"

lemma admits_nobody_bind: "admits_nobody p \<Longrightarrow> (\<And>x. admits_nobody (f x)) \<Longrightarrow> admits_nobody (prog_bind p f)"
  by (induction p) auto

lemma admits_nobody_tryp: "admits_nobody p \<Longrightarrow> (\<And>x. admits_nobody (f x)) \<Longrightarrow> admits_nobody (tryp p f)"
  unfolding tryp_def by (rule admits_nobody_bind) (auto split: sum.splits)

lemmas nobody_intros = admits_nobody_bind admits_nobody_tryp

lemma nobody_mark: "admits_nobody (markSessionDeleted_loop n sl)"
  by (induction n) (auto split: sum.splits)

lemma nobody_finalize_slots: "admits_nobody (finalize_slots xs)"
  by (induction xs) (auto simp: markSessionDeleted_def nobody_mark intro!: nobody_intros split: sum.splits)

lemma nobody_parts:
  "admits_nobody (deleteIfExists k)" "admits_nobody (get_receipt eid)" "admits_nobody (finalizeEvent ev n)"
  "admits_nobody (claimCleanup po now lease)"
  "admits_nobody (record_failure k f p n e)" "admits_nobody (release_slot k sl n)"
  by (auto simp: deleteIfExists_def get_receipt_def finalizeEvent_def nobody_finalize_slots claimCleanup_def record_failure_def
      release_slot_def intro!: nobody_intros split: sum.splits option.splits)

lemma nobody_run_task: "admits_nobody (run_task s t)"
  by (auto simp: run_task_def cleanSlot_def erase_slot_def cleanEvent_def erase_event_def save_receipt_def nobody_parts Let_def
      intro!: nobody_intros split: sum.splits option.splits)

lemma nobody_gather: "admits_nobody (gather_tasks now xs)"
  by (induction xs) (auto intro!: nobody_intros split: sum.splits)

lemma nobody_process: "admits_nobody (process_tasks s now batch ts rep)"
  by (induction ts arbitrary: rep) (auto simp: Let_def nobody_run_task intro!: nobody_intros split: option.splits)

lemma nobody_Reconcile: "admits_nobody (Reconcile s batch)"
  by (auto simp: Reconcile_def nobody_gather nobody_process intro!: nobody_intros split: sum.splits)

definition keys_of :: "memory \<Rightarrow> string set" where
  "keys_of m = {k. mem_at m k \<noteq> None}"

lemma keys_after:
  "keys_of (snd (mem_create m k v)) \<subseteq> insert k (keys_of m)" "keys_of (snd (mem_update m k v n)) \<subseteq> keys_of m"
  "keys_of (snd (mem_delete m k)) \<subseteq> keys_of m" "keys_of (snd (mem_delete_revision m k n)) \<subseteq> keys_of m"
  by (auto simp: keys_of_def mem_at_def mem_defs Let_def split: option.splits if_splits)

text \<open>No token was signed, no secret drawn, and no key appeared but those of receipts.\<close>

definition no_admission :: "world \<Rightarrow> world \<Rightarrow> bool" where
  "no_admission w w' \<longleftrightarrow> w_signed w' = w_signed w \<and> w_rands w' = w_rands w \<and> keys_of (w_mem w') \<subseteq> keys_of (w_mem w) \<union> range receiptKey"

lemma no_admission_frame [simp]:
  "no_admission (w\<lparr>w_ticks := t\<rparr>) w' = no_admission w w'" "no_admission (w\<lparr>w_uuids := u\<rparr>) w' = no_admission w w'"
  "no_admission (w\<lparr>w_cleanups := q\<rparr>) w' = no_admission w w'" "no_admission w w"
  by (simp_all add: no_admission_def)

lemma no_admission_mem:
  assumes "no_admission (w\<lparr>w_mem := m\<rparr>) w'" "keys_of m \<subseteq> keys_of (w_mem w) \<union> range receiptKey"
  shows "no_admission w w'"
  using assms by (auto simp: no_admission_def)

lemma nobody_run: "admits_nobody p \<Longrightarrow> no_admission w (snd (run p w))"
proof (induction p arbitrary: w)
  case (DoCreate k v c)
  have "no_admission (w\<lparr>w_mem := snd (mem_create (w_mem w) k v)\<rparr>) (snd (run (DoCreate k v c) w))"
    using DoCreate by (simp add: case_prod_beta)
  then show ?case
    by (rule no_admission_mem) (use DoCreate.prems keys_after(1) [of "w_mem w" k v] in auto)
next
  case (DoUpdate k v n c)
  have "no_admission (w\<lparr>w_mem := snd (mem_update (w_mem w) k v n)\<rparr>) (snd (run (DoUpdate k v n c) w))"
    using DoUpdate by (simp add: case_prod_beta)
  then show ?case
    by (rule no_admission_mem) (use keys_after(2) [of "w_mem w" k v n] in auto)
next
  case (DoDelete k c)
  have "no_admission (w\<lparr>w_mem := snd (mem_delete (w_mem w) k)\<rparr>) (snd (run (DoDelete k c) w))"
    using DoDelete by (simp add: case_prod_beta)
  then show ?case
    by (rule no_admission_mem) (use keys_after(3) [of "w_mem w" k] in auto)
next
  case (DoDeleteRev k n c)
  have "no_admission (w\<lparr>w_mem := snd (mem_delete_revision (w_mem w) k n)\<rparr>) (snd (run (DoDeleteRev k n c) w))"
    using DoDeleteRev by (simp add: case_prod_beta)
  then show ?case
    by (rule no_admission_mem) (use keys_after(4) [of "w_mem w" k n] in auto)
next
  case (DoNow c)
  have "no_admission (w\<lparr>w_ticks := w_ticks w + 1\<rparr>) (snd (run (DoNow c) w))" using DoNow by (simp del: no_admission_frame)
  then show ?case by (simp only: no_admission_frame)
next
  case (DoUuid c)
  have "no_admission (w\<lparr>w_uuids := w_uuids w + 1\<rparr>) (snd (run (DoUuid c) w))" using DoUuid by (simp del: no_admission_frame)
  then show ?case by (simp only: no_admission_frame)
next
  case (DoCleanup q c)
  have "no_admission (w\<lparr>w_cleanups := w_cleanups w @ [q]\<rparr>) (snd (run (DoCleanup q c) w))" using DoCleanup by (simp del: no_admission_frame)
  then show ?case by (simp only: no_admission_frame)
qed auto

text \<open>
  C24: the reconciler never admits a user. Whatever its environment answers, a pass signs no
  token, draws no secret and creates no document but receipts; run alone, the keys of the store
  afterwards are keys it had before, or receipts.
\<close>

theorem reconcile_never_admits:
  "admits_nobody (Reconcile s batch) \<and>
   w_signed (snd (run (Reconcile s batch) w)) = w_signed w \<and>
   keys_of (w_mem (snd (run (Reconcile s batch) w))) \<subseteq> keys_of (w_mem w) \<union> range receiptKey"
  using nobody_run [OF nobody_Reconcile] nobody_Reconcile by (simp add: no_admission_def)

section \<open>Receipts\<close>

lemma sort_key_desc: "sorted_wrt (\<lambda>a b. (f a :: int) \<ge> f b) (sort_key (\<lambda>x. - f x) xs)"
  using sorted_sort_key [of "\<lambda>x. - f x" xs] by (simp add: sorted_map)

text \<open>
  C27: a page of receipts is the newest the caller may see. It holds at most a hundred, each of
  an event the caller owned or deleted, the newest first; a receipt the caller may see and that
  is left out is no newer than any of the page, and none is left out below a hundred.
\<close>

theorem receipts_page_newest:
  "length (visible_receipts pr rcs) \<le> 100 \<and>
   set (visible_receipts pr rcs) \<subseteq> {rc \<in> set rcs. pr = rc_OwnerSubject rc \<or> pr = rc_DeletedBySubject rc} \<and>
   sorted_wrt (\<lambda>a b. rc_DeletedAt a \<ge> rc_DeletedAt b) (visible_receipts pr rcs) \<and>
   (\<forall>a \<in> {rc \<in> set rcs. pr = rc_OwnerSubject rc \<or> pr = rc_DeletedBySubject rc} - set (visible_receipts pr rcs).
      length (visible_receipts pr rcs) = 100 \<and> (\<forall>b \<in> set (visible_receipts pr rcs). rc_DeletedAt a \<le> rc_DeletedAt b))"
proof -
  let ?vis = "filter (\<lambda>rc. pr = rc_OwnerSubject rc \<or> pr = rc_DeletedBySubject rc) rcs"
  let ?all = "sort_key (\<lambda>rc. - rc_DeletedAt rc) ?vis"
  have v: "visible_receipts pr rcs = take 100 ?all" by (simp add: visible_receipts_def)
  have s: "sorted_wrt (\<lambda>a b. rc_DeletedAt a \<ge> rc_DeletedAt b) (take 100 ?all)"
    "\<And>a b. b \<in> set (take 100 ?all) \<Longrightarrow> a \<in> set (drop 100 ?all) \<Longrightarrow> rc_DeletedAt a \<le> rc_DeletedAt b"
    using sort_key_desc [of rc_DeletedAt ?vis] sorted_wrt_append [of "\<lambda>a b. rc_DeletedAt a \<ge> rc_DeletedAt b" "take 100 ?all" "drop 100 ?all"]
    by simp_all
  have rest: "a \<in> set (drop 100 ?all)" if "a \<in> set ?vis" "a \<notin> set (take 100 ?all)" for a
  proof -
    have "a \<in> set (take 100 ?all @ drop 100 ?all)" using that(1) by (simp only: append_take_drop_id set_sort)
    then show ?thesis using that(2) unfolding set_append by blast
  qed
  have full: "length (take 100 ?all) = 100" if "a \<in> set (drop 100 ?all)" for a
    using that by (cases "drop 100 ?all = []") auto
  have "set (take 100 ?all) \<subseteq> set ?vis" using set_take_subset [of 100 ?all] by simp
  then have "set (take 100 ?all) \<subseteq> {rc \<in> set rcs. pr = rc_OwnerSubject rc \<or> pr = rc_DeletedBySubject rc}" by simp
  moreover have "\<forall>a \<in> {rc \<in> set rcs. pr = rc_OwnerSubject rc \<or> pr = rc_DeletedBySubject rc} - set (take 100 ?all).
      length (take 100 ?all) = 100 \<and> (\<forall>b \<in> set (take 100 ?all). rc_DeletedAt a \<le> rc_DeletedAt b)"
  proof
    fix a assume "a \<in> {rc \<in> set rcs. pr = rc_OwnerSubject rc \<or> pr = rc_DeletedBySubject rc} - set (take 100 ?all)"
    then have "a \<in> set ?vis" "a \<notin> set (take 100 ?all)" by auto
    from rest [OF this] show "length (take 100 ?all) = 100 \<and> (\<forall>b \<in> set (take 100 ?all). rc_DeletedAt a \<le> rc_DeletedAt b)"
      using full s(2) by blast
  qed
  ultimately show ?thesis using s(1) unfolding v by simp
qed

theorem receipts_page_newest_witness:
  "visible_receipts ''host'' [demo_receipt] = [demo_receipt] \<and>
   set (visible_receipts ''mallory'' [demo_receipt]) \<subseteq> {}"
  using receipts_page_newest [of "''mallory''" "[demo_receipt]"] by (simp add: visible_receipts_def demo_receipt_def)

end
