(* ===== verification/Session_Facts.thy ===== *)
theory Session_Facts
  imports Recovery_Facts Frames
begin

text \<open>
  What the guest's methods do when they run alone: which slot a join takes and when it is
  refused, and what a renewal changes.
\<close>

section \<open>Admission\<close>

text \<open>The slot number \<open>i\<close> of the event is taken at time \<open>now\<close>.\<close>

definition taken :: "memory \<Rightarrow> string \<Rightarrow> time \<Rightarrow> int \<Rightarrow> bool" where
  "taken m eid now i \<longleftrightarrow> (\<exists>en sl. mem_at m (slotKey eid i) = Some en \<and> en_Value en = VSlot sl \<and> occupied sl now)"

lemma run_start_taken:
  assumes "taken (w_mem w) (ev_ID ev) now i" "w_rand w (w_rands w) = Inr bs"
  shows "run (start_loop s ev now (Suc n) i) w =
    run (start_loop s ev now n (i + 1)) (w\<lparr>w_rands := w_rands w + 1, w_uuids := w_uuids w + 1\<rparr>)"
  using assms by (auto simp: taken_def randomSecret_def Let_def run_simps run_loadSlot)

lemma run_start_all_taken:
  assumes "\<forall>i. i0 \<le> i \<and> i < i0 + int n \<longrightarrow> taken (w_mem w) (ev_ID ev) now i" "\<forall>j. \<exists>bs. w_rand w j = Inr bs"
  shows "run (start_loop s ev now (n + k) i0) w =
    run (start_loop s ev now k (i0 + int n)) (w\<lparr>w_rands := w_rands w + n, w_uuids := w_uuids w + n\<rparr>)"
  using assms(1,2)
proof (induction n arbitrary: i0 w)
  case (Suc n)
  from Suc.prems(2) obtain bs where bs: "w_rand w (w_rands w) = Inr bs" by blast
  have t: "taken (w_mem w) (ev_ID ev) now i0" using Suc.prems(1) by simp
  let ?w = "w\<lparr>w_rands := w_rands w + 1, w_uuids := w_uuids w + 1\<rparr>"
  have "run (start_loop s ev now (n + k) (i0 + 1)) ?w =
    run (start_loop s ev now k (i0 + 1 + int n)) (?w\<lparr>w_rands := w_rands ?w + n, w_uuids := w_uuids ?w + n\<rparr>)"
    by (rule Suc.IH) (use Suc.prems in auto)
  then show ?case using run_start_taken [OF t bs, of s "n + k"] by (simp add: algebra_simps)
qed simp

lemma run_admit:
  assumes "mem_at (w_mem w) (eventKey (ev_ID ev)) = Some \<lparr>en_Value = VEvent cur, en_Revision = n\<rparr>"
    and "ev_State cur = Open" "sl_Number sl \<le> ev_Capacity cur"
    and "mem_at (w_mem w) (sessionKey (sl_ResumeDigest sl)) = None"
  shows "run (admit s ev sl secret rv nxt) w =
    run (mint s ev sl secret) (w\<lparr>w_mem := put (w_mem w) (sessionKey (sl_ResumeDigest sl))
      (VIndex \<lparr>ix_Deleted = False, ix_EventID = ev_ID ev, ix_Slot = sl_Number sl\<rparr>)\<rparr>)"
  using assms by (simp add: admit_def Let_def run_simps)

lemma run_mint:
  assumes "\<And>q. \<exists>token. w_signer w q = Inr token"
  shows "\<exists>ses w'. run (mint s ev sl secret) w = (Inr ses, w') \<and> w_mem w' = w_mem w \<and> w_cleanups w' = w_cleanups w \<and>
    ss_Slot ses = sl_Number sl \<and> ss_Subject ses = sl_Subject sl \<and> ss_EventID ses = ev_ID ev \<and> ss_ResumeSecret ses = secret \<and>
    ss_LeaseExpiresAt ses = sl_LeaseExpiresAt sl \<and> ss_GraceExpiresAt ses = sl_GraceExpiresAt sl"
proof -
  let ?q = "\<lparr>jc_Issuer = is_issuerURL (sv_issuer s), jc_Subject = sl_Subject sl, jc_Audience = [is_audience (sv_issuer s)],
    jc_ID = w_uuid w (w_uuids w), jc_IssuedAt = w_clock w (w_ticks w), jc_Expiry = time_add (w_clock w (w_ticks w)) (is_ttl (sv_issuer s)),
    jc_Guest = True, jc_Name = ''Demo User '' @ itoa (sl_Number sl), jc_Username = ''demo-user-'' @ itoa (sl_Number sl),
    jc_ApplicationID = ev_ApplicationID ev, jc_EventID = ev_ID ev, jc_Slot = sl_Number sl\<rparr>"
  from assms [of ?q] obtain token where "w_signer w ?q = Inr token" by blast
  then show ?thesis by (simp add: mint_def Mint_def Let_def)
qed

lemma run_StartSession:
  assumes "sv_maxCapacity s \<noteq> 0"
    and "mem_at (w_mem w) (invitationKey (digest s link)) = Some \<lparr>en_Value = VText eid, en_Revision = r\<rparr>"
    and "mem_at (w_mem w) (eventKey eid) = Some \<lparr>en_Value = VEvent ev, en_Revision = n\<rparr>"
    and "ev_State ev = Open" "ev_Capacity ev \<noteq> 0"
  shows "run (StartSession s link) w =
    run (start_loop s ev (w_clock w (w_ticks w)) (nat (ev_Capacity ev)) 1) (w\<lparr>w_ticks := w_ticks w + 1\<rparr>)"
  using assms by (simp add: StartSession_def run_simps)

lemma join_free:
  assumes "sv_maxCapacity s \<noteq> 0"
    and "mem_at (w_mem w) (invitationKey (digest s link)) = Some \<lparr>en_Value = VText eid, en_Revision = r\<rparr>"
    and "mem_at (w_mem w) (eventKey eid) = Some \<lparr>en_Value = VEvent ev, en_Revision = n\<rparr>"
    and "ev_ID ev = eid" "ev_State ev = Open" and "1 \<le> j" "j \<le> ev_Capacity ev"
    and "\<forall>i. 1 \<le> i \<and> i < j \<longrightarrow> taken (w_mem w) eid (w_clock w (w_ticks w)) i"
    and "mem_at (w_mem w) (slotKey eid j) = None" and "\<forall>j. \<exists>bs. w_rand w j = Inr bs"
    and "\<forall>i bs. w_rand w i = Inr bs \<longrightarrow> mem_at (w_mem w) (sessionKey (digest s (b64url bs))) = None"
    and "\<And>q. \<exists>token. w_signer w q = Inr token"
  shows "\<exists>ses sl w' a b. run (StartSession s link) w = (Inr ses, w') \<and> ss_Slot ses = j \<and> ss_EventID ses = eid \<and>
    ss_Subject ses = sl_Subject sl \<and> sl_Subject sl = ''guest:'' @ eid @ '':'' @ sl_Generation sl \<and>
    digest s (ss_ResumeSecret ses) = sl_ResumeDigest sl \<and> sl_Generation sl = w_uuid w (w_uuids w + nat (j - 1)) \<and> sl_EventID sl = eid \<and> sl_Number sl = j \<and> sl_Cleanup sl = None \<and>
    sl_GraceExpiresAt sl = time_add (w_clock w (w_ticks w)) (sv_leaseTTL s + sv_gracePeriod s) \<and>
    mem_at (w_mem w') = (mem_at (w_mem w))(slotKey eid j \<mapsto> \<lparr>en_Value = VSlot sl, en_Revision = a\<rparr>,
      sessionKey (sl_ResumeDigest sl) \<mapsto> \<lparr>en_Value = VIndex \<lparr>ix_Deleted = False, ix_EventID = eid, ix_Slot = j\<rparr>, en_Revision = b\<rparr>)"
proof -
  let ?now = "w_clock w (w_ticks w)" and ?n = "nat (j - 1)"
  let ?w = "w\<lparr>w_ticks := w_ticks w + 1, w_rands := w_rands w + ?n, w_uuids := w_uuids w + ?n\<rparr>"
  from assms(10) obtain bs where bs: "w_rand w (w_rands w + ?n) = Inr bs" by blast
  let ?g = "w_uuid w (w_uuids w + ?n)"
  let ?sl = "new_slot s ev j ?g (b64url bs) ?now"
  let ?v = "\<lparr>ix_Deleted = False, ix_EventID = eid, ix_Slot = j\<rparr>"
  have sel: "sl_Number ?sl = j" "sl_EventID ?sl = eid" "sl_Subject ?sl = ''guest:'' @ eid @ '':'' @ ?g" "sl_ResumeDigest ?sl = digest s (b64url bs)" "sl_Generation ?sl = ?g" "sl_Cleanup ?sl = None"
    "sl_GraceExpiresAt ?sl = time_add ?now (sv_leaseTTL s + sv_gracePeriod s)"
    using assms(4) by (simp_all add: new_slot_def)
  have cap: "nat (ev_Capacity ev) = ?n + Suc (nat (ev_Capacity ev - j))" using assms(6,7) by linarith
  have "run (StartSession s link) w = run (start_loop s ev ?now (Suc (nat (ev_Capacity ev - j))) j) ?w"
    using run_StartSession [OF assms(1-3,5)] run_start_all_taken [of 1 ?n "w\<lparr>w_ticks := w_ticks w + 1\<rparr>" ev ?now s "Suc (nat (ev_Capacity ev - j))"] assms(4,6-8,10)
    by (simp add: cap del: start_loop.simps)
  also have "\<dots> = run (admit s ev ?sl (b64url bs) (me_revision (w_mem w) + 1) (start_loop s ev ?now (nat (ev_Capacity ev - j)) (j + 1)))
      (?w\<lparr>w_rands := w_rands ?w + 1, w_uuids := w_uuids ?w + 1, w_mem := put (w_mem w) (slotKey eid j) (VSlot ?sl)\<rparr>)" (is "_ = run _ ?w2")
    using assms(4,9) bs by (simp add: randomSecret_def Let_def run_simps)
  also have "\<dots> = run (mint s ev ?sl (b64url bs)) (?w2\<lparr>w_mem := put (w_mem ?w2) (sessionKey (sl_ResumeDigest ?sl)) (VIndex ?v)\<rparr>)" (is "_ = run _ ?w3")
    using assms(3,4,5,7,11) bs by (subst run_admit) (auto simp: sel)
  finally have r: "run (StartSession s link) w = run (mint s ev ?sl (b64url bs)) ?w3" .
  have "\<And>q. \<exists>token. w_signer ?w3 q = Inr token" using assms(12) by simp
  from run_mint [OF this, of s ev ?sl "b64url bs"] obtain ses w' where m: "run (mint s ev ?sl (b64url bs)) ?w3 = (Inr ses, w')"
    "w_mem w' = w_mem ?w3" "ss_Slot ses = j" "ss_Subject ses = sl_Subject ?sl" "ss_EventID ses = eid" "ss_ResumeSecret ses = b64url bs"
    using assms(4) sel(1) by auto
  show ?thesis using r m sel by (intro exI [of _ ses] exI [of _ ?sl] exI [of _ w']) (auto simp: fun_eq_iff)
qed

text \<open>
  C12: a join takes the lowest free slot. When an open event's slots below number \<open>j\<close> are taken
  and number \<open>j\<close>, within the capacity, has none, the guest gets slot \<open>j\<close>, and its subject is the
  event's id with the next fresh UUID, the slot's generation; the store gains that slot and its session index and nothing else changes.
\<close>

theorem join_takes_lowest_free:
  assumes "sv_maxCapacity s \<noteq> 0"
    and "mem_at (w_mem w) (invitationKey (digest s link)) = Some \<lparr>en_Value = VText eid, en_Revision = r\<rparr>"
    and "mem_at (w_mem w) (eventKey eid) = Some \<lparr>en_Value = VEvent ev, en_Revision = n\<rparr>"
    and "ev_ID ev = eid" "ev_State ev = Open" and "1 \<le> j" "j \<le> ev_Capacity ev"
    and "\<forall>i. 1 \<le> i \<and> i < j \<longrightarrow> taken (w_mem w) eid (w_clock w (w_ticks w)) i"
    and "mem_at (w_mem w) (slotKey eid j) = None" and "\<forall>j. \<exists>bs. w_rand w j = Inr bs"
    and "\<forall>i bs. w_rand w i = Inr bs \<longrightarrow> mem_at (w_mem w) (sessionKey (digest s (b64url bs))) = None"
    and "\<And>q. \<exists>token. w_signer w q = Inr token"
  shows "\<exists>ses sl w' a b. run (StartSession s link) w = (Inr ses, w') \<and> ss_Slot ses = j \<and> ss_EventID ses = eid \<and>
    ss_Subject ses = sl_Subject sl \<and> sl_Subject sl = ''guest:'' @ eid @ '':'' @ sl_Generation sl \<and>
    digest s (ss_ResumeSecret ses) = sl_ResumeDigest sl \<and> sl_Generation sl = w_uuid w (w_uuids w + nat (j - 1)) \<and> sl_EventID sl = eid \<and> sl_Number sl = j \<and> sl_Cleanup sl = None \<and>
    mem_at (w_mem w') = (mem_at (w_mem w))(slotKey eid j \<mapsto> \<lparr>en_Value = VSlot sl, en_Revision = a\<rparr>,
      sessionKey (sl_ResumeDigest sl) \<mapsto> \<lparr>en_Value = VIndex \<lparr>ix_Deleted = False, ix_EventID = eid, ix_Slot = j\<rparr>, en_Revision = b\<rparr>)"
proof -
  from join_free [OF assms] show ?thesis by (elim exE conjE) (intro exI conjI, assumption+)
qed

definition join_world :: world where
  "join_world = opened_world\<lparr>w_rand := (\<lambda>n. Inr (demo_bytes n))\<rparr>"

lemma join_at:
  "mem_at (w_mem join_world) (invitationKey (digest demo_service (b64url (demo_bytes 0)))) = Some \<lparr>en_Value = VText (demo_uuid 0), en_Revision = 2\<rparr>"
  "mem_at (w_mem join_world) (eventKey (demo_uuid 0)) = Some \<lparr>en_Value = VEvent opened_event, en_Revision = 3\<rparr>"
  "mem_at (w_mem join_world) (slotKey (demo_uuid 0) 1) = None" "mem_at (w_mem join_world) (sessionKey d) = None"
  by (simp_all add: join_world_def opened_world_def mem_at_def)

theorem join_takes_lowest_free_witness:
  "\<exists>ses w'. run (StartSession demo_service (b64url (demo_bytes 0))) join_world = (Inr ses, w') \<and> ss_Slot ses = 1 \<and>
     mem_at (w_mem w') (slotKey (demo_uuid 0) 1) \<noteq> None"
proof -
  have "\<exists>token. w_signer join_world q = Inr token" for q
    by (simp add: join_world_def opened_world_def created_world_def demo_world_def)
  moreover have "\<forall>j. \<exists>bs. w_rand join_world j = Inr bs" by (simp add: join_world_def)
  ultimately show ?thesis
    using join_takes_lowest_free [OF _ join_at(1,2), of 1] join_at(3,4) by fastforce
qed



section \<open>Renewal\<close>

text \<open>What a resume digest must find in the store for its session to be renewed at time \<open>now\<close>.\<close>

definition renewable :: "memory \<Rightarrow> string \<Rightarrow> time \<Rightarrow> session_index \<Rightarrow> event \<Rightarrow> slot \<Rightarrow> bool" where
  "renewable m d now ix ev sl \<longleftrightarrow>
     (\<exists>i j k. mem_at m (sessionKey d) = Some \<lparr>en_Value = VIndex ix, en_Revision = i\<rparr> \<and> \<not> ix_Deleted ix \<and>
        mem_at m (eventKey (ix_EventID ix)) = Some \<lparr>en_Value = VEvent ev, en_Revision = j\<rparr> \<and> ev_State ev = Open \<and>
        mem_at m (slotKey (ix_EventID ix) (ix_Slot ix)) = Some \<lparr>en_Value = VSlot sl, en_Revision = k\<rparr> \<and>
        sl_ResumeDigest sl = d \<and> sl_Cleanup sl = None \<and> (sl_Reserved sl \<or> now < sl_GraceExpiresAt sl))"

lemma run_renew_ok:
  assumes "renewable (w_mem w) (digest s secret) (w_clock w (w_ticks w)) ix ev sl"
  shows "run (renewLease s secret) w = (Inr (ev, renewed s sl (w_clock w (w_ticks w))),
    w\<lparr>w_ticks := w_ticks w + 1, w_mem := put (w_mem w) (slotKey (ix_EventID ix) (ix_Slot ix)) (VSlot (renewed s sl (w_clock w (w_ticks w))))\<rparr>)"
proof -
  from assms obtain i j k where at: "mem_at (w_mem w) (sessionKey (digest s secret)) = Some \<lparr>en_Value = VIndex ix, en_Revision = i\<rparr>"
    "mem_at (w_mem w) (eventKey (ix_EventID ix)) = Some \<lparr>en_Value = VEvent ev, en_Revision = j\<rparr>"
    "mem_at (w_mem w) (slotKey (ix_EventID ix) (ix_Slot ix)) = Some \<lparr>en_Value = VSlot sl, en_Revision = k\<rparr>"
    and ok: "\<not> ix_Deleted ix" "ev_State ev = Open" "sl_ResumeDigest sl = digest s secret" "sl_Cleanup sl = None"
      "sl_Reserved sl \<or> w_clock w (w_ticks w) < sl_GraceExpiresAt sl"
    unfolding renewable_def by blast
  have "mem_update (w_mem w) (slotKey (ix_EventID ix) (ix_Slot ix)) v k = (Inr (me_revision (w_mem w) + 1), put (w_mem w) (slotKey (ix_EventID ix) (ix_Slot ix)) v)" for v
    using mem_update_at(1) [OF at(3), of k] by simp
  moreover have "run (loadEvent (ix_EventID ix)) w = (Inr (ev, j), w)" "run (loadSlot (ix_EventID ix) (ix_Slot ix)) w = (Inr (sl, k), w)"
    by (rule run_load(1) [OF at(2)], rule run_load(3) [OF at(3)])
  ultimately show ?thesis
    using at(1) ok by (simp add: renewLease_def numeral_eq_Suc mem_get_at Let_def before_def)
qed

lemma entry_with: "en_Value en = v \<Longrightarrow> \<exists>i. en = \<lparr>en_Value = v, en_Revision = i\<rparr>"
  by (cases en) simp

lemma run_renew_refused:
  assumes "\<And>ix ev sl. \<not> renewable (w_mem w) (digest s secret) (w_clock w (w_ticks w)) ix ev sl"
  shows "\<exists>e t. run (renewLease s secret) w = (Inl e, w\<lparr>w_ticks := t\<rparr>)"
proof (cases "mem_at (w_mem w) (sessionKey (digest s secret))")
  case None
  then have "run (renewLease s secret) w = (Inl ErrSessionExpired, w\<lparr>w_ticks := w_ticks w\<rparr>)" by (simp add: renewLease_def mem_get_at Let_def)
  then show ?thesis by blast
next
  case (Some en)
  have same: "w = w\<lparr>w_ticks := w_ticks w\<rparr>" by simp
  show ?thesis
  proof (cases "\<exists>ix. en_Value en = VIndex ix \<and> \<not> ix_Deleted ix")
    case False
    then have "\<exists>e. run (renewLease s secret) w = (Inl e, w)"
      using Some by (auto simp: renewLease_def mem_get_at Let_def decode_index_def split: val.splits)
    then show ?thesis using same by metis
  next
    case True
    then obtain ix where ix: "en_Value en = VIndex ix" "\<not> ix_Deleted ix" by blast
    have r: "run (renewLease s secret) w = run (renewLease_loop s 5 (digest s secret) ix) w"
      using Some ix by (simp add: renewLease_def mem_get_at Let_def)
    show ?thesis
    proof (cases "\<exists>ev n. run (loadEvent (ix_EventID ix)) w = (Inr (ev, n), w) \<and> ev_State ev = Open")
      case False
      then have "\<exists>e. run (renewLease_loop s 5 (digest s secret) ix) w = (Inl e, w)"
        by (auto simp: numeral_eq_Suc run_loadEvent split: option.splits sum.splits)
      then show ?thesis using same r by metis
    next
      case True
      then obtain ev n where ev: "run (loadEvent (ix_EventID ix)) w = (Inr (ev, n), w)" "ev_State ev = Open" by blast
      show ?thesis
      proof (cases "\<exists>sl m. run (loadSlot (ix_EventID ix) (ix_Slot ix)) w = (Inr (sl, m), w) \<and> sl_ResumeDigest sl = digest s secret")
        case False
        then have "\<exists>e. run (renewLease_loop s 5 (digest s secret) ix) w = (Inl e, w)"
          using ev by (auto simp: numeral_eq_Suc run_loadSlot split: option.splits sum.splits)
        then show ?thesis using same r by metis
      next
        case True
        then obtain sl m where sl: "run (loadSlot (ix_EventID ix) (ix_Slot ix)) w = (Inr (sl, m), w)" "sl_ResumeDigest sl = digest s secret" by blast
        have "renewable (w_mem w) (digest s secret) (w_clock w (w_ticks w)) ix ev sl"
          if "sl_Cleanup sl = None" "sl_Reserved sl \<or> w_clock w (w_ticks w) < sl_GraceExpiresAt sl"
          unfolding renewable_def using Some ix ev sl that
          by (auto simp: run_loadEvent run_loadSlot split: option.splits sum.splits intro: entry_with)
        with assms have "sl_Cleanup sl \<noteq> None \<or> (\<not> sl_Reserved sl \<and> \<not> before (w_clock w (w_ticks w)) (sl_GraceExpiresAt sl))"
          unfolding before_def by blast
        then have "run (renewLease_loop s 5 (digest s secret) ix) w = (Inl ErrSessionExpired, w\<lparr>w_ticks := w_ticks w + 1\<rparr>)"
          using ev sl by (simp add: numeral_eq_Suc)
        then show ?thesis unfolding r by blast
      qed
    qed
  qed
qed

text \<open>
  C10: a heartbeat either renews one lease or does nothing. It succeeds exactly when the secret's
  digest leads through a live index to a slot of an open event that has this digest, is not
  being cleaned up, and is reserved or within its grace period; the lease then ends a lease
  period from now and the grace period after it, the reservation is lifted, and only that slot
  is written. In every other case an error is returned and the store is what it was.
\<close>

theorem heartbeat_exact:
  "case run (HeartbeatSession s secret) w of
     (Inr t, w') \<Rightarrow> t = w_clock w (w_ticks w) + sint (sv_leaseTTL s) \<and>
       (\<exists>ix ev sl r. renewable (w_mem w) (digest s secret) (w_clock w (w_ticks w)) ix ev sl \<and>
          mem_at (w_mem w') = (mem_at (w_mem w))(slotKey (ix_EventID ix) (ix_Slot ix) \<mapsto>
            \<lparr>en_Value = VSlot (sl\<lparr>sl_LastSeenAt := w_clock w (w_ticks w), sl_Reserved := False, sl_LeaseExpiresAt := t,
               sl_GraceExpiresAt := t + sint (sv_gracePeriod s)\<rparr>), en_Revision = r\<rparr>))
   | (Inl e, w') \<Rightarrow> w_mem w' = w_mem w \<and> \<not> (\<exists>ix ev sl. renewable (w_mem w) (digest s secret) (w_clock w (w_ticks w)) ix ev sl)"
proof (cases "\<exists>ix ev sl. renewable (w_mem w) (digest s secret) (w_clock w (w_ticks w)) ix ev sl")
  case False
  with run_renew_refused [of w s secret] obtain e t where "run (renewLease s secret) w = (Inl e, w\<lparr>w_ticks := t\<rparr>)" by blast
  with False show ?thesis by (simp add: HeartbeatSession_def)
next
  case True
  then obtain ix ev sl where ok: "renewable (w_mem w) (digest s secret) (w_clock w (w_ticks w)) ix ev sl" by blast
  from run_renew_ok [OF this] ok show ?thesis
    by (auto simp: HeartbeatSession_def renewed_def Let_def time_add_def intro!: exI [of _ ix] exI [of _ ev] exI [of _ sl])
qed

section \<open>Reclaiming a slot\<close>

lemma run_start_free:
  assumes "mem_at (w_mem w) (eventKey (ev_ID ev)) = Some \<lparr>en_Value = VEvent cur, en_Revision = n\<rparr>"
    and "ev_State cur = Open" "sl_Number sl \<le> ev_Capacity cur"
    and "mem_at (w_mem w) (slotKey (ev_ID ev) (sl_Number sl)) = None"
    and "mem_at (w_mem w) (sessionKey (sl_ResumeDigest sl)) = None"
    and "\<And>q. \<exists>token. w_signer w q = Inr token"
  shows "\<exists>ses w' a b. run (DoCreate (slotKey (ev_ID ev) (sl_Number sl)) (VSlot sl) (\<lambda>r. case r of Inr rv \<Rightarrow> admit s ev sl secret rv nxt | Inl e \<Rightarrow> f e)) w = (Inr ses, w') \<and>
    ss_Slot ses = sl_Number sl \<and> ss_Subject ses = sl_Subject sl \<and> ss_EventID ses = ev_ID ev \<and> ss_ResumeSecret ses = secret \<and>
    w_cleanups w' = w_cleanups w \<and>
    mem_at (w_mem w') = (mem_at (w_mem w))(slotKey (ev_ID ev) (sl_Number sl) \<mapsto> \<lparr>en_Value = VSlot sl, en_Revision = a\<rparr>,
      sessionKey (sl_ResumeDigest sl) \<mapsto> \<lparr>en_Value = VIndex \<lparr>ix_Deleted = False, ix_EventID = ev_ID ev, ix_Slot = sl_Number sl\<rparr>, en_Revision = b\<rparr>)"
proof -
  let ?w = "w\<lparr>w_mem := put (w_mem w) (slotKey (ev_ID ev) (sl_Number sl)) (VSlot sl)\<rparr>"
  let ?w2 = "?w\<lparr>w_mem := put (w_mem ?w) (sessionKey (sl_ResumeDigest sl)) (VIndex \<lparr>ix_Deleted = False, ix_EventID = ev_ID ev, ix_Slot = sl_Number sl\<rparr>)\<rparr>"
  have "run (admit s ev sl secret (me_revision (w_mem w) + 1) nxt) ?w = run (mint s ev sl secret) ?w2"
    using run_admit [of ?w ev cur n sl s secret "me_revision (w_mem w) + 1" nxt] assms(1-3,5) by simp
  moreover have "\<And>q. \<exists>token. w_signer ?w2 q = Inr token" using assms(6) by simp
  from run_mint [OF this, of s ev sl secret] obtain ses w' where "run (mint s ev sl secret) ?w2 = (Inr ses, w')" "w_mem w' = w_mem ?w2" "w_cleanups w' = w_cleanups w"
    "ss_Slot ses = sl_Number sl" "ss_Subject ses = sl_Subject sl" "ss_EventID ses = ev_ID ev" "ss_ResumeSecret ses = secret" by auto
  ultimately show ?thesis using mem_create_at(1) [OF assms(4)] by (auto simp: fun_eq_iff)
qed

text \<open>The slot of number \<open>j\<close> is \<open>old\<close>, whatever its cleanup, and the slots above are at their numbers.\<close>

definition numbered_above :: "(string \<Rightarrow> entry option) \<Rightarrow> string \<Rightarrow> int \<Rightarrow> bool" where
  "numbered_above at eid j \<longleftrightarrow> (\<forall>k en sl. j < k \<longrightarrow> at (slotKey eid k) = Some en \<longrightarrow> en_Value en = VSlot sl \<longrightarrow> sl_Number sl = k)"

definition slot_stays :: "string \<Rightarrow> int \<Rightarrow> slot \<Rightarrow> memory \<Rightarrow> bool" where
  "slot_stays eid j old m \<longleftrightarrow>
     (\<exists>c r. mem_at m (slotKey eid j) = Some \<lparr>en_Value = VSlot (old\<lparr>sl_Cleanup := c\<rparr>), en_Revision = r\<rparr>) \<and>
     numbered_above (mem_at m) eid j"

lemma slot_stays_step:
  assumes "slot_stays eid j old m" "0 \<le> j"
    and "mem_at m' = mem_at m \<or> mem_at m' = (mem_at m)(k := x)"
    and "k \<in> range sessionKey \<or> (\<exists>i. j < i \<and> k = slotKey eid i \<and> (\<forall>en sl. x = Some en \<longrightarrow> en_Value en = VSlot sl \<longrightarrow> sl_Number sl = i))"
  shows "slot_stays eid j old m'"
  using assms(3)
proof
  assume "mem_at m' = mem_at m" then show ?thesis using assms(1) by (simp add: slot_stays_def)
next
  assume m': "mem_at m' = (mem_at m)(k := x)"
  have inj: "a = b" if "slotKey eid a = slotKey eid b" "j \<le> a" "j \<le> b" for a b
    using slotKey_inj [OF that(1)] that(2,3) assms(2) by simp
  have k: "k \<noteq> slotKey eid j"
    using assms(4) inj [of j] by (metis image_iff key_distinct less_irrefl order_less_imp_le order_refl)
  have "sl_Number sl = i" if i: "j < i" "mem_at m' (slotKey eid i) = Some en" "en_Value en = VSlot sl" for i en sl
  proof (cases "k = slotKey eid i")
    case False
    then have "mem_at m (slotKey eid i) = Some en" using i(2) by (simp add: m')
    then show ?thesis using assms(1) i(1,3) unfolding slot_stays_def numbered_above_def by blast
  next
    case True
    then have x: "x = Some en" using i(2) by (simp add: m')
    from assms(4) True have "\<exists>i'. j < i' \<and> slotKey eid i = slotKey eid i' \<and> (\<forall>en sl. x = Some en \<longrightarrow> en_Value en = VSlot sl \<longrightarrow> sl_Number sl = i')"
      by (metis image_iff key_distinct)
    then obtain i' where i': "j < i'" "slotKey eid i = slotKey eid i'" "\<forall>en sl. x = Some en \<longrightarrow> en_Value en = VSlot sl \<longrightarrow> sl_Number sl = i'" by blast
    from inj [OF i'(2)] i'(1) i(1) have "i = i'" by simp
    with i'(3) x i(3) show ?thesis by blast
  qed
  moreover have "\<exists>c r. mem_at m' (slotKey eid j) = Some \<lparr>en_Value = VSlot (old\<lparr>sl_Cleanup := c\<rparr>), en_Revision = r\<rparr>"
    using assms(1) k unfolding m' slot_stays_def by simp
  ultimately show ?thesis unfolding slot_stays_def numbered_above_def by blast
qed

lemma slot_stays_write:
  assumes "0 \<le> j" "j < i" "sl_Number sl = i" "slot_stays eid j old m"
  shows "slot_stays eid j old (snd (mem_create m (slotKey eid i) (VSlot sl)))" "slot_stays eid j old (snd (mem_update m (slotKey eid i) (VSlot sl) n))"
  by (rule slot_stays_step [OF assms(4,1) mem_after(1)] slot_stays_step [OF assms(4,1) mem_after(2)]; use assms(2,3) in auto)+

lemma slot_stays_erase:
  assumes "0 \<le> j" "j < i" "slot_stays eid j old m"
  shows "slot_stays eid j old (snd (mem_delete m (slotKey eid i)))" "slot_stays eid j old (snd (mem_delete_revision m (slotKey eid i) n))"
  by (rule slot_stays_step [OF assms(3,1) mem_after(3)] slot_stays_step [OF assms(3,1) mem_after(4)]; use assms(2) in auto)+

lemma slot_stays_session:
  assumes "0 \<le> j" "slot_stays eid j old m"
  shows "slot_stays eid j old (snd (mem_create m (sessionKey d) v))" "slot_stays eid j old (snd (mem_delete m (sessionKey d)))"
  by (rule slot_stays_step [OF assms(2,1) mem_after(1)] slot_stays_step [OF assms(2,1) mem_after(3)]; simp)+

lemmas slot_stays_ops = slot_stays_write slot_stays_erase slot_stays_session

lemma keeps_cleanSlot:
  assumes "0 \<le> j" "j < sl_Number sl" "ev_ID ev = eid"
  shows "keeps (slot_stays eid j old) (\<lambda>_. True) (cleanSlot s ev sl n)"
  using assms
  by (auto simp: cleanSlot_def erase_slot_def claimCleanup_def record_failure_def release_slot_def deleteIfExists_def Let_def
      intro!: keeps_steps keeps_tryp [where P = "\<lambda>_. True"] slot_stays_ops split: option.splits sum.splits)

lemma keeps_admit:
  assumes "0 \<le> j" "j < sl_Number sl" "ev_ID ev = eid" and "keeps (slot_stays eid j old) (\<lambda>r. \<forall>ses. r = Inr ses \<longrightarrow> j < ss_Slot ses) nxt"
  shows "keeps (slot_stays eid j old) (\<lambda>r. \<forall>ses. r = Inr ses \<longrightarrow> j < ss_Slot ses) (admit s ev sl secret rv nxt)"
  using assms
  by (auto simp: admit_def loadEvent_def mint_def Mint_def Let_def
      intro!: keeps_steps keeps_tryp [where P = "\<lambda>_. True"] keeps_bind [where P = "\<lambda>_. True"] slot_stays_ops split: option.splits sum.splits)

lemma keeps_start_loop:
  assumes "0 \<le> j" "j < i" "ev_ID ev = eid"
  shows "keeps (slot_stays eid j old) (\<lambda>r. \<forall>ses. r = Inr ses \<longrightarrow> j < ss_Slot ses) (start_loop s ev now n i)"
  using assms(2)
proof (induction n arbitrary: i)
  case (Suc n)
  let ?J = "slot_stays eid j old" and ?Q = "\<lambda>r. \<forall>ses. r = Inr ses \<longrightarrow> j < ss_Slot ses"
  have nxt: "keeps ?J ?Q (start_loop s ev now n (i' + 1))" if "j < i'" for i' using Suc.IH that by simp
  have adm: "keeps ?J ?Q (admit s ev (new_slot s ev i' g secret now) secret rv (start_loop s ev now n (i' + 1)))" if "j < i'" for i' g secret rv
    by (rule keeps_admit [OF assms(1) _ assms(3) nxt [OF that]]) (simp add: new_slot_def that)
  have clean: "keeps ?J ?Q (prog_bind (cleanSlot s ev sl r) f)" if "j < sl_Number sl" "\<And>x. keeps ?J ?Q (f x)" for sl r f
    by (rule keeps_bind [OF keeps_cleanSlot [OF assms(1) _ assms(3)]]) (use that in simp_all)
  have num: "sl_Number sl = i" if "?J m" "mem_get m (slotKey eid i) = Inr en" "en_Value en = VSlot sl" for m en sl
    using that Suc.prems unfolding slot_stays_def numbered_above_def
    by (auto simp: mem_get_def mem_at_def split: option.splits)
  have sl: "sl_Number (new_slot s ev i' g secret now) = i'" for i' g secret by (simp add: new_slot_def)
  have load: "keeps ?J (\<lambda>r. \<forall>sl n. r = Inr (sl, n) \<longrightarrow> sl_Number sl = i) (loadSlot eid i)"
    unfolding loadSlot_def by (auto intro!: keeps_steps dest: num split: sum.split)
  show ?case using Suc.prems
    by (auto simp: randomSecret_def Let_def assms(3)
        intro!: keeps_steps keeps_tryp [where P = "\<lambda>_. True"] keeps_bind [OF load] slot_stays_ops adm nxt clean sl assms(1) split: sum.split)
qed (simp add: keeps_steps)

lemma run_cleanSlot_refused:
  assumes "mem_at (w_mem w) (slotKey (ev_ID ev) (sl_Number sl)) = Some \<lparr>en_Value = VSlot sl, en_Revision = m\<rparr>"
    and "p = claim_base (sl_Cleanup sl) (w_uuid w (w_uuids w)) (w_clock w (w_ticks w))"
    and "\<not> (sv_cleaner s \<and> pg_NextAttemptAt p \<le> w_clock w (w_ticks w) \<and> w_cleaner w (slot_call ev sl p) = Inr 1)"
    and "numbered_above (mem_at (w_mem w)) (ev_ID ev) (sl_Number sl)" "0 \<le> sl_Number sl"
  shows "\<exists>e w'. run (cleanSlot s ev sl m) w = (Inl e, w') \<and> slot_stays (ev_ID ev) (sl_Number sl) sl (w_mem w')"
proof -
  have same: "slot_stays (ev_ID ev) (sl_Number sl) sl (w_mem w)"
    using assms(1,4) by (auto simp: slot_stays_def intro: exI [of _ "sl_Cleanup sl"])
  consider "\<not> sv_cleaner s" | "sv_cleaner s" "w_clock w (w_ticks w) < pg_NextAttemptAt p"
    | "sv_cleaner s" "\<not> before (w_clock w (w_ticks w)) (pg_NextAttemptAt p)" "w_cleaner w (slot_call ev sl p) \<noteq> Inr 1"
    using assms(3) unfolding before_def by force
  then show ?thesis
  proof cases
    case 1
    then show ?thesis using same by (simp add: cleanSlot_def)
  next
    case 2
    then show ?thesis using same by (auto simp: cleanSlot_def run_claimCleanup assms(2) [symmetric] claim_next_def before_def)
  next
    case 3
    from run_cleanSlot_failed [OF 3(1) assms(1) _ assms(2) 3(2,3)] obtain e w' r where run: "run (cleanSlot s ev sl m) w = (Inl e, w')"
      "mem_at (w_mem w') = (mem_at (w_mem w))(slotKey (ev_ID ev) (sl_Number sl) \<mapsto> \<lparr>en_Value = VSlot (sl\<lparr>sl_Cleanup :=
        Some (failed_attempt (claimed p (w_clock w (w_ticks w)) (sv_cleanupLease s)) (w_clock w (w_ticks w + 1)))\<rparr>), en_Revision = r\<rparr>)" by auto
    have "numbered_above (mem_at (w_mem w')) (ev_ID ev) (sl_Number sl)"
    proof (unfold numbered_above_def, intro allI impI)
      fix k en sl' assume k: "sl_Number sl < k" "mem_at (w_mem w') (slotKey (ev_ID ev) k) = Some en" "en_Value en = VSlot sl'"
      then have "slotKey (ev_ID ev) k \<noteq> slotKey (ev_ID ev) (sl_Number sl)" using slotKey_inj [of "ev_ID ev" k "ev_ID ev" "sl_Number sl"] assms(5) by auto
      with k(2) have "mem_at (w_mem w) (slotKey (ev_ID ev) k) = Some en" unfolding run(2) by simp
      with assms(4) k(1,3) show "sl_Number sl' = k" unfolding numbered_above_def by blast
    qed
    with run show ?thesis by (auto simp: slot_stays_def)
  qed
qed

text \<open>
  C11: an expired slot is given to a new guest only once its old guest is erased. Let the slots
  below number \<open>j\<close> of an open event be taken and number \<open>j\<close> be neither reserved nor within grace.
  If the claim on slot \<open>j\<close> is due and the application acknowledges the erasure of its guest, the
  join makes that one request, the old slot and session index are gone, and the new guest has
  slot \<open>j\<close> with a subject and digest of its own. In every other case, when the application does
  not acknowledge, another worker holds the claim or no application is configured, the join does
  not give slot \<open>j\<close>, and the store still has it with the old guest's subject and digest.
\<close>

theorem expired_slot_reclaimed:
  fixes w :: world and j :: int
  defines "now \<equiv> w_clock w (w_ticks w)" and "g \<equiv> w_uuids w + nat (j - 1)"
  assumes "sv_maxCapacity s \<noteq> 0"
    and "mem_at (w_mem w) (invitationKey (digest s link)) = Some \<lparr>en_Value = VText eid, en_Revision = r\<rparr>"
    and "mem_at (w_mem w) (eventKey eid) = Some \<lparr>en_Value = VEvent ev, en_Revision = n\<rparr>"
    and "ev_ID ev = eid" "ev_State ev = Open" "1 \<le> j" "j \<le> ev_Capacity ev"
    and "\<forall>i. 1 \<le> i \<and> i < j \<longrightarrow> taken (w_mem w) eid now i"
    and "mem_at (w_mem w) (slotKey eid j) = Some \<lparr>en_Value = VSlot old, en_Revision = m\<rparr>" "sl_Number old = j" "\<not> occupied old now"
    and "numbered_above (mem_at (w_mem w)) eid j"
    and "p = claim_base (sl_Cleanup old) (w_uuid w (g + 1)) (w_clock w (w_ticks w + 1))"
    and "\<forall>j. \<exists>bs. w_rand w j = Inr bs" and "w_rand w (w_rands w + nat (j - 1)) = Inr bs"
    and "mem_at (w_mem w) (sessionKey (digest s (b64url bs))) = None"
    and "\<And>q. \<exists>token. w_signer w q = Inr token"
  shows "if sv_cleaner s \<and> pg_NextAttemptAt p \<le> w_clock w (w_ticks w + 1) \<and> w_cleaner w (slot_call ev old p) = Inr 1
    then \<exists>ses sl w' a b. run (StartSession s link) w = (Inr ses, w') \<and> ss_Slot ses = j \<and> ss_Subject ses = sl_Subject sl \<and>
      sl_Subject sl = ''guest:'' @ eid @ '':'' @ w_uuid w g \<and> sl_Generation sl = w_uuid w g \<and> sl_ResumeDigest sl = digest s (b64url bs) \<and>
      w_cleanups w' = w_cleanups w @ [slot_call ev old p] \<and>
      mem_at (w_mem w') = (mem_at (w_mem w))(sessionKey (sl_ResumeDigest old) := None, slotKey eid j \<mapsto> \<lparr>en_Value = VSlot sl, en_Revision = a\<rparr>,
        sessionKey (sl_ResumeDigest sl) \<mapsto> \<lparr>en_Value = VIndex \<lparr>ix_Deleted = False, ix_EventID = eid, ix_Slot = j\<rparr>, en_Revision = b\<rparr>)
    else \<exists>res w' c a. run (StartSession s link) w = (res, w') \<and> (\<forall>ses. res = Inr ses \<longrightarrow> j < ss_Slot ses) \<and>
      mem_at (w_mem w') (slotKey eid j) = Some \<lparr>en_Value = VSlot (old\<lparr>sl_Cleanup := c\<rparr>), en_Revision = a\<rparr>"
proof -
  let ?k = "nat (j - 1)" and ?c = "nat (ev_Capacity ev - j)"
  let ?v = "w\<lparr>w_ticks := w_ticks w + 1\<rparr>"
  let ?u = "?v\<lparr>w_rands := w_rands w + ?k, w_uuids := g\<rparr>" and ?w = "?v\<lparr>w_rands := w_rands w + ?k + 1, w_uuids := g + 1\<rparr>"
  let ?sl = "new_slot s ev j (w_uuid w g) (b64url bs) now" and ?nxt = "start_loop s ev now ?c (j + 1)"
  let ?retry = "DoCreate (slotKey (ev_ID ev) (sl_Number ?sl)) (VSlot ?sl) (\<lambda>r. case r of Inr rv \<Rightarrow> admit s ev ?sl (b64url bs) rv ?nxt
      | Inl e \<Rightarrow> if errors_is e StoreExists then ?nxt else Ret (Inl e))"
  have sel: "sl_Number ?sl = j" "sl_ResumeDigest ?sl = digest s (b64url bs)" "sl_Generation ?sl = w_uuid w g"
    "sl_Subject ?sl = ''guest:'' @ eid @ '':'' @ w_uuid w g" using assms(6) by (simp_all add: new_slot_def)
  have cap: "nat (ev_Capacity ev) = ?k + Suc ?c" using assms(8,9) by linarith
  have "ev_Capacity ev \<noteq> 0" "int ?k = j - 1" using assms(8,9) by simp_all
  then have "run (StartSession s link) w = run (start_loop s ev now (?k + Suc ?c) 1) ?v"
    using run_StartSession [OF assms(3-5,7)] by (simp add: cap now_def del: start_loop.simps)
  also have "\<dots> = run (start_loop s ev now (Suc ?c) j) ?u"
    using run_start_all_taken [of 1 ?k ?v ev now s "Suc ?c"] assms(6,10,16) \<open>int ?k = j - 1\<close>
    by (simp add: g_def del: start_loop.simps)
  also have "\<dots> = (case run (cleanSlot s ev old m) ?w of (Inl e, w') \<Rightarrow> run ?nxt w' | (Inr _, w') \<Rightarrow> run ?retry w')"
    using assms(6,11-13,17) by (simp add: randomSecret_def Let_def mem_create_at run_loadSlot sel(1) split: sum.splits prod.splits)
  finally have run: "run (StartSession s link) w = (case run (cleanSlot s ev old m) ?w of (Inl e, w') \<Rightarrow> run ?nxt w' | (Inr _, w') \<Rightarrow> run ?retry w')" .
  have key: "mem_at (w_mem ?w) (slotKey (ev_ID ev) (sl_Number old)) = Some \<lparr>en_Value = VSlot old, en_Revision = m\<rparr>"
    using assms(6,11,12) by simp
  have p: "p = claim_base (sl_Cleanup old) (w_uuid ?w (w_uuids ?w)) (w_clock ?w (w_ticks ?w))" using assms(15) by simp
  show ?thesis
  proof (cases "sv_cleaner s \<and> pg_NextAttemptAt p \<le> w_clock w (w_ticks w + 1) \<and> w_cleaner w (slot_call ev old p) = Inr 1")
    case False
    then have no: "\<not> (sv_cleaner s \<and> pg_NextAttemptAt p \<le> w_clock ?w (w_ticks ?w) \<and> w_cleaner ?w (slot_call ev old p) = Inr 1)" by simp
    from run_cleanSlot_refused [OF key p no] obtain e w1 where w1: "run (cleanSlot s ev old m) ?w = (Inl e, w1)" "slot_stays eid j old (w_mem w1)"
      using assms(6,8,12,14) by auto
    obtain res w' where r: "run ?nxt w1 = (res, w')" by (cases "run ?nxt w1")
    have "(\<forall>ses. res = Inr ses \<longrightarrow> j < ss_Slot ses) \<and> slot_stays eid j old (w_mem w')"
      using keepsD [OF keeps_start_loop w1(2) r] assms(6,8) by simp
    with run w1(1) r show ?thesis unfolding if_not_P [OF False] slot_stays_def by auto
  next
    case True
    then have ok: "sv_cleaner s" "\<not> before (w_clock ?w (w_ticks ?w)) (pg_NextAttemptAt p)" "w_cleaner ?w (slot_call ev old p) = Inr 1"
      by (simp_all add: before_def)
    from run_cleanSlot_ok [OF ok(1) key _ p ok(2,3), of m] obtain w1 where w1: "run (cleanSlot s ev old m) ?w = (Inr (), w1)"
      "mem_at (w_mem w1) = (mem_at (w_mem w))(slotKey eid j := None, sessionKey (sl_ResumeDigest old) := None)"
      "w_cleanups w1 = w_cleanups w @ [slot_call ev old p]" using assms(6,12) by auto
    have "w_signer w1 = w_signer w" using run_frame(5) [of "cleanSlot s ev old m" ?w] unfolding w1(1) by simp
    then have at: "mem_at (w_mem w1) (eventKey (ev_ID ev)) = Some \<lparr>en_Value = VEvent ev, en_Revision = n\<rparr>"
      "mem_at (w_mem w1) (slotKey (ev_ID ev) (sl_Number ?sl)) = None" "mem_at (w_mem w1) (sessionKey (sl_ResumeDigest ?sl)) = None"
      "sl_Number ?sl \<le> ev_Capacity ev" "\<And>q. \<exists>token. w_signer w1 q = Inr token"
      using assms(5,6,9,18,19) w1(2) by (simp_all add: sel)
    from run_start_free [OF at(1) assms(7) at(4,2,3,5)] obtain ses w' a b where fin: "run ?retry w1 = (Inr ses, w')" "ss_Slot ses = j" "ss_Subject ses = sl_Subject ?sl"
      "w_cleanups w' = w_cleanups w1"
      "mem_at (w_mem w') = (mem_at (w_mem w1))(slotKey (ev_ID ev) (sl_Number ?sl) \<mapsto> \<lparr>en_Value = VSlot ?sl, en_Revision = a\<rparr>,
        sessionKey (sl_ResumeDigest ?sl) \<mapsto> \<lparr>en_Value = VIndex \<lparr>ix_Deleted = False, ix_EventID = ev_ID ev, ix_Slot = sl_Number ?sl\<rparr>, en_Revision = b\<rparr>)"
      unfolding sel(1) by blast
    have "mem_at (w_mem w') = (mem_at (w_mem w))(sessionKey (sl_ResumeDigest old) := None, slotKey eid j \<mapsto> \<lparr>en_Value = VSlot ?sl, en_Revision = a\<rparr>,
        sessionKey (sl_ResumeDigest ?sl) \<mapsto> \<lparr>en_Value = VIndex \<lparr>ix_Deleted = False, ix_EventID = eid, ix_Slot = j\<rparr>, en_Revision = b\<rparr>)"
      unfolding fin(5) w1(2) sel(1) assms(6) by (simp add: fun_eq_iff)
    then show ?thesis unfolding if_P [OF True] using run w1(1,3) fin(1-4) sel
      by (intro exI [of _ ses] exI [of _ ?sl] exI [of _ w'] exI [of _ a] exI [of _ b]) simp
  qed
qed

definition expired_world :: world where
  "expired_world = joined_world\<lparr>w_clock := (\<lambda>_. 1000000000000000), w_rand := (\<lambda>n. Inr (demo_bytes n))\<rparr>"

lemma expired_at:
  "mem_at (w_mem expired_world) (invitationKey (digest demo_service (b64url (demo_bytes 0)))) = Some \<lparr>en_Value = VText (demo_uuid 0), en_Revision = 2\<rparr>"
  "mem_at (w_mem expired_world) (eventKey (demo_uuid 0)) = Some \<lparr>en_Value = VEvent opened_event, en_Revision = 3\<rparr>"
  "mem_at (w_mem expired_world) (slotKey (demo_uuid 0) 1) = Some \<lparr>en_Value = VSlot joined_slot, en_Revision = 4\<rparr>"
  "mem_at (w_mem expired_world) (sessionKey (digest demo_service (b64url (demo_bytes 2)))) = None"
  by (simp_all add: expired_world_def joined_world_def mem_at_def)

lemma expired_numbered: "numbered_above (mem_at (w_mem expired_world)) (demo_uuid 0) 1"
proof -
  have "slotKey (demo_uuid 0) k \<noteq> slotKey (demo_uuid 0) 1" if "1 < k" for k
    using slotKey_inj [of "demo_uuid 0" k "demo_uuid 0" 1] that by auto
  then show ?thesis by (auto simp: numbered_above_def expired_world_def joined_world_def mem_at_def split: if_splits)
qed

text \<open>With an application that acknowledges the join gets the slot, with one that does not it gets none.\<close>

theorem expired_slot_reclaimed_witness:
  "(\<exists>ses w' (q :: cleanup_call). run (StartSession demo_service (b64url (demo_bytes 0))) expired_world = (Inr ses, w') \<and> ss_Slot ses = 1 \<and>
     w_cleanups w' = [q] \<and> mem_at (w_mem w') (sessionKey ''42'') = None) \<and>
   (\<exists>res w' c a. run (StartSession demo_service (b64url (demo_bytes 0))) (expired_world\<lparr>w_cleaner := \<lambda>_. Inr 0\<rparr>) = (res, w') \<and>
     (\<forall>ses. res = Inr ses \<longrightarrow> 1 < ss_Slot ses) \<and>
     mem_at (w_mem w') (slotKey (demo_uuid 0) 1) = Some \<lparr>en_Value = VSlot (joined_slot\<lparr>sl_Cleanup := c\<rparr>), en_Revision = a\<rparr>)"
proof -
  let ?w = "expired_world" and ?v = "expired_world\<lparr>w_cleaner := \<lambda>_. Inr 0\<rparr>"
  let ?u = "claim_base (sl_Cleanup joined_slot) (w_uuid expired_world (w_uuids expired_world + 1)) (w_clock expired_world (w_ticks expired_world + 1))"
  have env: "\<forall>j. \<exists>bs. w_rand ?w j = Inr bs" "w_rand ?w (w_rands ?w + nat (1 - 1)) = Inr (demo_bytes 2)" "\<And>q. \<exists>token. w_signer ?w q = Inr token" "w_cleanups ?w = []"
    "w_cleaner ?w (slot_call opened_event joined_slot ?u) = Inr 1" "pg_NextAttemptAt ?u \<le> w_clock ?w (w_ticks ?w + 1)"
    by (simp_all add: expired_world_def joined_world_def opened_world_def created_world_def demo_world_def slot_call_def claim_base_def zero_time_def)
  have free: "\<not> occupied joined_slot (w_clock ?w (w_ticks ?w))"
    by (simp add: occupied_def joined_slot_def new_slot_def before_def time_add_def expired_world_def second_def)
  have low: "\<forall>i. 1 \<le> i \<and> i < 1 \<longrightarrow> taken m e t i" for m e t by auto
  note at = expired_at and num = expired_numbered
  from expired_slot_reclaimed [of demo_service ?w "b64url (demo_bytes 0)" "demo_uuid 0" 2 opened_event 3 1 joined_slot 4 ?u "demo_bytes 2",
      OF _ at(1,2) _ _ _ _ low at(3) _ free num _ env(1,2) at(4) env(3)] env(4-6)
  obtain ses w' a b and sl :: slot where r: "run (StartSession demo_service (b64url (demo_bytes 0))) ?w = (Inr ses, w')" "ss_Slot ses = 1"
    "w_cleanups w' = [slot_call opened_event joined_slot ?u]" "sl_ResumeDigest sl = ''43''"
    "mem_at (w_mem w') = (mem_at (w_mem ?w))(sessionKey ''42'' := None, slotKey (demo_uuid 0) 1 \<mapsto> \<lparr>en_Value = VSlot sl, en_Revision = a\<rparr>,
      sessionKey (sl_ResumeDigest sl) \<mapsto> \<lparr>en_Value = VIndex \<lparr>ix_Deleted = False, ix_EventID = demo_uuid 0, ix_Slot = 1\<rparr>, en_Revision = b\<rparr>)"
    by auto
  from r(4) have "mem_at (w_mem w') (sessionKey ''42'') = None" unfolding r(5) by simp
  moreover from expired_slot_reclaimed [of demo_service ?v "b64url (demo_bytes 0)" "demo_uuid 0" 2 opened_event 3 1 joined_slot 4 ?u "demo_bytes 2"] at num free low env(1-3)
  have "\<exists>res w' c a. run (StartSession demo_service (b64url (demo_bytes 0))) ?v = (res, w') \<and> (\<forall>ses. res = Inr ses \<longrightarrow> 1 < ss_Slot ses) \<and>
     mem_at (w_mem w') (slotKey (demo_uuid 0) 1) = Some \<lparr>en_Value = VSlot (joined_slot\<lparr>sl_Cleanup := c\<rparr>), en_Revision = a\<rparr>"
    by simp
  ultimately show ?thesis using r(1-3) by blast
qed

end
