(* ===== verification/Liveness.thy ===== *)
theory Liveness
  imports Session_Facts
begin

text \<open>
  Progress of the reconciler: one pass completes the due cleanup of a slot that is among the
  batch of oldest-due tasks and that the application acknowledges, whatever becomes of the other
  tasks. The proof follows which keys a program may write.
\<close>

section \<open>The keys of a task\<close>

definition task_keys :: "cleanup_task \<Rightarrow> string \<Rightarrow> bool" where
  "task_keys t k \<longleftrightarrow> k \<in> range sessionKey \<or>
     (case tk_slot t of
        Some sl \<Rightarrow> k = slotKey (ev_ID (tk_event t)) (sl_Number sl)
      | None \<Rightarrow> k \<in> {eventKey (ev_ID (tk_event t)), receiptKey (ev_ID (tk_event t))} \<or> k \<in> range invitationKey \<or>
          prefix (slotPrefix (ev_ID (tk_event t))) k)"

lemma writes_mark: "K (sessionKey (sl_ResumeDigest sl)) \<Longrightarrow> writes_in K (markSessionDeleted_loop n sl)"
  by (induction n) (auto split: sum.splits)

lemma writes_finalize_slots:
  "\<forall>d. K (sessionKey d) \<Longrightarrow> \<forall>x \<in> set xs. K (fst x) \<Longrightarrow> writes_in K (finalize_slots xs)"
  by (induction xs) (auto simp: markSessionDeleted_def writes_mark intro!: writes_intros split: sum.splits)

lemma writes_parts:
  "K k \<Longrightarrow> writes_in K (deleteIfExists k)" "writes_in K (get_receipt eid)" "writes_in K (claimCleanup po now lease)"
  "K k \<Longrightarrow> writes_in K (record_failure k f p n e)"
  "K k \<Longrightarrow> K (sessionKey (sl_ResumeDigest sl)) \<Longrightarrow> writes_in K (release_slot k sl n)"
  by (auto simp: deleteIfExists_def get_receipt_def claimCleanup_def record_failure_def release_slot_def
      intro!: writes_intros split: sum.splits option.splits)

lemma writes_finalizeEvent:
  assumes "\<forall>d. K (sessionKey d)" "\<forall>d. K (invitationKey d)" "\<forall>k. prefix (slotPrefix (ev_ID ev)) k \<longrightarrow> K k" "K (eventKey (ev_ID ev))"
  shows "writes_in K (finalizeEvent ev n)"
  using assms by (auto simp: finalizeEvent_def writes_finalize_slots writes_parts intro!: writes_intros split: sum.splits)

lemma writes_cleanEvent:
  assumes "\<forall>d. K (sessionKey d)" "\<forall>d. K (invitationKey d)" "\<forall>k. prefix (slotPrefix (ev_ID ev)) k \<longrightarrow> K k" "K (eventKey (ev_ID ev))"
    "K (receiptKey (ev_ID ev))"
  shows "writes_in K (cleanEvent s ev n)"
proof -
  have "ev_ID (upgrade_tracked ev) = ev_ID ev" by (simp add: upgrade_tracked_def)
  then show ?thesis
    using assms by (auto simp: cleanEvent_def erase_event_def save_receipt_def writes_finalizeEvent writes_parts Let_def
      intro!: writes_intros split: sum.splits option.splits)
qed

lemma writes_run_task: "writes_in (task_keys t) (run_task s t)"
proof (cases "tk_slot t")
  case None
  have "writes_in (task_keys t) (cleanEvent s (tk_event t) (tk_revision t))"
    by (rule writes_cleanEvent) (simp_all add: task_keys_def None)
  then show ?thesis by (auto simp: run_task_def None intro!: writes_intros)
next
  case (Some sl)
  then show ?thesis
    by (auto simp: run_task_def cleanSlot_def erase_slot_def task_keys_def writes_parts Let_def intro!: writes_intros split: sum.splits option.splits)
qed

section \<open>The tasks of a scan\<close>

text \<open>A store whose events and slots are where their ids say, which every reachable store is.\<close>

definition tidy :: "memory \<Rightarrow> bool" where
  "tidy m \<longleftrightarrow> (\<forall>k en. mem_at m k = Some en \<longrightarrow>
     (prefix ''event.'' k \<longrightarrow> (\<exists>ev. en_Value en = VEvent ev \<and> k = eventKey (ev_ID ev) \<and> CHR ''.'' \<notin> set (ev_ID ev))) \<and>
     (prefix ''slot.'' k \<longrightarrow> (\<exists>sl. en_Value en = VSlot sl \<and> k = slotKey (sl_EventID sl) (sl_Number sl) \<and> 0 \<le> sl_Number sl \<and>
        CHR ''.'' \<notin> set (sl_EventID sl))))"

lemma tidyD:
  assumes "tidy m" "mem_at m k = Some en"
  shows "prefix ''event.'' k \<Longrightarrow> \<exists>ev. en_Value en = VEvent ev \<and> k = eventKey (ev_ID ev) \<and> CHR ''.'' \<notin> set (ev_ID ev)"
    and "prefix ''slot.'' k \<Longrightarrow> \<exists>sl. en_Value en = VSlot sl \<and> k = slotKey (sl_EventID sl) (sl_Number sl) \<and> 0 \<le> sl_Number sl \<and> CHR ''.'' \<notin> set (sl_EventID sl)"
  using assms unfolding tidy_def by blast+

definition entry_tasks :: "memory \<Rightarrow> time \<Rightarrow> event \<Rightarrow> nat \<Rightarrow> cleanup_task set" where
  "entry_tasks m now ev n =
     (if ev_State ev = Deleting then {event_task ev n}
      else {t. \<exists>sl r. mem_at m (slotKey (ev_ID ev) (sl_Number sl)) = Some \<lparr>en_Value = VSlot sl, en_Revision = r\<rparr> \<and>
             0 \<le> sl_Number sl \<and> slot_task ev now sl r = Some t})"

lemma slot_tasks_all:
  "\<forall>x \<in> set xs. \<exists>sl. en_Value (snd x) = VSlot sl \<Longrightarrow>
   \<exists>ts. slot_tasks ev now xs = Inr ts \<and>
     set ts = {t. \<exists>x \<in> set xs. \<exists>sl. en_Value (snd x) = VSlot sl \<and> slot_task ev now sl (en_Revision (snd x)) = Some t}"
proof (induction xs)
  case (Cons x xs)
  then obtain ts where "slot_tasks ev now xs = Inr ts"
    "set ts = {t. \<exists>x \<in> set xs. \<exists>sl. en_Value (snd x) = VSlot sl \<and> slot_task ev now sl (en_Revision (snd x)) = Some t}" by auto
  moreover obtain k en sl where "x = (k, en)" "en_Value en = VSlot sl" using Cons.prems by (cases x) auto
  ultimately show ?case by (cases "slot_task ev now sl (en_Revision en)") auto
qed simp

lemma slot_key_keyed:
  assumes "tidy m" "prefix (slotPrefix i) k" "mem_at m k = Some en" "CHR ''.'' \<notin> set i"
  shows "\<exists>sl. en_Value en = VSlot sl \<and> k = slotKey i (sl_Number sl) \<and> 0 \<le> sl_Number sl"
proof -
  have "prefix ''slot.'' k" using assms(2) by (auto simp: slotPrefix_def prefix_def)
  from tidyD(2) [OF assms(1,3) this] obtain sl where "en_Value en = VSlot sl" "k = slotKey (sl_EventID sl) (sl_Number sl)"
    "0 \<le> sl_Number sl" "CHR ''.'' \<notin> set (sl_EventID sl)" by blast
  with assms(2,4) show ?thesis by (auto simp: prefix_slotKey)
qed

lemma event_slots:
  assumes wf: "mem_wf m" and tidy: "tidy m" and dot: "CHR ''.'' \<notin> set (ev_ID ev)" and st: "ev_State ev \<noteq> Deleting"
  shows "\<exists>ts. slot_tasks ev now (mem_list m (slotPrefix (ev_ID ev))) = Inr ts \<and> set ts = entry_tasks m now ev n"
proof -
  let ?xs = "mem_list m (slotPrefix (ev_ID ev))"
  have mem: "x \<in> set ?xs \<longleftrightarrow> prefix (slotPrefix (ev_ID ev)) (fst x) \<and> mem_at m (fst x) = Some (snd x)" for x
    using mem_listing_at [OF wf] by (cases x) simp
  have keyed: "\<exists>sl. en_Value (snd x) = VSlot sl \<and> fst x = slotKey (ev_ID ev) (sl_Number sl) \<and> 0 \<le> sl_Number sl" if "x \<in> set ?xs" for x
    using slot_key_keyed [OF tidy _ _ dot] that by (simp add: mem)
  from keyed have "\<forall>x \<in> set ?xs. \<exists>sl. en_Value (snd x) = VSlot sl" by blast
  from slot_tasks_all [OF this] obtain ts where ts: "slot_tasks ev now ?xs = Inr ts"
    "set ts = {t. \<exists>x \<in> set ?xs. \<exists>sl. en_Value (snd x) = VSlot sl \<and> slot_task ev now sl (en_Revision (snd x)) = Some t}" by blast
  have "set ts \<subseteq> entry_tasks m now ev n"
  proof
    fix t assume "t \<in> set ts"
    then obtain x sl where x: "x \<in> set ?xs" "en_Value (snd x) = VSlot sl" "slot_task ev now sl (en_Revision (snd x)) = Some t" unfolding ts(2) by blast
    from keyed [OF x(1)] x(2) have "fst x = slotKey (ev_ID ev) (sl_Number sl)" "0 \<le> sl_Number sl" by auto
    moreover have "snd x = \<lparr>en_Value = VSlot sl, en_Revision = en_Revision (snd x)\<rparr>" by (cases "snd x") (use x(2) in simp)
    ultimately show "t \<in> entry_tasks m now ev n" using x mem st unfolding entry_tasks_def by fastforce
  qed
  moreover have "entry_tasks m now ev n \<subseteq> set ts"
  proof
    fix t assume "t \<in> entry_tasks m now ev n"
    then obtain sl r where "mem_at m (slotKey (ev_ID ev) (sl_Number sl)) = Some \<lparr>en_Value = VSlot sl, en_Revision = r\<rparr>" "slot_task ev now sl r = Some t"
      using st unfolding entry_tasks_def by auto
    then show "t \<in> set ts" unfolding ts(2)
      using mem [of "(slotKey (ev_ID ev) (sl_Number sl), \<lparr>en_Value = VSlot sl, en_Revision = r\<rparr>)"] by force
  qed
  ultimately show ?thesis using ts(1) by blast
qed

lemma gather_all:
  assumes wf: "mem_wf (w_mem w)" and tidy: "tidy (w_mem w)" and xs: "\<forall>x \<in> set xs. prefix ''event.'' (fst x) \<and> mem_at (w_mem w) (fst x) = Some (snd x)"
  shows "\<exists>ts. run (gather_tasks now xs) w = (Inr ts, w) \<and>
    set ts = {t. \<exists>x \<in> set xs. \<exists>ev. en_Value (snd x) = VEvent ev \<and> t \<in> entry_tasks (w_mem w) now ev (en_Revision (snd x))}"
  using xs
proof (induction xs)
  case (Cons x xs)
  then obtain ts where ts: "run (gather_tasks now xs) w = (Inr ts, w)"
    "set ts = {t. \<exists>x \<in> set xs. \<exists>ev. en_Value (snd x) = VEvent ev \<and> t \<in> entry_tasks (w_mem w) now ev (en_Revision (snd x))}" by auto
  from Cons.prems tidyD(1) [OF tidy, of "fst x" "snd x"] obtain ev where
    ev: "en_Value (snd x) = VEvent ev" "CHR ''.'' \<notin> set (ev_ID ev)" by auto
  show ?case
  proof (cases "ev_State ev = Deleting")
    case True
    then show ?thesis using ts ev by (auto simp: entry_tasks_def)
  next
    case False
    from event_slots [OF wf tidy ev(2) False, of now "en_Revision (snd x)"] obtain ss where
      "slot_tasks ev now (mem_list (w_mem w) (slotPrefix (ev_ID ev))) = Inr ss" "set ss = entry_tasks (w_mem w) now ev (en_Revision (snd x))" by blast
    then show ?thesis using ts ev False by auto
  qed
qed simp

section \<open>A pass\<close>

lemma run_ticks: "w_ticks w \<le> w_ticks (snd (run p w))"
proof (induction p arbitrary: w)
  case (DoNow c)
  show ?case using DoNow [of _ "w\<lparr>w_ticks := w_ticks w + 1\<rparr>"] by (auto intro: order_trans [OF le_SucI [OF le_refl]])
next
  case (DoCreate k v c)
  show ?case using DoCreate [of _ "w\<lparr>w_mem := snd (mem_create (w_mem w) k v)\<rparr>"] by (simp add: case_prod_beta)
next
  case (DoUpdate k v n c)
  show ?case using DoUpdate [of _ "w\<lparr>w_mem := snd (mem_update (w_mem w) k v n)\<rparr>"] by (simp add: case_prod_beta)
next
  case (DoDelete k c)
  show ?case using DoDelete [of _ "w\<lparr>w_mem := snd (mem_delete (w_mem w) k)\<rparr>"] by (simp add: case_prod_beta)
next
  case (DoDeleteRev k n c)
  show ?case using DoDeleteRev [of _ "w\<lparr>w_mem := snd (mem_delete_revision (w_mem w) k n)\<rparr>"] by (simp add: case_prod_beta)
next
  case (DoRand c)
  show ?case using DoRand [of _ "w\<lparr>w_rands := w_rands w + 1\<rparr>"] by simp
next
  case (DoUuid c)
  show ?case using DoUuid [of _ "w\<lparr>w_uuids := w_uuids w + 1\<rparr>"] by simp
next
  case (DoCleanup q c)
  show ?case using DoCleanup [of _ "w\<lparr>w_cleanups := w_cleanups w @ [q]\<rparr>"] by simp
next
  case (DoSign q c)
  show ?case using DoSign [of _ "w\<lparr>w_signed := w_signed w @ [q]\<rparr>"] by simp
qed simp_all

lemma absent_stays:
  assumes "admits_nobody p" and "mem_at (w_mem w) (slotKey i j) = None"
  shows "mem_at (w_mem (snd (run p w))) (slotKey i j) = None"
proof -
  from nobody_run [OF assms(1), of w] have "keys_of (w_mem (snd (run p w))) \<subseteq> keys_of (w_mem w) \<union> range receiptKey"
    by (simp add: no_admission_def)
  then show ?thesis using assms(2) by (auto simp: keys_of_def)
qed

text \<open>A world in which the pass began at tick \<open>T\<close> of the clock and the slot is still as it was listed.\<close>

definition still_listed :: "world \<Rightarrow> string \<Rightarrow> entry \<Rightarrow> world \<Rightarrow> bool" where
  "still_listed w0 k en w \<longleftrightarrow> mem_at (w_mem w) k = Some en \<and> w_ctx w = None \<and> w_cleaner w = w_cleaner w0 \<and> w_clock w = w_clock w0 \<and>
     w_ticks w0 \<le> w_ticks w"

lemma other_task_keeps:
  assumes "still_listed w0 k en w" and "\<not> task_keys t k"
  shows "still_listed w0 k en (snd (run (run_task s t) w))"
  using assms writes_in_run [OF writes_run_task assms(2), of s w] run_ticks [of w "run_task s t"]
  by (simp add: still_listed_def)

lemma process_frees:
  assumes k: "k = slotKey i j" and frees: "\<And>w. still_listed w0 k en w \<Longrightarrow> mem_at (w_mem (snd (run (run_task s t) w))) k = None"
    and due: "\<not> before now (tk_due t)"
  shows "t \<in> set ts \<Longrightarrow> \<forall>t' \<in> set ts. t' \<noteq> t \<longrightarrow> \<not> task_keys t' k \<Longrightarrow> still_listed w0 k en w \<Longrightarrow> sorted (map tk_due ts) \<Longrightarrow>
    rr_Attempted rep + int (length (filter (\<lambda>t'. tk_due t' \<le> tk_due t) ts)) \<le> batch \<Longrightarrow>
    mem_at (w_mem (snd (run (process_tasks s now batch ts rep) w))) k = None"
proof (induction ts arbitrary: rep w)
  case (Cons t' ts)
  let ?rep = "rep\<lparr>rr_Oldest := max (rr_Oldest rep) (time_sub now (tk_started t'))\<rparr>"
  let ?w = "snd (run (run_task s t') w)" and ?r = "fst (run (run_task s t') w)"
  have ctx: "w_ctx w = None" using Cons.prems(3) by (simp add: still_listed_def)
  have att: "rr_Attempted (count_result r rp) = rr_Attempted rp" for r rp by (simp add: count_result_def split: sum.splits)
  have first: "tk_due t' \<le> tk_due t" using Cons.prems(1,4) by auto
  then have small: "rr_Attempted rep < batch" using Cons.prems(5) by simp
  show ?case
  proof (cases "before now (tk_due t')")
    case True
    then have "t' \<noteq> t" using due by auto
    then have "t \<in> set ts" using Cons.prems(1) by simp
    then show ?thesis using Cons.IH [of w ?rep] Cons.prems first True by (simp add: Let_def)
  next
    case False
    have run: "run (process_tasks s now batch (t' # ts) rep) w =
        run (process_tasks s now batch ts (count_result ?r (?rep\<lparr>rr_Attempted := rr_Attempted rep + 1\<rparr>))) ?w"
      using False small ctx by (simp add: Let_def case_prod_beta)
    show ?thesis
    proof (cases "t' = t")
      case True
      then have "mem_at (w_mem ?w) k = None" using frees [OF Cons.prems(3)] by simp
      then show ?thesis unfolding run k by (rule absent_stays [OF nobody_process])
    next
      case other: False
      have "still_listed w0 k en ?w" using other_task_keeps [OF Cons.prems(3)] Cons.prems(2) other by auto
      then show ?thesis unfolding run using Cons.IH [of ?w] Cons.prems first other by (simp add: att)
    qed
  qed
qed simp

definition due_slot :: "event \<Rightarrow> slot \<Rightarrow> time \<Rightarrow> bool" where
  "due_slot ev sl now \<longleftrightarrow>
     (case sl_Cleanup sl of
        Some p \<Rightarrow> pg_NextAttemptAt p \<le> now
      | None \<Rightarrow> ev_State ev = Open \<and> \<not> sl_Reserved sl \<and> sl_GraceExpiresAt sl \<le> now)"

text \<open>The time since which the slot is due: the end of its grace period, or of the backoff of its cleanup.\<close>

definition due_since :: "slot \<Rightarrow> time" where
  "due_since sl = (case sl_Cleanup sl of Some p \<Rightarrow> pg_NextAttemptAt p | None \<Rightarrow> sl_GraceExpiresAt sl)"

lemma due_slot_task:
  assumes "due_slot ev sl now"
  obtains t where "slot_task ev now sl r = Some t" "tk_event t = ev" "tk_slot t = Some sl" "tk_revision t = r" "tk_due t \<le> now" "tk_due t = due_since sl"
  using assms unfolding due_slot_def slot_task_def before_def due_since_def by (cases "sl_Cleanup sl") auto

lemma slot_task_parts:
  "slot_task ev now sl r = Some t \<Longrightarrow> tk_event t = ev \<and> tk_slot t = Some sl \<and> tk_revision t = r"
  by (auto simp: slot_task_def split: option.splits if_splits)

text \<open>The tasks a scan finds.\<close>

definition scanned :: "world \<Rightarrow> cleanup_task list" where
  "scanned w = (case fst (run (gather_tasks (w_clock w (w_ticks w)) (mem_list (w_mem w) ''event.'')) (w\<lparr>w_ticks := w_ticks w + 1\<rparr>)) of
     Inl _ \<Rightarrow> [] | Inr ts \<Rightarrow> ts)"

lemma run_due_task:
  assumes "sv_cleaner s" and "\<forall>p. w_cleaner w (slot_call ev sl p) = Inr 1" and "mono (w_clock w)" and "zero_time \<le> w_clock w (w_ticks w)"
    and "due_slot ev sl (w_clock w T)" "T \<le> w_ticks w"
    and "mem_at (w_mem w) (slotKey (ev_ID ev) (sl_Number sl)) = Some \<lparr>en_Value = VSlot sl, en_Revision = r\<rparr>"
  shows "mem_at (w_mem (snd (run (cleanSlot s ev sl r) w))) (slotKey (ev_ID ev) (sl_Number sl)) = None"
proof -
  let ?p = "claim_base (sl_Cleanup sl) (w_uuid w (w_uuids w)) (w_clock w (w_ticks w))"
  have "w_clock w T \<le> w_clock w (w_ticks w)" by (rule monoD [OF assms(3,6)])
  then have "\<not> before (w_clock w (w_ticks w)) (pg_NextAttemptAt ?p)"
    using assms(4,5) by (auto simp: claim_base_def due_slot_def before_def split: option.splits)
  moreover have "w_cleaner w (slot_call ev sl ?p) = Inr 1" using assms(2) by blast
  ultimately obtain w' where "run (cleanSlot s ev sl r) w = (Inr (), w')"
    "mem_at (w_mem w') = (mem_at (w_mem w))(slotKey (ev_ID ev) (sl_Number sl) := None, sessionKey (sl_ResumeDigest sl) := None)"
    using run_cleanSlot_ok [OF assms(1,7) _ refl] by auto
  then show ?thesis by simp
qed

lemma other_tasks_elsewhere:
  assumes tidy: "tidy m" and e: "mem_at m (eventKey (ev_ID ev)) = Some \<lparr>en_Value = VEvent ev, en_Revision = n\<rparr>" and st: "ev_State ev \<noteq> Deleting"
    and sl: "mem_at m (slotKey (ev_ID ev) (sl_Number sl)) = Some \<lparr>en_Value = VSlot sl, en_Revision = r\<rparr>" "0 \<le> sl_Number sl"
    and t: "slot_task ev now sl r = Some t"
    and x: "prefix ''event.'' (fst x)" "mem_at m (fst x) = Some (snd x)" "en_Value (snd x) = VEvent ev'" "t' \<in> entry_tasks m now ev' (en_Revision (snd x))"
    and ne: "t' \<noteq> t"
  shows "\<not> task_keys t' (slotKey (ev_ID ev) (sl_Number sl))"
proof -
  from tidyD(1) [OF tidy x(2,1)] x(3) have k': "fst x = eventKey (ev_ID ev')" "CHR ''.'' \<notin> set (ev_ID ev')" by auto
  from tidyD(1) [OF tidy e] have dot: "CHR ''.'' \<notin> set (ev_ID ev)" by auto
  have same: "ev' = ev" if i: "ev_ID ev' = ev_ID ev"
  proof -
    from i k'(1) x(2) e have "snd x = \<lparr>en_Value = VEvent ev, en_Revision = n\<rparr>" by simp
    with x(3) show ?thesis by simp
  qed
  show ?thesis
  proof (cases "ev_State ev' = Deleting")
    case True
    then have "ev_ID ev' \<noteq> ev_ID ev" using same st by auto
    moreover have "t' = event_task ev' (en_Revision (snd x))" using x(4) True by (simp add: entry_tasks_def)
    then have "tk_slot t' = None" "tk_event t' = ev'" by (simp_all add: event_task_def split: option.splits)
    ultimately show ?thesis using dot k'(2) by (auto simp: task_keys_def prefix_slotKey)
  next
    case False
    then obtain sl' r' where s: "mem_at m (slotKey (ev_ID ev') (sl_Number sl')) = Some \<lparr>en_Value = VSlot sl', en_Revision = r'\<rparr>" "0 \<le> sl_Number sl'"
      "slot_task ev' now sl' r' = Some t'" using x(4) unfolding entry_tasks_def by auto
    have "slotKey (ev_ID ev) (sl_Number sl) \<noteq> slotKey (ev_ID ev') (sl_Number sl')"
    proof
      assume eq: "slotKey (ev_ID ev) (sl_Number sl) = slotKey (ev_ID ev') (sl_Number sl')"
      from slotKey_inj [OF this sl(2) s(2)] have "ev' = ev" using same by simp
      with eq s(1,3) sl(1) t ne show False by auto
    qed
    with slot_task_parts [OF s(3)] show ?thesis by (auto simp: task_keys_def)
  qed
qed

text \<open>
  C38: abandoned guests are removed. Take a store whose documents are where their ids say and a
  clock that does not run backwards. Then one pass of the reconciler, run alone and not cancelled,
  removes a slot that is due (its grace period is over in an open event and it is not reserved,
  or its earlier cleanup failed and the backoff is over) if no more than a batch of the tasks the
  scan finds are due as early as it, and the application acknowledges the erasure of its guest;
  the other tasks of the pass may fail.
\<close>

theorem due_slots_are_freed:
  assumes "mem_wf (w_mem w)" and "tidy (w_mem w)" and "sv_cleaner s" and "w_ctx w = None" and "mono (w_clock w)"
    and "\<forall>p. w_cleaner w (slot_call ev sl p) = Inr 1" and "zero_time \<le> w_clock w (w_ticks w)"
    and "int (length (filter (\<lambda>t. tk_due t \<le> due_since sl) (scanned w))) \<le> batch"
    and "mem_at (w_mem w) (eventKey (ev_ID ev)) = Some \<lparr>en_Value = VEvent ev, en_Revision = n\<rparr>" and "ev_State ev \<noteq> Deleting"
    and "mem_at (w_mem w) (slotKey (ev_ID ev) (sl_Number sl)) = Some \<lparr>en_Value = VSlot sl, en_Revision = r\<rparr>" and "0 \<le> sl_Number sl"
    and "due_slot ev sl (w_clock w (w_ticks w))"
  shows "mem_at (w_mem (snd (run (Reconcile s batch) w))) (slotKey (ev_ID ev) (sl_Number sl)) = None"
proof -
  let ?now = "w_clock w (w_ticks w)" and ?xs = "mem_list (w_mem w) ''event.''" and ?w = "w\<lparr>w_ticks := w_ticks w + 1\<rparr>"
    and ?k = "slotKey (ev_ID ev) (sl_Number sl)" and ?en = "\<lparr>en_Value = VSlot sl, en_Revision = r\<rparr>"
  have xs: "\<forall>x \<in> set ?xs. prefix ''event.'' (fst x) \<and> mem_at (w_mem ?w) (fst x) = Some (snd x)"
    using mem_listing_at [OF assms(1)] by fastforce
  have wf: "mem_wf (w_mem ?w)" "tidy (w_mem ?w)" using assms(1,2) by simp_all
  from gather_all [OF wf xs, of ?now] obtain ts where ts: "run (gather_tasks ?now ?xs) ?w = (Inr ts, ?w)"
    "set ts = {t. \<exists>x \<in> set ?xs. \<exists>ev. en_Value (snd x) = VEvent ev \<and> t \<in> entry_tasks (w_mem w) ?now ev (en_Revision (snd x))}" by auto
  from due_slot_task [OF assms(13)] obtain t where t: "slot_task ev ?now sl r = Some t" "tk_event t = ev" "tk_slot t = Some sl" "tk_revision t = r"
    "tk_due t \<le> ?now" "tk_due t = due_since sl" by blast
  have "(eventKey (ev_ID ev), \<lparr>en_Value = VEvent ev, en_Revision = n\<rparr>) \<in> set ?xs" using assms(9) mem_listing_at [OF assms(1)] by simp
  moreover have "t \<in> entry_tasks (w_mem w) ?now ev n" using assms(10-12) t(1) unfolding entry_tasks_def by auto
  ultimately have in_ts: "t \<in> set ts" unfolding ts(2) by force
  have others: "\<forall>t' \<in> set ts. t' \<noteq> t \<longrightarrow> \<not> task_keys t' ?k"
    unfolding ts(2) using other_tasks_elsewhere [OF assms(2,9-12) t(1)] xs by fastforce
  have frees: "mem_at (w_mem (snd (run (run_task s t) v))) ?k = None" if "still_listed w ?k ?en v" for v
  proof -
    from that have v: "w_cleaner v = w_cleaner w" "w_clock v = w_clock w" "w_ticks w \<le> w_ticks v" "mem_at (w_mem v) ?k = Some ?en"
      by (simp_all add: still_listed_def)
    have "w_clock w (w_ticks w) \<le> w_clock w (w_ticks v)" by (rule monoD [OF assms(5) v(3)])
    with run_due_task [OF assms(3), of v ev sl "w_ticks w" r] assms(5-7,13) v show ?thesis by (simp add: run_task_def t(2-4))
  qed
  have "still_listed w ?k ?en ?w" using assms(4,11) by (simp add: still_listed_def)
  moreover have early: "int (length (filter (\<lambda>t'. tk_due t' \<le> tk_due t) ts)) \<le> batch" using assms(8) ts(1) t(6) by (simp add: scanned_def)
  then have "int (length (filter (\<lambda>t'. tk_due t' \<le> tk_due t) (sort_key tk_due ts))) \<le> batch" by (simp add: filter_sort)
  ultimately have "mem_at (w_mem (snd (run (process_tasks s ?now batch (sort_key tk_due ts) (empty_report\<lparr>rr_Pending := int (length ts)\<rparr>)) ?w))) ?k = None"
    using in_ts others t(5)
    by (intro process_frees [where ts = "sort_key tk_due ts", OF refl frees]) (simp_all add: before_def empty_report_def)
  moreover have "1 \<le> batch"
  proof -
    have "t \<in> set (filter (\<lambda>t'. tk_due t' \<le> tk_due t) ts)" using in_ts by simp
    then have "1 \<le> length (filter (\<lambda>t'. tk_due t' \<le> tk_due t) ts)" by (metis One_nat_def Suc_leI length_pos_if_in_set)
    with early show ?thesis by linarith
  qed
  ultimately show ?thesis using assms(3) ts(1) by (simp add: Reconcile_def)
qed

lemma expired_store:
  "mem_wf (w_mem expired_world)" "tidy (w_mem expired_world)"
  "mem_at (w_mem expired_world) (eventKey (demo_uuid 0)) = Some \<lparr>en_Value = VEvent opened_event, en_Revision = 3\<rparr>"
  "mem_at (w_mem expired_world) (slotKey (demo_uuid 0) 1) = Some \<lparr>en_Value = VSlot joined_slot, en_Revision = 4\<rparr>"
proof -
  have [simp]: "w_mem expired_world = w_mem joined_world" by (simp add: expired_world_def)
  show "mem_at (w_mem expired_world) (eventKey (demo_uuid 0)) = Some \<lparr>en_Value = VEvent opened_event, en_Revision = 3\<rparr>"
    "mem_at (w_mem expired_world) (slotKey (demo_uuid 0) 1) = Some \<lparr>en_Value = VSlot joined_slot, en_Revision = 4\<rparr>"
    by (simp_all add: joined_world_def mem_at_def)
  show "mem_wf (w_mem expired_world)" by (simp add: joined_world_def mem_wf_def)
  have dots: "CHR ''.'' \<notin> set (demo_uuid 0)" by (simp add: demo_uuid_def hex_digit_def)
  have sl: "sl_EventID joined_slot = demo_uuid 0" "sl_Number joined_slot = 1" by (simp_all add: joined_slot_def new_slot_def)
  have px: "\<not> prefix ''slot.'' (eventKey e)" "\<not> prefix ''slot.'' (invitationKey e)" "\<not> prefix ''slot.'' (sessionKey e)" for e
    by (simp_all add: key_defs)
  show "tidy (w_mem expired_world)"
    unfolding tidy_def by (auto simp: joined_world_def mem_at_def dots sl px split: if_splits)
qed

lemma expired_scan: "length (scanned expired_world) = 1"
  by (simp add: scanned_def expired_world_def joined_world_def mem_list_def slot_task_def joined_slot_def new_slot_def before_def time_add_def
      NewService_def demo_service_def second_def)

theorem due_slots_are_freed_witness:
  "mem_at (w_mem (snd (run (Reconcile demo_service 1) expired_world))) (slotKey (demo_uuid 0) 1) = None"
proof -
  have "due_slot opened_event joined_slot (w_clock expired_world (w_ticks expired_world))"
    by (simp add: due_slot_def expired_world_def joined_slot_def new_slot_def time_add_def NewService_def demo_service_def second_def)
  moreover have "mono (w_clock expired_world)" "w_ctx expired_world = None" "zero_time \<le> w_clock expired_world (w_ticks expired_world)"
    "\<forall>p. w_cleaner expired_world (slot_call opened_event joined_slot p) = Inr 1"
    by (simp_all add: expired_world_def joined_world_def opened_world_def created_world_def demo_world_def zero_time_def mono_def slot_call_def)
  moreover have "int (length (filter (\<lambda>t. tk_due t \<le> due_since joined_slot) (scanned expired_world))) \<le> 1"
    using length_filter_le [of "\<lambda>t. tk_due t \<le> due_since joined_slot" "scanned expired_world"] by (simp add: expired_scan)
  moreover have "ev_ID opened_event = demo_uuid 0" "sl_Number joined_slot = 1" by (simp_all add: joined_slot_def new_slot_def)
  ultimately show ?thesis
    using due_slots_are_freed [of expired_world demo_service opened_event joined_slot 1 3 4] expired_store by simp
qed

end
