(* ===== verification/Json.thy ===== *)
theory Json
  imports Model
begin

text \<open>
  The documents the service writes and reads with package encoding/json: the values of JSON, the
  matching of members to the fields of a struct, and the encoding of the structs of
  internal/model/model.go by their tags. A number is its literal; a string that holds a time
  (RFC 3339) is the value \<open>JTime\<close> of that time; the bytes of a document are not modelled.
\<close>

datatype json =
    JNull
  | JBool bool
  | JNum string
  | JStr string
  | JTime time
  | JArr "json list"
  | JObj "(string \<times> json) list"

section \<open>Decoding into a struct\<close>

text \<open>
  Names match a field exactly or else after folding their case: of ASCII letters, and of the two
  other characters that fold to one (U+017F and U+212A, here as their bytes).
\<close>

definition upper :: "char \<Rightarrow> char" where
  "upper c = (if (97 :: nat) \<le> of_char c \<and> of_char c \<le> (122 :: nat) then char_of (of_char c - 32 :: nat) else c)"

function fold_name :: "string \<Rightarrow> string" where
  "fold_name s =
     (if s = [] then []
      else if prefix [CHR 0xC5, CHR 0xBF] s then CHR ''S'' # fold_name (drop 2 s)
      else if prefix [CHR 0xE2, CHR 0x84, CHR 0xAA] s then CHR ''K'' # fold_name (drop 3 s)
      else upper (hd s) # fold_name (tl s))"
  by auto
termination by (relation "measure length") (auto simp: prefix_def)

declare fold_name.simps [simp del]

text \<open>A field: its name, and what a value does to the struct.\<close>

type_synonym 'r field = "string \<times> (json \<Rightarrow> 'r \<Rightarrow> err + 'r)"

definition field_of :: "'r field list \<Rightarrow> string \<Rightarrow> (json \<Rightarrow> 'r \<Rightarrow> err + 'r) option" where
  "field_of fs name =
     (case map_of fs name of
        Some f \<Rightarrow> Some f
      | None \<Rightarrow> map_option snd (find (\<lambda>(n, _). fold_name n = fold_name name) fs))"

text \<open>Members in their order; an unknown one is an error of a strict decoder only.\<close>

fun decode_members :: "bool \<Rightarrow> 'r field list \<Rightarrow> (string \<times> json) list \<Rightarrow> 'r \<Rightarrow> err + 'r" where
  "decode_members strict fs [] r = Inr r"
| "decode_members strict fs ((name, v) # rest) r =
     (case field_of fs name of
        None \<Rightarrow> if strict then Inl (ErrOther ''json: unknown field'') else decode_members strict fs rest r
      | Some f \<Rightarrow> bind_err (f v r) (decode_members strict fs rest))"

definition decode_struct :: "bool \<Rightarrow> 'r field list \<Rightarrow> json \<Rightarrow> 'r \<Rightarrow> err + 'r" where
  "decode_struct strict fs v r =
     (case v of JNull \<Rightarrow> Inr r | JObj members \<Rightarrow> decode_members strict fs members r | _ \<Rightarrow> Inl json_error)"

text \<open>Fields by their Go type; null leaves all but pointers, slices and maps as they are.\<close>

definition string_field :: "(string \<Rightarrow> 'r \<Rightarrow> 'r) \<Rightarrow> json \<Rightarrow> 'r \<Rightarrow> err + 'r" where
  "string_field upd v r = (case v of JNull \<Rightarrow> Inr r | JStr s \<Rightarrow> Inr (upd s r) | _ \<Rightarrow> Inl json_error)"

definition int_field :: "(int \<Rightarrow> 'r \<Rightarrow> 'r) \<Rightarrow> json \<Rightarrow> 'r \<Rightarrow> err + 'r" where
  "int_field upd v r =
     (case v of
        JNull \<Rightarrow> Inr r
      | JNum literal \<Rightarrow> (case atoi literal of Inl _ \<Rightarrow> Inl json_error | Inr n \<Rightarrow> Inr (upd n r))
      | _ \<Rightarrow> Inl json_error)"

definition bool_field :: "(bool \<Rightarrow> 'r \<Rightarrow> 'r) \<Rightarrow> json \<Rightarrow> 'r \<Rightarrow> err + 'r" where
  "bool_field upd v r = (case v of JNull \<Rightarrow> Inr r | JBool b \<Rightarrow> Inr (upd b r) | _ \<Rightarrow> Inl json_error)"

definition time_field :: "(time \<Rightarrow> 'r \<Rightarrow> 'r) \<Rightarrow> json \<Rightarrow> 'r \<Rightarrow> err + 'r" where
  "time_field upd v r = (case v of JNull \<Rightarrow> Inr r | JTime t \<Rightarrow> Inr (upd t r) | _ \<Rightarrow> Inl json_error)"

lemmas field_defs = string_field_def int_field_def bool_field_def time_field_def

text \<open>Capabilities are strings; a slice is decoded over the elements it had.\<close>

definition cap_of :: "string \<Rightarrow> capability" where
  "cap_of s = (if s = ''operate'' then CapOperate else if s = ''inspect'' then CapInspect
     else if s = ''delete'' then CapDelete else CapOther s)"

fun cap_name :: "capability \<Rightarrow> string" where
  "cap_name CapOperate = ''operate''"
| "cap_name CapInspect = ''inspect''"
| "cap_name CapDelete = ''delete''"
| "cap_name (CapOther s) = s"

fun decode_elems :: "capability list \<Rightarrow> json list \<Rightarrow> err + capability list" where
  "decode_elems old [] = Inr []"
| "decode_elems old (v # vs) =
     bind_err (case v of JNull \<Rightarrow> Inr (case old of [] \<Rightarrow> cap_of '''' | c # _ \<Rightarrow> c) | JStr s \<Rightarrow> Inr (cap_of s) | _ \<Rightarrow> Inl json_error)
       (\<lambda>c. bind_err (decode_elems (tl old) vs) (\<lambda>cs. Inr (c # cs)))"

definition decode_caps :: "json \<Rightarrow> capability list \<Rightarrow> err + capability list" where
  "decode_caps v old = (case v of JNull \<Rightarrow> Inr [] | JArr vs \<Rightarrow> decode_elems old vs | _ \<Rightarrow> Inl json_error)"

fun decode_cohosts :: "(string \<times> json) list \<Rightarrow> (string \<times> capability list) list \<Rightarrow> err + (string \<times> capability list) list" where
  "decode_cohosts [] m = Inr m"
| "decode_cohosts ((k, v) # rest) m = bind_err (decode_caps v []) (\<lambda>cs. decode_cohosts rest (AList.update k cs m))"

section \<open>The structs of model.go\<close>

definition omit_empty :: "bool \<Rightarrow> string \<times> json \<Rightarrow> (string \<times> json) list" where
  "omit_empty absent member = (if absent then [] else [member])"

definition progress_json :: "progress \<Rightarrow> json" where
  "progress_json p = JObj
     ([(''id'', JStr (pg_ID p)), (''attempts'', JNum (itoa (pg_Attempts p))), (''started_at'', JTime (pg_StartedAt p)),
       (''next_attempt_at'', JTime (pg_NextAttemptAt p))] @ omit_empty (pg_LastError p = '''') (''last_error'', JStr (pg_LastError p)))"

definition cleanup_member :: "progress option \<Rightarrow> (string \<times> json) list" where
  "cleanup_member p = (case p of None \<Rightarrow> [] | Some p \<Rightarrow> [(''cleanup'', progress_json p)])"

fun state_name :: "event_state \<Rightarrow> string" where
  "state_name Draft = ''draft''"
| "state_name Open = ''open''"
| "state_name Paused = ''paused''"
| "state_name Deleting = ''deleting''"
| "state_name Deleted = ''deleted''"

text \<open>A map is encoded in the order of its keys.\<close>

definition cohosts_json :: "(string \<times> capability list) list \<Rightarrow> json" where
  "cohosts_json cohosts = JObj (map (\<lambda>(k, caps). (k, JArr (map (\<lambda>c. JStr (cap_name c)) caps))) (sort_key fst cohosts))"

definition event_json :: "event \<Rightarrow> json" where
  "event_json ev = JObj
     (cleanup_member (ev_Cleanup ev) @
      omit_empty (ev_DeletedBySubject ev = '''') (''deleted_by_subject'', JStr (ev_DeletedBySubject ev)) @
      [(''id'', JStr (ev_ID ev)), (''application_id'', JStr (ev_ApplicationID ev)), (''name'', JStr (ev_Name ev)),
       (''owner_subject'', JStr (ev_OwnerSubject ev)), (''capacity'', JNum (itoa (ev_Capacity ev))),
       (''inspect_live_workspaces'', JBool (ev_InspectLive ev)), (''state'', JStr (state_name (ev_State ev))),
       (''invitation_digest'', JStr (ev_InvitationDigest ev))] @
      omit_empty (ev_DeletionID ev = '''') (''deletion_id'', JStr (ev_DeletionID ev)) @
      omit_empty (ev_Cohosts ev = []) (''cohosts'', cohosts_json (ev_Cohosts ev)) @
      [(''created_at'', JTime (ev_CreatedAt ev)), (''updated_at'', JTime (ev_UpdatedAt ev))])"

definition slot_json :: "slot \<Rightarrow> json" where
  "slot_json sl = JObj
     (cleanup_member (sl_Cleanup sl) @
      [(''event_id'', JStr (sl_EventID sl)), (''number'', JNum (itoa (sl_Number sl))), (''generation'', JStr (sl_Generation sl)),
       (''subject'', JStr (sl_Subject sl)), (''resume_digest'', JStr (sl_ResumeDigest sl)), (''reserved'', JBool (sl_Reserved sl)),
       (''lease_expires_at'', JTime (sl_LeaseExpiresAt sl)), (''grace_expires_at'', JTime (sl_GraceExpiresAt sl)),
       (''created_at'', JTime (sl_CreatedAt sl)), (''last_seen_at'', JTime (sl_LastSeenAt sl))])"

definition index_json :: "session_index \<Rightarrow> json" where
  "index_json ix = JObj
     (omit_empty (\<not> ix_Deleted ix) (''deleted'', JBool (ix_Deleted ix)) @
      [(''event_id'', JStr (ix_EventID ix)), (''slot'', JNum (itoa (ix_Slot ix)))])"

definition receipt_json :: "receipt \<Rightarrow> json" where
  "receipt_json rc = JObj
     [(''deletion_id'', JStr (rc_DeletionID rc)), (''event_id'', JStr (rc_EventID rc)), (''application_id'', JStr (rc_ApplicationID rc)),
      (''owner_subject'', JStr (rc_OwnerSubject rc)), (''deleted_by_subject'', JStr (rc_DeletedBySubject rc)),
      (''created_at'', JTime (rc_CreatedAt rc)), (''deleted_at'', JTime (rc_DeletedAt rc)),
      (''identities_deleted'', JNum (itoa (rc_IdentitiesDeleted rc)))]"

section \<open>Reading the documents back\<close>

definition zero_progress :: progress where
  "zero_progress = \<lparr>pg_ID = '''', pg_Attempts = 0, pg_StartedAt = zero_time, pg_NextAttemptAt = zero_time, pg_LastError = ''''\<rparr>"

definition progress_fields :: "progress field list" where
  "progress_fields =
     [(''id'', string_field (\<lambda>s p. p\<lparr>pg_ID := s\<rparr>)), (''attempts'', int_field (\<lambda>n p. p\<lparr>pg_Attempts := n\<rparr>)),
      (''started_at'', time_field (\<lambda>t p. p\<lparr>pg_StartedAt := t\<rparr>)), (''next_attempt_at'', time_field (\<lambda>t p. p\<lparr>pg_NextAttemptAt := t\<rparr>)),
      (''last_error'', string_field (\<lambda>s p. p\<lparr>pg_LastError := s\<rparr>))]"

text \<open>A pointer to progress: null clears it, a document is decoded into what it points to.\<close>

definition decode_progress :: "json \<Rightarrow> progress option \<Rightarrow> err + progress option" where
  "decode_progress v old =
     (if v = JNull then Inr None
      else bind_err (decode_struct False progress_fields v (case old of None \<Rightarrow> zero_progress | Some p \<Rightarrow> p)) (\<lambda>p. Inr (Some p)))"

text \<open>The service stores no state but these five; another string, which Go would keep, is an error here.\<close>

definition state_of :: "string \<Rightarrow> err + event_state" where
  "state_of s =
     (if s = ''draft'' then Inr Draft else if s = ''open'' then Inr Open else if s = ''paused'' then Inr Paused
      else if s = ''deleting'' then Inr Deleting else if s = ''deleted'' then Inr Deleted else Inl json_error)"

definition event_fields :: "event field list" where
  "event_fields =
     [(''cleanup'', \<lambda>v r. bind_err (decode_progress v (ev_Cleanup r)) (\<lambda>p. Inr (r\<lparr>ev_Cleanup := p\<rparr>))),
      (''deleted_by_subject'', string_field (\<lambda>s r. r\<lparr>ev_DeletedBySubject := s\<rparr>)),
      (''id'', string_field (\<lambda>s r. r\<lparr>ev_ID := s\<rparr>)), (''application_id'', string_field (\<lambda>s r. r\<lparr>ev_ApplicationID := s\<rparr>)),
      (''name'', string_field (\<lambda>s r. r\<lparr>ev_Name := s\<rparr>)), (''owner_subject'', string_field (\<lambda>s r. r\<lparr>ev_OwnerSubject := s\<rparr>)),
      (''capacity'', int_field (\<lambda>n r. r\<lparr>ev_Capacity := n\<rparr>)), (''inspect_live_workspaces'', bool_field (\<lambda>b r. r\<lparr>ev_InspectLive := b\<rparr>)),
      (''state'', \<lambda>v r. case v of JNull \<Rightarrow> Inr r | JStr s \<Rightarrow> bind_err (state_of s) (\<lambda>st. Inr (r\<lparr>ev_State := st\<rparr>)) | _ \<Rightarrow> Inl json_error),
      (''invitation_digest'', string_field (\<lambda>s r. r\<lparr>ev_InvitationDigest := s\<rparr>)),
      (''deletion_id'', string_field (\<lambda>s r. r\<lparr>ev_DeletionID := s\<rparr>)),
      (''cohosts'', \<lambda>v r. case v of JNull \<Rightarrow> Inr (r\<lparr>ev_Cohosts := []\<rparr>)
         | JObj ms \<Rightarrow> bind_err (decode_cohosts ms (ev_Cohosts r)) (\<lambda>m. Inr (r\<lparr>ev_Cohosts := m\<rparr>)) | _ \<Rightarrow> Inl json_error),
      (''created_at'', time_field (\<lambda>t r. r\<lparr>ev_CreatedAt := t\<rparr>)), (''updated_at'', time_field (\<lambda>t r. r\<lparr>ev_UpdatedAt := t\<rparr>))]"

definition zero_event :: event where
  "zero_event = \<lparr>ev_Cleanup = None, ev_DeletedBySubject = '''', ev_ID = '''', ev_ApplicationID = '''', ev_Name = '''',
     ev_OwnerSubject = '''', ev_Capacity = 0, ev_InspectLive = False, ev_State = Draft, ev_InvitationDigest = '''',
     ev_DeletionID = '''', ev_Cohosts = [], ev_CreatedAt = zero_time, ev_UpdatedAt = zero_time\<rparr>"

definition event_of_json :: "json \<Rightarrow> err + event" where
  "event_of_json v = decode_struct False event_fields v zero_event"

definition slot_fields :: "slot field list" where
  "slot_fields =
     [(''cleanup'', \<lambda>v r. bind_err (decode_progress v (sl_Cleanup r)) (\<lambda>p. Inr (r\<lparr>sl_Cleanup := p\<rparr>))),
      (''event_id'', string_field (\<lambda>s r. r\<lparr>sl_EventID := s\<rparr>)), (''number'', int_field (\<lambda>n r. r\<lparr>sl_Number := n\<rparr>)),
      (''generation'', string_field (\<lambda>s r. r\<lparr>sl_Generation := s\<rparr>)), (''subject'', string_field (\<lambda>s r. r\<lparr>sl_Subject := s\<rparr>)),
      (''resume_digest'', string_field (\<lambda>s r. r\<lparr>sl_ResumeDigest := s\<rparr>)), (''reserved'', bool_field (\<lambda>b r. r\<lparr>sl_Reserved := b\<rparr>)),
      (''lease_expires_at'', time_field (\<lambda>t r. r\<lparr>sl_LeaseExpiresAt := t\<rparr>)), (''grace_expires_at'', time_field (\<lambda>t r. r\<lparr>sl_GraceExpiresAt := t\<rparr>)),
      (''created_at'', time_field (\<lambda>t r. r\<lparr>sl_CreatedAt := t\<rparr>)), (''last_seen_at'', time_field (\<lambda>t r. r\<lparr>sl_LastSeenAt := t\<rparr>))]"

definition zero_slot :: slot where
  "zero_slot = \<lparr>sl_Cleanup = None, sl_EventID = '''', sl_Number = 0, sl_Generation = '''', sl_Subject = '''', sl_ResumeDigest = '''',
     sl_Reserved = False, sl_LeaseExpiresAt = zero_time, sl_GraceExpiresAt = zero_time, sl_CreatedAt = zero_time, sl_LastSeenAt = zero_time\<rparr>"

definition slot_of_json :: "json \<Rightarrow> err + slot" where
  "slot_of_json v = decode_struct False slot_fields v zero_slot"

definition index_fields :: "session_index field list" where
  "index_fields =
     [(''deleted'', bool_field (\<lambda>b r. r\<lparr>ix_Deleted := b\<rparr>)), (''event_id'', string_field (\<lambda>s r. r\<lparr>ix_EventID := s\<rparr>)),
      (''slot'', int_field (\<lambda>n r. r\<lparr>ix_Slot := n\<rparr>))]"

definition index_of_json :: "json \<Rightarrow> err + session_index" where
  "index_of_json v = decode_struct False index_fields v \<lparr>ix_Deleted = False, ix_EventID = '''', ix_Slot = 0\<rparr>"

definition receipt_fields :: "receipt field list" where
  "receipt_fields =
     [(''deletion_id'', string_field (\<lambda>s r. r\<lparr>rc_DeletionID := s\<rparr>)), (''event_id'', string_field (\<lambda>s r. r\<lparr>rc_EventID := s\<rparr>)),
      (''application_id'', string_field (\<lambda>s r. r\<lparr>rc_ApplicationID := s\<rparr>)), (''owner_subject'', string_field (\<lambda>s r. r\<lparr>rc_OwnerSubject := s\<rparr>)),
      (''deleted_by_subject'', string_field (\<lambda>s r. r\<lparr>rc_DeletedBySubject := s\<rparr>)), (''created_at'', time_field (\<lambda>t r. r\<lparr>rc_CreatedAt := t\<rparr>)),
      (''deleted_at'', time_field (\<lambda>t r. r\<lparr>rc_DeletedAt := t\<rparr>)), (''identities_deleted'', int_field (\<lambda>n r. r\<lparr>rc_IdentitiesDeleted := n\<rparr>))]"

definition receipt_of_json :: "json \<Rightarrow> err + receipt" where
  "receipt_of_json v = decode_struct False receipt_fields v
     \<lparr>rc_DeletionID = '''', rc_EventID = '''', rc_ApplicationID = '''', rc_OwnerSubject = '''', rc_DeletedBySubject = '''',
      rc_CreatedAt = zero_time, rc_DeletedAt = zero_time, rc_IdentitiesDeleted = 0\<rparr>"

section \<open>Round trips\<close>

text \<open>What Go's types guarantee of a value: integers of 64 bits, one entry per cohost, each capability its name.\<close>

definition int64 :: "int \<Rightarrow> bool" where
  "int64 n \<longleftrightarrow> - (2 ^ 63) \<le> n \<and> n < 2 ^ 63"

definition typed_progress :: "progress option \<Rightarrow> bool" where
  "typed_progress p \<longleftrightarrow> (case p of None \<Rightarrow> True | Some p \<Rightarrow> int64 (pg_Attempts p))"

definition typed_event :: "event \<Rightarrow> bool" where
  "typed_event ev \<longleftrightarrow> int64 (ev_Capacity ev) \<and> typed_progress (ev_Cleanup ev) \<and> distinct (map fst (ev_Cohosts ev)) \<and>
     (\<forall>(k, caps) \<in> set (ev_Cohosts ev). \<forall>c \<in> set caps. cap_of (cap_name c) = c)"

definition typed_slot :: "slot \<Rightarrow> bool" where
  "typed_slot sl \<longleftrightarrow> int64 (sl_Number sl) \<and> typed_progress (sl_Cleanup sl)"

lemma decode_members_append:
  "decode_members st fs (xs @ ys) r = bind_err (decode_members st fs xs r) (decode_members st fs ys)"
  by (induction xs arbitrary: r) (auto simp: bind_err_def split: option.splits sum.splits)

lemma int_field_itoa: "int64 n \<Longrightarrow> int_field upd (JNum (itoa n)) r = Inr (upd n r)"
  by (simp add: int_field_def int64_def atoi_itoa)

lemma simple_fields:
  "string_field upd (JStr s) r = Inr (upd s r)" "bool_field updb (JBool b) r = Inr (updb b r)" "time_field updt (JTime t) r = Inr (updt t r)"
  by (simp_all add: field_defs)

lemmas decode_json_simps = int_field_itoa simple_fields bind_err_simps decode_members_append omit_empty_def field_of_def decode_struct_def

lemma decode_progress_json: "typed_progress (Some p) \<Longrightarrow> decode_progress (progress_json p) None = Inr (Some p)"
  by (cases p) (simp add: typed_progress_def decode_progress_def progress_json_def zero_progress_def progress_fields_def decode_json_simps)

lemma index_round_trip: "int64 (ix_Slot ix) \<Longrightarrow> index_of_json (index_json ix) = Inr ix"
  by (cases ix) (simp add: index_of_json_def index_json_def index_fields_def decode_json_simps)

lemma receipt_round_trip: "int64 (rc_IdentitiesDeleted rc) \<Longrightarrow> receipt_of_json (receipt_json rc) = Inr rc"
  by (cases rc) (simp add: receipt_of_json_def receipt_json_def receipt_fields_def decode_json_simps)

lemma slot_round_trip: "typed_slot sl \<Longrightarrow> slot_of_json (slot_json sl) = Inr sl"
  by (cases sl, cases "sl_Cleanup sl")
     (simp_all add: typed_slot_def slot_of_json_def slot_json_def slot_fields_def cleanup_member_def zero_slot_def decode_progress_json decode_json_simps)

lemma decode_elems_caps: "\<forall>c \<in> set caps. cap_of (cap_name c) = c \<Longrightarrow> decode_elems [] (map (\<lambda>c. JStr (cap_name c)) caps) = Inr caps"
  by (induction caps) (simp_all add: bind_err_simps)

lemma decode_cohosts_pairs:
  "distinct (map fst (m @ xs)) \<Longrightarrow> \<forall>(k, caps) \<in> set xs. \<forall>c \<in> set caps. cap_of (cap_name c) = c \<Longrightarrow>
   decode_cohosts (map (\<lambda>(k, caps). (k, JArr (map (\<lambda>c. JStr (cap_name c)) caps))) xs) m = Inr (m @ xs)"
proof (induction xs arbitrary: m)
  case (Cons x xs)
  obtain k caps where x: "x = (k, caps)" by (cases x)
  have "k \<notin> fst ` set m \<Longrightarrow> AList.update k caps m = m @ [(k, caps)]" by (induction m) auto
  with Cons show ?case by (simp add: x decode_caps_def decode_elems_caps bind_err_simps)
qed simp

text \<open>The event that comes back lists its cohosts by key, as the encoding does.\<close>

definition canonical :: "event \<Rightarrow> event" where
  "canonical ev = ev\<lparr>ev_Cohosts := sort_key fst (ev_Cohosts ev)\<rparr>"

lemma cohosts_round_trip:
  assumes "typed_event ev"
  shows "decode_cohosts (map (\<lambda>(k, caps). (k, JArr (map (\<lambda>c. JStr (cap_name c)) caps))) (sort_key fst (ev_Cohosts ev))) [] =
    Inr (sort_key fst (ev_Cohosts ev))"
proof -
  let ?xs = "sort_key fst (ev_Cohosts ev)"
  have "distinct (map fst ?xs)" using assms by (simp add: typed_event_def distinct_map)
  then show ?thesis using decode_cohosts_pairs [of "[]" ?xs] assms by (simp add: typed_event_def)
qed

lemma state_of_name: "state_of (state_name st) = Inr st"
  by (cases st) (simp_all add: state_of_def)

lemma event_round_trip: "typed_event ev \<Longrightarrow> event_of_json (event_json ev) = Inr (canonical ev)"
  using cohosts_round_trip [of ev]
  by (cases ev, cases "ev_Cleanup ev"; cases "ev_Cohosts ev = []")
     (simp_all add: typed_event_def event_of_json_def event_json_def event_fields_def cleanup_member_def zero_event_def canonical_def
       cohosts_json_def decode_progress_json state_of_name decode_json_simps)

lemma can_canonical:
  assumes "typed_event ev"
  shows "can (canonical ev) pr c = can ev pr c" "can_see (canonical ev) pr = can_see ev pr"
proof -
  have "map_of (sort_key fst (ev_Cohosts ev)) = map_of (ev_Cohosts ev)"
    using assms unfolding typed_event_def by (intro map_of_inject_set [THEN iffD2]) (simp_all add: distinct_map)
  then show "can (canonical ev) pr c = can ev pr c" "can_see (canonical ev) pr = can_see ev pr"
    by (simp_all add: can_def can_see_def cohost_caps_def canonical_def)
qed

text \<open>
  C36: what the service stores it reads back. Decoding the JSON of an event, a slot, a session
  index or a deletion receipt gives the value that was encoded, with every omitted empty field at
  its zero value; an event's cohosts come back ordered by key, with the same rights for everyone.
\<close>

theorem stored_documents_round_trip:
  assumes "typed_event ev" and "typed_slot sl" and "int64 (ix_Slot ix)" and "int64 (rc_IdentitiesDeleted rc)"
  shows "event_of_json (event_json ev) = Inr (canonical ev) \<and> can (canonical ev) pr c = can ev pr c \<and>
    can_see (canonical ev) pr = can_see ev pr \<and> slot_of_json (slot_json sl) = Inr sl \<and>
    index_of_json (index_json ix) = Inr ix \<and> receipt_of_json (receipt_json rc) = Inr rc"
  using event_round_trip slot_round_trip index_round_trip receipt_round_trip can_canonical assms by simp

definition demo_document :: event where
  "demo_document = zero_event\<lparr>ev_ID := ''e'', ev_Capacity := 3, ev_State := Paused, ev_Cleanup := Some (zero_progress\<lparr>pg_Attempts := 2\<rparr>),
     ev_Cohosts := [(''zoe'', [CapInspect]), (''amy'', [CapOther ''x'', CapDelete])]\<rparr>"

theorem stored_documents_round_trip_witness:
  "event_of_json (event_json demo_document) =
     Inr (demo_document\<lparr>ev_Cohosts := [(''amy'', [CapOther ''x'', CapDelete]), (''zoe'', [CapInspect])]\<rparr>)"
proof -
  have "typed_event demo_document"
    by (simp add: typed_event_def demo_document_def zero_event_def zero_progress_def typed_progress_def int64_def cap_of_def)
  moreover have "typed_slot zero_slot" by (simp add: typed_slot_def zero_slot_def int64_def typed_progress_def)
  ultimately have "event_of_json (event_json demo_document) = Inr (canonical demo_document)"
    using stored_documents_round_trip [of demo_document zero_slot "\<lparr>ix_Deleted = False, ix_EventID = '''', ix_Slot = 1\<rparr>"
        "\<lparr>rc_DeletionID = '''', rc_EventID = '''', rc_ApplicationID = '''', rc_OwnerSubject = '''', rc_DeletedBySubject = '''',
          rc_CreatedAt = 0, rc_DeletedAt = 0, rc_IdentitiesDeleted = 1\<rparr>"]
    by (simp add: int64_def)
  then show ?thesis by (simp add: canonical_def demo_document_def less_char_def)
qed

end
