(* ===== verification/Api.thy ===== *)
theory Api
  imports Calls Json
begin

text \<open>
  The HTTP API, internal/api: presenter authentication, the handlers over access.Service, the
  mapping of errors to responses, and the routes. A handler is a program of the same kind as the
  methods it calls, so it can be run, and judged under any environment.

  A request is what net/http hands a handler: the path as its unescaped segments, the value of
  the Authorization header and of the resume cookie, and the JSON value at the start of the body
  (or the error of reading it) with the number of bytes read for it. The OIDC verifier is a parameter, and so are the
  text of an error (\<open>err.Error()\<close>) and the public key. The expiry date of a
  cleared cookie is left out.
\<close>

section \<open>Requests and responses\<close>

record request =
  rq_Method :: string
  rq_Segments :: "string list" \<comment> \<open>between slashes; the last is empty after a trailing slash\<close>
  rq_Canonical :: bool \<comment> \<open>whether the escaped path is its own cleaned form\<close>
  rq_Authorization :: string
  rq_Cookie :: "string option"
  rq_Body :: "err + json"
  rq_BodyBytes :: nat \<comment> \<open>up to the end of that value, or to where its error shows\<close>

definition rq_Path :: "request \<Rightarrow> string" where
  "rq_Path r = concat (map (\<lambda>s. ''/'' @ s) (rq_Segments r))"

record cookie =
  ck_Name :: string
  ck_Value :: string
  ck_Path :: string
  ck_HttpOnly :: bool
  ck_Secure :: bool
  ck_SameSiteStrict :: bool
  ck_MaxAge :: int

datatype body = NoBody | Json json | Text string

record response =
  rs_Status :: int
  rs_Body :: body
  rs_Cookie :: "cookie option"
  rs_Allow :: "string option"
  rs_Headers :: "(string \<times> string) list" \<comment> \<open>the other headers\<close>

definition resumeCookie :: string where
  "resumeCookie = ''nats_guest_access''"

definition writeStatus :: "int \<Rightarrow> response" where
  "writeStatus status = \<lparr>rs_Status = status, rs_Body = NoBody, rs_Cookie = None, rs_Allow = None, rs_Headers = []\<rparr>"

definition writeJSON :: "int \<Rightarrow> json \<Rightarrow> response" where
  "writeJSON status value = \<lparr>rs_Status = status, rs_Body = Json value, rs_Cookie = None, rs_Allow = None,
     rs_Headers = [(''Content-Type'', ''application/json'')]\<rparr>"

definition error_json :: "string \<Rightarrow> string \<Rightarrow> json" where
  "error_json code message = JObj [(''code'', JStr code), (''message'', JStr message)]"

definition writeError :: "int \<Rightarrow> string \<Rightarrow> string \<Rightarrow> response" where
  "writeError status code message = writeJSON status (error_json code message)"

section \<open>Presenters (presenter.go)\<close>

text \<open>The verifier gives the claims of a valid token, or an error; reading the claims may fail too.\<close>

record presenter_verifier =
  pv_verify :: "string \<Rightarrow> err + (err + string \<times> string list)"
  pv_group :: string

definition Verify :: "presenter_verifier option \<Rightarrow> request \<Rightarrow> err + string" where
  "Verify v r =
     (case v of
        None \<Rightarrow> Inl (ErrOther ''presenter authentication is not configured'')
      | Some v \<Rightarrow>
          if \<not> prefix ''Bearer '' (rq_Authorization r) then Inl (ErrOther ''missing bearer token'')
          else (case pv_verify v (trim_space (drop (length ''Bearer '') (rq_Authorization r))) of
              Inl e \<Rightarrow> Inl e
            | Inr (Inl _) \<Rightarrow> Inl (ErrOther ''invalid presenter claims'')
            | Inr (Inr (subject, groups)) \<Rightarrow>
                if subject = '''' then Inl (ErrOther ''invalid presenter claims'')
                else if list_ex (\<lambda>group. group = pv_group v) groups then Inr subject
                else Inl (ErrOther ''presenter group is required'')))"

section \<open>The API\<close>

record api =
  ap_access :: service
  ap_issuer :: issuer
  ap_publicJWK :: json
  ap_presenters :: "presenter_verifier option"
  ap_secureCookies :: bool
  ap_text :: "err \<Rightarrow> string"
  ap_fuel :: nat \<comment> \<open>for the unbounded retry of reserveSlots\<close>

definition access_status :: "err \<Rightarrow> int \<times> string" where
  "access_status e =
     (if errors_is e ErrCleanupPending then (503, ''cleanup_pending'')
      else if errors_is e ErrEventDeleted then (410, ''event_deleted'')
      else if errors_is e ErrEventPaused then (503, ''event_paused'')
      else if errors_is e ErrSessionExpired then (410, ''session_expired'')
      else if errors_is e ErrNotFound then (404, ''not_found'')
      else if errors_is e ErrForbidden then (403, ''forbidden'')
      else if errors_is e ErrConflict then (409, ''conflict'')
      else if errors_is e ErrCapacity then (429, ''capacity_reached'')
      else if errors_is e ErrAdmissionClosed then (503, ''admission_closed'')
      else (500, ''internal_error''))"

definition writeAccessError :: "api \<Rightarrow> err \<Rightarrow> response" where
  "writeAccessError a e =
     (let (status, code) = access_status e
      in if status = 500 then writeError status code ''request failed'' else writeError status code (ap_text a e))"

text \<open>A call of the service whose error is written and whose result is answered.\<close>

definition answer :: "api \<Rightarrow> (err + 'a) prog \<Rightarrow> ('a \<Rightarrow> response) \<Rightarrow> response prog" where
  "answer a p f = prog_bind p (\<lambda>r. case r of Inl e \<Rightarrow> Ret (writeAccessError a e) | Inr x \<Rightarrow> Ret (f x))"

definition setResumeCookie :: "api \<Rightarrow> string \<Rightarrow> response \<Rightarrow> response" where
  "setResumeCookie a secret rs =
     rs\<lparr>rs_Cookie := Some \<lparr>ck_Name = resumeCookie, ck_Value = secret, ck_Path = ''/'', ck_HttpOnly = True,
        ck_Secure = ap_secureCookies a, ck_SameSiteStrict = True, ck_MaxAge = 0\<rparr>\<rparr>"

text \<open>decodeJSON refuses unknown fields.\<close>

definition decodeJSON :: "request \<Rightarrow> 'r field list \<Rightarrow> 'r \<Rightarrow> err + 'r" where
  "decodeJSON r fs zero = bind_err (rq_Body r) (\<lambda>v. decode_struct True fs v zero)"

section \<open>Views\<close>

definition session_json :: "session \<Rightarrow> json" where
  "session_json ss = JObj
     [(''event_id'', JStr (ss_EventID ss)), (''subject'', JStr (ss_Subject ss)), (''display_name'', JStr (ss_DisplayName ss)),
      (''slot'', JNum (itoa (ss_Slot ss))), (''token'', JStr (ss_Token ss)), (''token_expires_at'', JTime (ss_TokenExpiresAt ss)),
      (''lease_expires_at'', JTime (ss_LeaseExpiresAt ss)), (''grace_expires_at'', JTime (ss_GraceExpiresAt ss))]"

record event_response =
  er_Cleanup :: "progress option"
  er_ID :: string
  er_ApplicationID :: string
  er_Name :: string
  er_OwnerSubject :: string
  er_Capacity :: int
  er_InspectLive :: bool
  er_State :: event_state
  er_Cohosts :: "(string \<times> capability list) list"
  er_CreatedAt :: time
  er_UpdatedAt :: time

record slot_response =
  sr_CleanupPending :: bool
  sr_Number :: int
  sr_Subject :: string
  sr_Reserved :: bool
  sr_LeaseExpiresAt :: time
  sr_GraceExpiresAt :: time
  sr_CreatedAt :: time
  sr_LastSeenAt :: time

definition eventView :: "event \<Rightarrow> event_response" where
  "eventView ev =
     \<lparr>er_Cleanup = ev_Cleanup ev, er_ID = ev_ID ev, er_ApplicationID = ev_ApplicationID ev, er_Name = ev_Name ev,
      er_OwnerSubject = ev_OwnerSubject ev, er_Capacity = ev_Capacity ev, er_InspectLive = ev_InspectLive ev,
      er_State = ev_State ev, er_Cohosts = ev_Cohosts ev, er_CreatedAt = ev_CreatedAt ev, er_UpdatedAt = ev_UpdatedAt ev\<rparr>"

definition slotView :: "slot \<Rightarrow> slot_response" where
  "slotView sl =
     \<lparr>sr_CleanupPending = (sl_Cleanup sl \<noteq> None), sr_Number = sl_Number sl, sr_Subject = sl_Subject sl, sr_Reserved = sl_Reserved sl,
      sr_LeaseExpiresAt = sl_LeaseExpiresAt sl, sr_GraceExpiresAt = sl_GraceExpiresAt sl, sr_CreatedAt = sl_CreatedAt sl,
      sr_LastSeenAt = sl_LastSeenAt sl\<rparr>"

definition event_response_json :: "event_response \<Rightarrow> json" where
  "event_response_json er = JObj
     (cleanup_member (er_Cleanup er) @
      [(''id'', JStr (er_ID er)), (''application_id'', JStr (er_ApplicationID er)), (''name'', JStr (er_Name er)),
       (''owner_subject'', JStr (er_OwnerSubject er)), (''capacity'', JNum (itoa (er_Capacity er))),
       (''inspect_live_workspaces'', JBool (er_InspectLive er)), (''state'', JStr (state_name (er_State er)))] @
      omit_empty (er_Cohosts er = []) (''cohosts'', cohosts_json (er_Cohosts er)) @
      [(''created_at'', JTime (er_CreatedAt er)), (''updated_at'', JTime (er_UpdatedAt er))])"

definition slot_response_json :: "slot_response \<Rightarrow> json" where
  "slot_response_json sr = JObj
     [(''cleanup_pending'', JBool (sr_CleanupPending sr)), (''number'', JNum (itoa (sr_Number sr))), (''subject'', JStr (sr_Subject sr)),
      (''reserved'', JBool (sr_Reserved sr)), (''lease_expires_at'', JTime (sr_LeaseExpiresAt sr)),
      (''grace_expires_at'', JTime (sr_GraceExpiresAt sr)), (''created_at'', JTime (sr_CreatedAt sr)),
      (''last_seen_at'', JTime (sr_LastSeenAt sr))]"

text \<open>The two values of the discovery document that are not lists.\<close>

definition discovery_json :: "issuer \<Rightarrow> json" where
  "discovery_json i = JObj (map (\<lambda>(k, vs). (k, if k \<in> {''issuer'', ''jwks_uri''} then JStr (hd vs) else JArr (map JStr vs)))
     (sort_key fst (Discovery i)))"

definition JWKS :: "json \<Rightarrow> json" where
  "JWKS publicJWK = JObj [(''keys'', JArr [publicJWK])]"

section \<open>Public handlers\<close>

definition discovery :: "api \<Rightarrow> request \<Rightarrow> response prog" where
  "discovery a _ = Ret (writeJSON 200 (discovery_json (ap_issuer a)))"

definition jwks :: "api \<Rightarrow> request \<Rightarrow> response prog" where
  "jwks a _ = Ret (writeJSON 200 (JWKS (ap_publicJWK a)))"

definition health :: "api \<Rightarrow> request \<Rightarrow> response prog" where
  "health _ _ = Ret (writeJSON 200 (JObj [(''status'', JStr ''ok'')]))"

section \<open>Guest handlers\<close>

definition invitation_fields :: "string field list" where
  "invitation_fields = [(''invitation'', string_field (\<lambda>s _. s))]"

definition startSession :: "api \<Rightarrow> request \<Rightarrow> response prog" where
  "startSession a r =
     (case decodeJSON r invitation_fields '''' of
        Inl e \<Rightarrow> Ret (writeError 400 ''invalid_request'' (ap_text a e))
      | Inr invitation \<Rightarrow>
          answer a
            (if invitation \<noteq> '''' then StartSession (ap_access a) invitation
             else case rq_Cookie r of
               Some value \<Rightarrow> RenewSession (ap_access a) value
             | None \<Rightarrow> Ret (Inl ErrNotFound))
            (\<lambda>session. setResumeCookie a (ss_ResumeSecret session) (writeJSON 201 (session_json session))))"

definition renewSession :: "api \<Rightarrow> request \<Rightarrow> response prog" where
  "renewSession a r =
     (case rq_Cookie r of
        None \<Rightarrow> Ret (writeAccessError a ErrSessionExpired)
      | Some value \<Rightarrow>
          answer a (RenewSession (ap_access a) value)
            (\<lambda>session. setResumeCookie a (ss_ResumeSecret session) (writeJSON 200 (session_json session))))"

definition heartbeatSession :: "api \<Rightarrow> request \<Rightarrow> response prog" where
  "heartbeatSession a r =
     (case rq_Cookie r of
        None \<Rightarrow> Ret (writeAccessError a ErrSessionExpired)
      | Some value \<Rightarrow>
          answer a (HeartbeatSession (ap_access a) value)
            (\<lambda>expires. writeJSON 200 (JObj [(''lease_expires_at'', JTime expires)])))"

definition endSession :: "api \<Rightarrow> request \<Rightarrow> response prog" where
  "endSession a _ =
     Ret ((writeStatus 204)\<lparr>rs_Cookie := Some \<lparr>ck_Name = resumeCookie, ck_Value = '''', ck_Path = ''/'', ck_HttpOnly = True,
        ck_Secure = ap_secureCookies a, ck_SameSiteStrict = True, ck_MaxAge = -1\<rparr>\<rparr>)"

section \<open>Presenter handlers\<close>

definition unauthorized :: response where
  "unauthorized = writeError 401 ''unauthorized'' ''presenter authentication failed''"

definition method_not_allowed :: response where
  "method_not_allowed = writeError 405 ''method_not_allowed'' ''method not allowed''"

definition create_fields :: "create_input field list" where
  "create_fields =
     [(''application_id'', string_field (\<lambda>s r. r\<lparr>ci_ApplicationID := s\<rparr>)), (''name'', string_field (\<lambda>s r. r\<lparr>ci_Name := s\<rparr>)),
      (''capacity'', int_field (\<lambda>n r. r\<lparr>ci_Capacity := n\<rparr>)), (''inspect_live_workspaces'', bool_field (\<lambda>b r. r\<lparr>ci_InspectLive := b\<rparr>))]"

definition zero_input :: create_input where
  "zero_input = \<lparr>ci_ApplicationID = '''', ci_Name = '''', ci_Capacity = 0, ci_InspectLive = False\<rparr>"

definition handle_events :: "api \<Rightarrow> request \<Rightarrow> response prog" where
  "handle_events a r =
     (case Verify (ap_presenters a) r of
        Inl _ \<Rightarrow> Ret unauthorized
      | Inr presenter \<Rightarrow>
          if rq_Method r = ''POST''
          then (case decodeJSON r create_fields zero_input of
              Inl e \<Rightarrow> Ret (writeError 400 ''invalid_request'' (ap_text a e))
            | Inr input \<Rightarrow>
                answer a (CreateEvent (ap_access a) presenter input)
                  (\<lambda>(ev, url). writeJSON 201 (JObj [(''event'', event_response_json (eventView ev)), (''invitation_url'', JStr url)])))
          else if rq_Method r = ''GET''
          then answer a (ListEvents presenter) (\<lambda>evs. writeJSON 200 (JArr (map (\<lambda>ev. event_response_json (eventView ev)) evs)))
          else Ret (method_not_allowed\<lparr>rs_Allow := Some ''GET, POST''\<rparr>))"

definition handle_receipts :: "api \<Rightarrow> request \<Rightarrow> response prog" where
  "handle_receipts a r =
     (case Verify (ap_presenters a) r of
        Inl _ \<Rightarrow> Ret unauthorized
      | Inr presenter \<Rightarrow> answer a (ListReceipts presenter) (\<lambda>rcs. writeJSON 200 (JArr (map receipt_json rcs))))"

text \<open>strings.Split at a character, and strings.Trim of it.\<close>

fun split_on :: "char \<Rightarrow> string \<Rightarrow> string list" where
  "split_on c [] = [[]]"
| "split_on c (x # xs) =
     (if x = c then [] # split_on c xs
      else case split_on c xs of [] \<Rightarrow> [[x]] | p # ps \<Rightarrow> (x # p) # ps)"

definition trim :: "char \<Rightarrow> string \<Rightarrow> string" where
  "trim c s = trim_right c (dropWhile (\<lambda>x. x = c) s)"

definition trim_prefix :: "string \<Rightarrow> string \<Rightarrow> string" where
  "trim_prefix p s = (if prefix p s then drop (length p) s else s)"

definition event_parts :: "request \<Rightarrow> string list" where
  "event_parts r = split_on (CHR ''/'') (trim (CHR ''/'') (trim_prefix ''/v1/events/'' (rq_Path r)))"

definition capacity_fields :: "int field list" where
  "capacity_fields = [(''capacity'', int_field (\<lambda>n _. n))]"

definition cohost_fields :: "(string \<times> capability list) field list" where
  "cohost_fields =
     [(''subject'', string_field (\<lambda>s (_, caps). (s, caps))),
      (''capabilities'', \<lambda>v (s, caps). bind_err (decode_caps v caps) (\<lambda>cs. Inr (s, cs)))]"

definition not_found :: "string \<Rightarrow> response" where
  "not_found message = writeError 404 ''not_found'' message"

definition invalid_request :: "string \<Rightarrow> response" where
  "invalid_request message = writeError 400 ''invalid_request'' message"

text \<open>The operations \<open>/v1/events/<id>/<operation>\<close>.\<close>

definition event_operation :: "api \<Rightarrow> string \<Rightarrow> request \<Rightarrow> string \<Rightarrow> string \<Rightarrow> response prog" where
  "event_operation a pr r eventID operation =
     (let s = ap_access a; view = (\<lambda>ev. writeJSON 200 (event_response_json (eventView ev)))
      in if operation \<in> {''open'', ''pause'', ''reopen''}
         then if rq_Method r \<noteq> ''POST'' then Ret method_not_allowed
              else answer a (SetState (ap_fuel a) pr eventID (if operation = ''pause'' then Paused else Open)) view
         else if operation = ''invitation''
         then if rq_Method r \<noteq> ''POST'' then Ret method_not_allowed
              else answer a (RotateInvitation s pr eventID) (\<lambda>url. writeJSON 200 (JObj [(''invitation_url'', JStr url)]))
         else if operation = ''capacity''
         then (case (if rq_Method r \<noteq> ''PUT'' then Inl json_error else decodeJSON r capacity_fields 0) of
             Inl _ \<Rightarrow> Ret (invalid_request ''capacity is required'')
           | Inr capacity \<Rightarrow> answer a (UpdateCapacity s pr eventID capacity) view)
         else if operation = ''cohosts''
         then (case (if rq_Method r \<noteq> ''PUT'' then Inl json_error else decodeJSON r cohost_fields ('''', [])) of
             Inl _ \<Rightarrow> Ret (invalid_request ''cohost is invalid'')
           | Inr (subject, capabilities) \<Rightarrow> answer a (SetCohost pr eventID subject capabilities) view)
         else if operation = ''slots''
         then if rq_Method r \<noteq> ''GET'' then Ret method_not_allowed
              else answer a (ListSlots pr eventID) (\<lambda>sls. writeJSON 200 (JArr (map (\<lambda>sl. slot_response_json (slotView sl)) sls)))
         else if operation = ''receipt''
         then if rq_Method r \<noteq> ''GET'' then Ret method_not_allowed
              else answer a (GetReceipt pr eventID) (\<lambda>rc. writeJSON 200 (receipt_json rc))
         else if operation = ''delete''
         then if rq_Method r \<noteq> ''POST'' then Ret method_not_allowed
              else answer a (DeleteEvent s pr eventID) (\<lambda>rc. writeJSON 200 (receipt_json rc))
         else Ret (not_found ''operation not found''))"

definition handle_event :: "api \<Rightarrow> request \<Rightarrow> response prog" where
  "handle_event a r =
     (case Verify (ap_presenters a) r of
        Inl _ \<Rightarrow> Ret unauthorized
      | Inr pr \<Rightarrow>
          let parts = event_parts r
          in if parts = [] \<or> hd parts = '''' then Ret (not_found ''event not found'')
             else let eventID = hd parts
             in if length parts = 3 \<and> parts ! 1 = ''slots'' \<and> rq_Method r = ''DELETE''
                then (case atoi (parts ! 2) of
                    Inl _ \<Rightarrow> Ret (invalid_request ''slot number is invalid'')
                  | Inr number \<Rightarrow>
                      if number < 1 then Ret (invalid_request ''slot number is invalid'')
                      else answer a (ReleaseSlot (ap_access a) pr eventID number) (\<lambda>_. writeStatus 204))
                else if length parts = 1 \<and> rq_Method r = ''GET''
                then answer a (GetEvent pr eventID) (\<lambda>ev. writeJSON 200 (event_response_json (eventView ev)))
                else if length parts \<noteq> 2 then Ret (not_found ''operation not found'')
                else event_operation a pr r eventID (parts ! 1))"

section \<open>Routes\<close>

text \<open>The patterns with a method, which are exact paths.\<close>

definition routes :: "(string \<times> string list \<times> (api \<Rightarrow> request \<Rightarrow> response prog)) list" where
  "routes =
     [(''GET'', [''.well-known'', ''openid-configuration''], discovery), (''GET'', [''jwks''], jwks),
      (''GET'', [''healthz''], health), (''GET'', [''readyz''], health),
      (''POST'', [''v1'', ''guest-sessions''], startSession), (''POST'', [''v1'', ''guest-sessions'', ''token''], renewSession),
      (''POST'', [''v1'', ''guest-sessions'', ''heartbeat''], heartbeatSession),
      (''DELETE'', [''v1'', ''guest-sessions'', ''current''], endSession), (''GET'', [''v1'', ''receipts''], handle_receipts)]"

text \<open>A GET pattern also takes HEAD requests.\<close>

definition method_matches :: "string \<Rightarrow> string \<Rightarrow> bool" where
  "method_matches pattern meth \<longleftrightarrow> pattern = meth \<or> pattern = ''GET'' \<and> meth = ''HEAD''"

definition redirect :: response where
  "redirect = writeStatus 307"

definition plain :: "int \<Rightarrow> string \<Rightarrow> response" where
  "plain status text = (writeStatus status)\<lparr>rs_Body := Text text,
     rs_Headers := [(''Content-Type'', ''text/plain; charset=utf-8''), (''X-Content-Type-Options'', ''nosniff'')]\<rparr>"

definition mux :: "api \<Rightarrow> request \<Rightarrow> response prog" where
  "mux a r =
     (if \<not> rq_Canonical r then Ret redirect
      else if rq_Segments r = [''v1'', ''events''] then handle_events a r
      else if take 2 (rq_Segments r) = [''v1'', ''events''] then handle_event a r
      else case find (\<lambda>(m, segments, _). segments = rq_Segments r \<and> method_matches m (rq_Method r)) routes of
          Some (_, _, handler) \<Rightarrow> handler a r
        | None \<Rightarrow>
            (case find (\<lambda>(_, segments, _). segments = rq_Segments r) routes of
               Some (m, _, _) \<Rightarrow> Ret ((plain 405 ''Method Not Allowed'')\<lparr>rs_Allow := Some (if m = ''GET'' then ''GET, HEAD'' else m)\<rparr>)
             | None \<Rightarrow> Ret (plain 404 ''404 page not found'')))"

text \<open>
  The decoder scans what it has read before it reads on, so a body is cut off only where the
  first value in it goes beyond the limit.
\<close>

definition body_too_large :: err where
  "body_too_large = ErrOther ''http: request body too large''"

definition bodyLimit :: "request \<Rightarrow> request" where
  "bodyLimit r = (if rq_BodyBytes r \<le> 64 * 1024 then r else r\<lparr>rq_Body := Inl body_too_large\<rparr>)"

text \<open>The line the request log writes after a response, from the clock before and after it.\<close>

definition requestLog :: "request \<Rightarrow> time \<Rightarrow> time \<Rightarrow> (string \<times> string) list" where
  "requestLog r started finished =
     (let d = time_sub finished started
      in [(''method'', rq_Method r), (''path'', rq_Path r),
          (''duration_ms'', itoa (if 0 \<le> d then d div 1000000 else - (- d div 1000000)))])"

text \<open>The headers every response gets before its handler sets its own.\<close>

definition security_headers :: "(string \<times> string) list" where
  "security_headers = [(''Cache-Control'', ''no-store''), (''X-Content-Type-Options'', ''nosniff''), (''Referrer-Policy'', ''no-referrer'')]"

definition securityHeaders :: "response \<Rightarrow> response" where
  "securityHeaders rs = rs\<lparr>rs_Headers := fold (\<lambda>(k, v). AList.update k v) (rs_Headers rs) security_headers\<rparr>"

definition serveHTTP :: "api \<Rightarrow> request \<Rightarrow> response prog" where
  "serveHTTP a r = prog_bind (mux a (bodyLimit r)) (\<lambda>rs. Ret (securityHeaders rs))"

end
