(* ===== verification/Api_Facts.thy ===== *)
theory Api_Facts
  imports Api Management_Facts Session_Facts
begin

text \<open>
  What the HTTP API guarantees: who may do what through it, which answers it gives whatever the
  environment does, and that the cookie of a session is its credential.
\<close>

section \<open>Running handlers\<close>

lemma run_answer: "run (answer a p f) w = (case run p w of (Inl e, w') \<Rightarrow> (writeAccessError a e, w') | (Inr x, w') \<Rightarrow> (f x, w'))"
  by (auto simp: answer_def split: sum.splits prod.splits)

lemma access_errors:
  "writeAccessError a ErrForbidden = writeError 403 ''forbidden'' (ap_text a ErrForbidden)"
  "writeAccessError a (Wrapped m ErrConflict) = writeError 409 ''conflict'' (ap_text a (Wrapped m ErrConflict))"
  by (simp_all add: writeAccessError_def access_status_def)

lemma secured_simps [simp]:
  "rs_Status (securityHeaders rs) = rs_Status rs" "rs_Body (securityHeaders rs) = rs_Body rs" "rs_Cookie (securityHeaders rs) = rs_Cookie rs"
  "rs_Allow (securityHeaders rs) = rs_Allow rs"
  by (simp_all add: securityHeaders_def)

lemma run_serveHTTP: "run (serveHTTP a r) w = (case run (mux a (bodyLimit r)) w of (rs, w') \<Rightarrow> (securityHeaders rs, w'))"
  by (simp add: serveHTTP_def)

text \<open>The limit changes nothing but the body, and a body beyond it fails to decode.\<close>

lemma bodyLimit_simps [simp]:
  "rq_Method (bodyLimit r) = rq_Method r" "rq_Segments (bodyLimit r) = rq_Segments r" "rq_Canonical (bodyLimit r) = rq_Canonical r"
  "rq_Authorization (bodyLimit r) = rq_Authorization r" "rq_Cookie (bodyLimit r) = rq_Cookie r"
  by (simp_all add: bodyLimit_def)

lemma bodyLimit_routing [simp]: "Verify v (bodyLimit r) = Verify v r" "event_parts (bodyLimit r) = event_parts r"
  unfolding Verify_def event_parts_def rq_Path_def bodyLimit_simps by (rule refl)+

lemma bodyLimit_body: "rq_Body (bodyLimit r) = (if rq_BodyBytes r \<le> 65536 then rq_Body r else Inl body_too_large)"
  by (simp add: bodyLimit_def)

lemma oversized_body_fails: "65536 < rq_BodyBytes r \<Longrightarrow> decodeJSON (bodyLimit r) fs zero = Inl body_too_large"
  by (simp add: decodeJSON_def bodyLimit_body bind_err_simps)

text \<open>No credential and nothing of a body gets into the request log.\<close>

lemma requestLog_public: "requestLog (r\<lparr>rq_Authorization := x, rq_Cookie := c, rq_Body := b\<rparr>) = requestLog r"
  by (simp add: fun_eq_iff requestLog_def rq_Path_def)

lemmas response_defs = writeError_def writeJSON_def writeStatus_def plain_def redirect_def unauthorized_def method_not_allowed_def not_found_def
  invalid_request_def setResumeCookie_def

section \<open>Paths\<close>

lemma split_on_none: "c \<notin> set p \<Longrightarrow> split_on c p = [p]"
  by (induction p) auto

lemma split_on_append: "c \<notin> set p \<Longrightarrow> split_on c (p @ c # s) = p # split_on c s"
  by (induction p) auto

lemma trim_right_fix: "s \<noteq> [] \<Longrightarrow> last s \<noteq> c \<Longrightarrow> trim_right c s = s"
  by (cases s rule: rev_cases) (auto simp: trim_right_def)

lemma trim_fix: "s \<noteq> [] \<Longrightarrow> hd s \<noteq> c \<Longrightarrow> last s \<noteq> c \<Longrightarrow> trim c s = s"
  by (cases s) (auto simp: trim_def trim_right_fix)

lemma event_parts_operation:
  assumes "rq_Segments r = [''v1'', ''events'', eid, op]" and "eid \<noteq> ''''" "op \<noteq> ''''" and "CHR ''/'' \<notin> set eid" "CHR ''/'' \<notin> set op"
  shows "event_parts r = [eid, op]"
proof -
  let ?s = "eid @ CHR ''/'' # op"
  have "hd ?s \<noteq> CHR ''/''" using assms(2,4) by (cases eid) auto
  moreover have "last ?s \<noteq> CHR ''/''" using assms(3,5) last_in_set [of op] by (metis last.simps last_appendR list.distinct(1))
  ultimately have "trim (CHR ''/'') ?s = ?s" by (intro trim_fix) simp_all
  moreover have "trim_prefix ''/v1/events/'' (rq_Path r) = ?s" by (simp add: trim_prefix_def rq_Path_def assms(1))
  ultimately show ?thesis by (simp add: event_parts_def split_on_append split_on_none assms(4,5))
qed

section \<open>Authorization end to end\<close>

text \<open>Who may ask for what: \<open>rest\<close> is the path after the event id.\<close>

definition permitted :: "event \<Rightarrow> string \<Rightarrow> string list \<Rightarrow> bool" where
  "permitted ev pr rest =
     (if rest = [] then can_see ev pr
      else if rest = [''slots''] then can ev pr CapInspect \<or> can ev pr CapOperate
      else if hd rest = ''cohosts'' then ev_OwnerSubject ev = pr
      else if hd rest = ''delete'' then can ev pr CapDelete
      else can ev pr CapOperate)"

definition refused :: "response \<Rightarrow> bool" where
  "refused rs \<longleftrightarrow> rs_Status rs \<in> {400, 403, 404, 405, 409} \<and> rs_Cookie rs = None"

lemma refused_secured [simp]: "refused (securityHeaders rs) = refused rs"
  by (simp add: refused_def)

lemma refused_simps [simp]:
  "refused (writeError st code msg) \<longleftrightarrow> st \<in> {400, 403, 404, 405, 409}" "refused method_not_allowed"
  "refused (not_found m)" "refused (invalid_request m)"
  by (simp_all add: refused_def response_defs)

lemma forbidden_runs:
  assumes "mem_at (w_mem w) (eventKey eid) = Some \<lparr>en_Value = VEvent ev, en_Revision = n\<rparr>"
  shows "\<not> can_see ev pr \<Longrightarrow> run (GetEvent pr eid) w = (Inl ErrForbidden, w)"
    and "\<not> can ev pr CapInspect \<Longrightarrow> \<not> can ev pr CapOperate \<Longrightarrow> run (ListSlots pr eid) w = (Inl ErrForbidden, w)"
    and "\<not> can ev pr CapDelete \<Longrightarrow> run (DeleteEvent s pr eid) w = (Inl ErrForbidden, w)"
    and "ev_OwnerSubject ev \<noteq> pr \<Longrightarrow> \<exists>e \<in> {ErrForbidden, Wrapped ''invalid capability'' ErrConflict}. run (SetCohost pr eid cohost caps) w = (Inl e, w)"
    and "\<not> can ev pr CapOperate \<Longrightarrow> \<exists>e \<in> {ErrForbidden, Wrapped ''invalid capacity'' ErrConflict}. run (UpdateCapacity s pr eid c) w = (Inl e, w)"
  using assms by (auto simp: GetEvent_def ListSlots_def DeleteEvent_def SetCohost_def UpdateCapacity_def numeral_eq_Suc run_simps)

lemma refused_answer:
  assumes "\<exists>e \<in> {ErrForbidden, Wrapped m ErrConflict}. run p w = (Inl e, w)"
  shows "\<exists>rs. run (answer a p f) w = (rs, w) \<and> refused rs"
  using assms by (auto simp: run_answer access_errors)

lemma refused_operation:
  assumes at: "mem_at (w_mem w) (eventKey eid) = Some \<lparr>en_Value = VEvent ev, en_Revision = n\<rparr>"
    and no: "\<not> permitted ev pr [op]" and op: "op \<noteq> ''receipt''"
  shows "\<exists>rs. run (event_operation a pr r eid op) w = (rs, w) \<and> refused rs"
proof -
  note fb = forbidden_runs [OF at] forbidden_operate [OF at, of pr]
  consider "op \<in> {''open'', ''pause'', ''reopen''}" | "op = ''invitation''" | "op = ''capacity''" | "op = ''cohosts''" | "op = ''slots''" | "op = ''delete''"
    | "op \<notin> {''open'', ''pause'', ''reopen'', ''invitation'', ''capacity'', ''cohosts'', ''slots'', ''receipt'', ''delete''}"
    using op by auto
  then show ?thesis
  proof cases
    case 1
    then have "\<not> can ev pr CapOperate" using no by (auto simp: permitted_def)
    from fb(6) [OF this] 1 show ?thesis by (auto simp: event_operation_def Let_def run_answer access_errors)
  next
    case 2
    then have "\<not> can ev pr CapOperate" using no by (auto simp: permitted_def)
    from fb(8) [OF this] 2 show ?thesis by (auto simp: event_operation_def Let_def run_answer access_errors)
  next
    case 3
    then have "\<not> can ev pr CapOperate" using no by (auto simp: permitted_def)
    from refused_answer [OF fb(5) [OF this]]
    have "\<exists>rs. run (answer a (UpdateCapacity (ap_access a) pr eid c) f) w = (rs, w) \<and> refused rs" for c f .
    then show ?thesis
      unfolding event_operation_def Let_def 3
      by (cases "if rq_Method r \<noteq> ''PUT'' then Inl json_error else decodeJSON r capacity_fields 0") simp_all
  next
    case 4
    then have "ev_OwnerSubject ev \<noteq> pr" using no by (auto simp: permitted_def)
    from refused_answer [OF fb(4) [OF this]]
    have "\<exists>rs. run (answer a (SetCohost pr eid cohost caps) f) w = (rs, w) \<and> refused rs" for cohost caps f .
    then show ?thesis
      unfolding event_operation_def Let_def 4
      by (cases "if rq_Method r \<noteq> ''PUT'' then Inl json_error else decodeJSON r cohost_fields ('''', [])") (auto split: prod.splits)
  next
    case 5
    then have "\<not> can ev pr CapInspect" "\<not> can ev pr CapOperate" using no by (auto simp: permitted_def)
    from fb(2) [OF this] 5 show ?thesis by (auto simp: event_operation_def Let_def run_answer access_errors)
  next
    case 6
    then have "\<not> can ev pr CapDelete" using no by (auto simp: permitted_def)
    from fb(3) [OF this] 6 show ?thesis by (auto simp: event_operation_def Let_def run_answer access_errors)
  next
    case 7
    then show ?thesis by (simp add: event_operation_def Let_def)
  qed
qed

text \<open>
  C32: nothing happens through the API without the right to it. A request on a stored event, from
  an authenticated presenter that lacks the capability its operation needs (operate for state,
  capacity, invitation and release, delete for deletion, ownership for cohosts, operate or inspect
  for the slots, any role for the event itself), whatever its method and body, leaves the whole
  world as it was and is answered with a client error and no cookie.
\<close>

theorem requests_need_capability:
  assumes "rq_Canonical r" and "take 2 (rq_Segments r) = [''v1'', ''events'']" and "2 < length (rq_Segments r)"
    and "Verify (ap_presenters a) r = Inr pr" and "event_parts r = eid # rest" and "eid \<noteq> ''''" and "rest \<noteq> [''receipt'']"
    and "mem_at (w_mem w) (eventKey eid) = Some \<lparr>en_Value = VEvent ev, en_Revision = n\<rparr>" and "\<not> permitted ev pr rest"
  shows "\<exists>rs. run (serveHTTP a r) w = (rs, w) \<and> refused rs"
proof -
  have "rq_Segments r \<noteq> [''v1'', ''events'']" using assms(3) by auto
  then have serve: "mux a (bodyLimit r) = handle_event a (bodyLimit r)" using assms(1,2) by (simp add: mux_def)
  have "\<exists>rs. run (mux a (bodyLimit r)) w = (rs, w) \<and> refused rs"
  proof (cases rest)
    case Nil
    with assms(9) have "\<not> can_see ev pr" by (simp add: permitted_def)
    from forbidden_runs(1) [OF assms(8) this] Nil assms(4-6) show ?thesis
      by (auto simp: serve handle_event_def Let_def run_answer access_errors)
  next
    case (Cons op more)
    show ?thesis
    proof (cases more)
      case Nil
      with Cons refused_operation [OF assms(8), of pr op a "bodyLimit r"] assms(4-9) show ?thesis by (auto simp: serve handle_event_def Let_def)
    next
      case (Cons arg more')
      with \<open>rest = op # more\<close> assms(9) have "op = ''slots'' \<Longrightarrow> \<not> can ev pr CapOperate" by (auto simp: permitted_def)
      with forbidden_operate(4) [OF assms(8), of pr "ap_access a"] Cons \<open>rest = op # more\<close> assms(4-6) show ?thesis
        by (auto simp: serve handle_event_def Let_def run_answer access_errors split: sum.splits)
    qed
  qed
  then show ?thesis by (auto simp: run_serveHTTP)
qed

definition demo_verifier :: presenter_verifier where
  "demo_verifier = \<lparr>pv_verify = (\<lambda>token. if token = ''t-host'' then Inr (Inr (''host'', [''demo-presenters'']))
     else if token = ''t-mallory'' then Inr (Inr (''mallory'', [''staff'', ''demo-presenters''])) else Inl (ErrOther ''invalid'')),
     pv_group = ''demo-presenters''\<rparr>"

definition demo_api :: api where
  "demo_api = \<lparr>ap_access = demo_service, ap_issuer = sv_issuer demo_service, ap_publicJWK = JObj [], ap_presenters = Some demo_verifier,
     ap_secureCookies = True, ap_text = (\<lambda>e. if e = ErrForbidden then ''forbidden'' else ''other''), ap_fuel = 3\<rparr>"

definition demo_request :: "string \<Rightarrow> string list \<Rightarrow> string \<Rightarrow> string option \<Rightarrow> json \<Rightarrow> request" where
  "demo_request meth segments token ck v = \<lparr>rq_Method = meth, rq_Segments = segments, rq_Canonical = True,
     rq_Authorization = (if token = '''' then '''' else ''Bearer '' @ token), rq_Cookie = ck, rq_Body = Inr v, rq_BodyBytes = 100\<rparr>"

definition mallory_deletes :: request where
  "mallory_deletes = demo_request ''POST'' [''v1'', ''events'', demo_uuid 0, ''delete''] ''t-mallory'' None JNull"

lemma mallory_known: "Verify (ap_presenters demo_api) mallory_deletes = Inr ''mallory''"
  by (simp add: Verify_def demo_api_def demo_verifier_def mallory_deletes_def demo_request_def trim_graphic graphic_def)

lemma mallory_path: "event_parts mallory_deletes = [demo_uuid 0, ''delete'']"
  by (rule event_parts_operation) (simp_all add: mallory_deletes_def demo_request_def demo_uuid_def hex_digit_def)

theorem requests_need_capability_witness:
  "\<exists>rs. run (serveHTTP demo_api mallory_deletes) opened_world = (rs, opened_world) \<and> refused rs"
proof (rule requests_need_capability [OF _ _ _ mallory_known mallory_path _ _ opened_at])
  show "\<not> permitted opened_event ''mallory'' [''delete'']" by (simp add: permitted_def opened_can)
qed (simp_all add: mallory_deletes_def demo_request_def demo_uuid_def)

section \<open>Authentication\<close>

text \<open>
  C33: presenters are authenticated before anything else. Without a verifier, without a bearer
  token, with a token the verifier refuses, with one that has no subject or not the configured
  group, every request for events or receipts is answered 401 at once: no operation of the
  service runs, and nothing depends on the method, the path below the events, or the body.
\<close>

theorem presenters_authenticate_first:
  assumes "rq_Canonical r" and "take 2 (rq_Segments r) = [''v1'', ''events''] \<or> rq_Segments r = [''v1'', ''receipts''] \<and> rq_Method r \<in> {''GET'', ''HEAD''}"
    and "case ap_presenters a of None \<Rightarrow> True | Some v \<Rightarrow>
      \<not> prefix ''Bearer '' (rq_Authorization r) \<or>
      (case pv_verify v (trim_space (drop (length ''Bearer '') (rq_Authorization r))) of
         Inr (Inr (subject, groups)) \<Rightarrow> subject = '''' \<or> pv_group v \<notin> set groups | _ \<Rightarrow> True)"
  shows "serveHTTP a r = Ret (securityHeaders unauthorized)"
proof -
  have "\<exists>e. Verify (ap_presenters a) r = Inl e"
    using assms(3) by (auto simp: Verify_def list_ex_iff split: option.splits sum.splits prod.splits if_splits)
  then obtain e where e: "Verify (ap_presenters a) r = Inl e" by blast
  from assms(2) show ?thesis
  proof (elim disjE conjE)
    assume "take 2 (rq_Segments r) = [''v1'', ''events'']"
    then show ?thesis using assms(1) e by (simp add: serveHTTP_def mux_def handle_events_def handle_event_def)
  next
    assume "rq_Segments r = [''v1'', ''receipts'']" "rq_Method r \<in> {''GET'', ''HEAD''}"
    then show ?thesis using assms(1) e by (auto simp: serveHTTP_def mux_def handle_receipts_def routes_def method_matches_def)
  qed
qed

theorem presenters_authenticate_first_witness:
  "serveHTTP demo_api (demo_request ''POST'' [''v1'', ''events''] ''forged'' None JNull) = Ret (securityHeaders unauthorized)"
  by (rule presenters_authenticate_first)
     (simp_all add: demo_request_def demo_api_def demo_verifier_def trim_graphic graphic_def)

section \<open>Answers under any environment\<close>

text \<open>What clients are told: the errors of the service that have an answer of their own, the first that matches counting.\<close>

definition error_table :: "(err \<times> int \<times> string) list" where
  "error_table =
     [(ErrCleanupPending, 503, ''cleanup_pending''), (ErrEventDeleted, 410, ''event_deleted''), (ErrEventPaused, 503, ''event_paused''),
      (ErrSessionExpired, 410, ''session_expired''), (ErrNotFound, 404, ''not_found''), (ErrForbidden, 403, ''forbidden''),
      (ErrConflict, 409, ''conflict''), (ErrCapacity, 429, ''capacity_reached''), (ErrAdmissionClosed, 503, ''admission_closed'')]"

definition fixed_answers :: "(int \<times> string \<times> string) list" where
  "fixed_answers =
     [(500, ''internal_error'', ''request failed''), (401, ''unauthorized'', ''presenter authentication failed''),
      (404, ''not_found'', ''event not found''), (404, ''not_found'', ''operation not found''),
      (405, ''method_not_allowed'', ''method not allowed''), (400, ''invalid_request'', ''slot number is invalid''),
      (400, ''invalid_request'', ''capacity is required''), (400, ''invalid_request'', ''cohost is invalid'')]"

text \<open>An error of decoding the request's own body, as a join or as the input of a new event.\<close>

definition body_error :: "request \<Rightarrow> err \<Rightarrow> bool" where
  "body_error r e \<longleftrightarrow> decodeJSON r invitation_fields '''' = Inl e \<or> decodeJSON r create_fields zero_input = Inl e"

text \<open>
  An error answer: no cookie, and a status, code and message that are fixed together, or an error
  of the table with its status, its code and its text, or (status 400) the text of the error of
  the request's own body.
\<close>

definition error_answer :: "api \<Rightarrow> request \<Rightarrow> response \<Rightarrow> bool" where
  "error_answer a r rs \<longleftrightarrow> rs_Cookie rs = None \<and>
     (\<exists>code message. rs_Body rs = Json (error_json code message) \<and>
        ((rs_Status rs, code, message) \<in> set fixed_answers \<or>
         (\<exists>e t. find (\<lambda>(t, _). errors_is e t) error_table = Some (t, rs_Status rs, code) \<and> message = ap_text a e) \<or>
         rs_Status rs = 400 \<and> code = ''invalid_request'' \<and> (\<exists>e. body_error r e \<and> message = ap_text a e)))"

definition answered :: "api \<Rightarrow> request \<Rightarrow> response \<Rightarrow> bool" where
  "answered a r rs \<longleftrightarrow> rs_Status rs \<in> {200, 201, 204, 307} \<or>
     (rs_Cookie rs = None \<and> (rs_Status rs, rs_Body rs) \<in> {(404, Text ''404 page not found''), (405, Text ''Method Not Allowed'')}) \<or>
     error_answer a r rs"

text \<open>What a handler of the mux answers, with no headers of its own but those of its body.\<close>

definition plain_headers :: "response \<Rightarrow> bool" where
  "plain_headers rs \<longleftrightarrow> fst ` set (rs_Headers rs) \<subseteq> {''Content-Type'', ''X-Content-Type-Options''}"

definition mux_answered :: "api \<Rightarrow> request \<Rightarrow> response \<Rightarrow> bool" where
  "mux_answered a r rs \<longleftrightarrow> answered a r rs \<and> plain_headers rs"



lemma answered_ok [simp]: "mux_answered a r (writeJSON 200 v)" "mux_answered a r (writeJSON 201 v)" "mux_answered a r (writeStatus 204)" "mux_answered a r redirect"
  "mux_answered a r (setResumeCookie a s (writeJSON 200 v))" "mux_answered a r (setResumeCookie a s (writeJSON 201 v))"
  by (simp_all add: mux_answered_def plain_headers_def answered_def response_defs)

lemma answered_error:
  "(st, code, m) \<in> set fixed_answers \<Longrightarrow> mux_answered a r ((writeError st code m)\<lparr>rs_Allow := x\<rparr>)"
  "(st, code, m) \<in> set fixed_answers \<Longrightarrow> mux_answered a r (writeError st code m)"
  "body_error r e \<Longrightarrow> mux_answered a r (writeError 400 ''invalid_request'' (ap_text a e))"
  unfolding mux_answered_def plain_headers_def answered_def error_answer_def writeError_def writeJSON_def by simp_all blast+

lemma answered_fixed [simp]: "mux_answered a r unauthorized" "mux_answered a r method_not_allowed" "mux_answered a r (method_not_allowed\<lparr>rs_Allow := x\<rparr>)"
  "mux_answered a r (invalid_request ''slot number is invalid'')" "mux_answered a r (invalid_request ''capacity is required'')"
  "mux_answered a r (invalid_request ''cohost is invalid'')" "mux_answered a r (not_found ''event not found'')" "mux_answered a r (not_found ''operation not found'')"
  "mux_answered a r (plain 404 ''404 page not found'')" "mux_answered a r ((plain 405 ''Method Not Allowed'')\<lparr>rs_Allow := x\<rparr>)"
  unfolding unauthorized_def method_not_allowed_def invalid_request_def not_found_def
  by (rule answered_error; simp add: fixed_answers_def)+ (simp_all add: mux_answered_def plain_headers_def answered_def response_defs)















section \<open>The resume cookie\<close>

text \<open>A link that leads to an open event whose lowest free slot is \<open>j\<close>, in a world with working random bytes and signer.\<close>

definition joinable :: "service \<Rightarrow> world \<Rightarrow> string \<Rightarrow> string \<Rightarrow> event \<Rightarrow> int \<Rightarrow> bool" where
  "joinable s w link eid ev j \<longleftrightarrow> sv_maxCapacity s \<noteq> 0 \<and>
     (\<exists>r. mem_at (w_mem w) (invitationKey (digest s link)) = Some \<lparr>en_Value = VText eid, en_Revision = r\<rparr>) \<and>
     (\<exists>n. mem_at (w_mem w) (eventKey eid) = Some \<lparr>en_Value = VEvent ev, en_Revision = n\<rparr>) \<and>
     ev_ID ev = eid \<and> ev_State ev = Open \<and> 1 \<le> j \<and> j \<le> ev_Capacity ev \<and>
     (\<forall>i. 1 \<le> i \<and> i < j \<longrightarrow> taken (w_mem w) eid (w_clock w (w_ticks w)) i) \<and> mem_at (w_mem w) (slotKey eid j) = None \<and>
     (\<forall>i. \<exists>bs. w_rand w i = Inr bs \<and> mem_at (w_mem w) (sessionKey (digest s (b64url bs))) = None) \<and> (\<forall>q. \<exists>token. w_signer w q = Inr token)"

lemma join_joinable:
  assumes "joinable s w link eid ev j"
  shows "\<exists>ses sl w' a b. run (StartSession s link) w = (Inr ses, w') \<and> digest s (ss_ResumeSecret ses) = sl_ResumeDigest sl \<and> sl_Cleanup sl = None \<and>
    sl_GraceExpiresAt sl = time_add (w_clock w (w_ticks w)) (sv_leaseTTL s + sv_gracePeriod s) \<and>
    mem_at (w_mem w') = (mem_at (w_mem w))(slotKey eid j \<mapsto> \<lparr>en_Value = VSlot sl, en_Revision = a\<rparr>,
      sessionKey (sl_ResumeDigest sl) \<mapsto> \<lparr>en_Value = VIndex \<lparr>ix_Deleted = False, ix_EventID = eid, ix_Slot = j\<rparr>, en_Revision = b\<rparr>)"
proof -
  from assms obtain r n where at: "mem_at (w_mem w) (invitationKey (digest s link)) = Some \<lparr>en_Value = VText eid, en_Revision = r\<rparr>"
    "mem_at (w_mem w) (eventKey eid) = Some \<lparr>en_Value = VEvent ev, en_Revision = n\<rparr>" unfolding joinable_def by blast
  have rand: "\<forall>i. \<exists>bs. w_rand w i = Inr bs" "\<forall>i bs. w_rand w i = Inr bs \<longrightarrow> mem_at (w_mem w) (sessionKey (digest s (b64url bs))) = None"
    using assms unfolding joinable_def by (metis, metis sum.inject(2))
  have c: "sv_maxCapacity s \<noteq> 0" "ev_ID ev = eid" "ev_State ev = Open" "1 \<le> j" "j \<le> ev_Capacity ev"
    "\<forall>i. 1 \<le> i \<and> i < j \<longrightarrow> taken (w_mem w) eid (w_clock w (w_ticks w)) i" "mem_at (w_mem w) (slotKey eid j) = None"
    using assms unfolding joinable_def by blast+
  have "\<exists>token. w_signer w q = Inr token" for q using assms unfolding joinable_def by blast
  from join_free [OF c(1) at c(2-7) rand this] show ?thesis
    by (elim exE conjE) (intro exI conjI, assumption+)
qed

definition guest_request :: "string \<Rightarrow> string list \<Rightarrow> request \<Rightarrow> bool" where
  "guest_request meth rest r \<longleftrightarrow> rq_Canonical r \<and> rq_Method r = meth \<and> rq_Segments r = ''v1'' # ''guest-sessions'' # rest"

lemma serve_guest:
  "guest_request ''POST'' [] r \<Longrightarrow> mux a (bodyLimit r) = startSession a (bodyLimit r)"
  "guest_request ''POST'' [''heartbeat''] r \<Longrightarrow> mux a (bodyLimit r) = heartbeatSession a (bodyLimit r)"
  by (simp_all add: guest_request_def mux_def routes_def method_matches_def)

lemma decode_invitation: "decodeJSON r invitation_fields '''' = Inr link" if "rq_Body r = Inr (JObj [(''invitation'', JStr link)])"
  using that by (simp add: decodeJSON_def invitation_fields_def decode_json_simps)

lemma heartbeat_served:
  assumes "renewable (w_mem w) (digest (ap_access a) secret) (w_clock w (w_ticks w)) ix ev sl"
    and "guest_request ''POST'' [''heartbeat''] h" and "rq_Cookie h = Some secret"
  shows "run (serveHTTP a h) w = (securityHeaders (writeJSON 200 (JObj [(''lease_expires_at'', JTime (time_add (w_clock w (w_ticks w)) (sv_leaseTTL (ap_access a))))])),
    w\<lparr>w_ticks := w_ticks w + 1, w_mem := put (w_mem w) (slotKey (ix_EventID ix) (ix_Slot ix))
        (VSlot (renewed (ap_access a) sl (w_clock w (w_ticks w))))\<rparr>)"
  using run_renew_ok [OF assms(1)] assms(3)
  by (simp add: run_serveHTTP serve_guest assms(2) heartbeatSession_def run_answer HeartbeatSession_def renewed_def Let_def)

text \<open>
  C35: the cookie a join sets is the credential of the slot it gave. When a link leads to a free
  slot, POST /v1/guest-sessions answers 201 and sets an HTTP-only resume cookie; from then on, as
  long as the store is what the join left and the grace period lasts, a heartbeat with that
  cookie value answers 200 with a lease that ends a lease period after it, and renews exactly that slot.
\<close>

theorem join_cookie_is_credential:
  assumes "joinable (ap_access a) w link eid ev j" and "link \<noteq> ''''"
    and "guest_request ''POST'' [] r" and "rq_Body r = Inr (JObj [(''invitation'', JStr link)])" and "rq_BodyBytes r \<le> 65536"
  shows "\<exists>rs w' ck. run (serveHTTP a r) w = (rs, w') \<and> rs_Status rs = 201 \<and> rs_Cookie rs = Some ck \<and> ck_HttpOnly ck \<and>
    mem_at (w_mem w) (slotKey eid j) = None \<and> mem_at (w_mem w') (slotKey eid j) \<noteq> None \<and>
    (\<forall>w2 h. w_mem w2 = w_mem w' \<and> guest_request ''POST'' [''heartbeat''] h \<and> rq_Cookie h = Some (ck_Value ck) \<and>
       w_clock w2 (w_ticks w2) < time_add (w_clock w (w_ticks w)) (sv_leaseTTL (ap_access a) + sv_gracePeriod (ap_access a)) \<longrightarrow>
       (\<exists>w3 sl rev. let lease = w_clock w2 (w_ticks w2) + sint (sv_leaseTTL (ap_access a))
          in run (serveHTTP a h) w2 = (securityHeaders (writeJSON 200 (JObj [(''lease_expires_at'', JTime lease)])), w3) \<and> sl_LeaseExpiresAt sl = lease \<and>
             mem_at (w_mem w3) = (mem_at (w_mem w2))(slotKey eid j \<mapsto> \<lparr>en_Value = VSlot sl, en_Revision = rev\<rparr>)))"
proof -
  let ?s = "ap_access a" and ?ix = "\<lparr>ix_Deleted = False, ix_EventID = eid, ix_Slot = j\<rparr>"
  from join_joinable [OF assms(1)] obtain ses sl w' x y where j: "run (StartSession ?s link) w = (Inr ses, w')"
    "digest ?s (ss_ResumeSecret ses) = sl_ResumeDigest sl" "sl_Cleanup sl = None"
    "sl_GraceExpiresAt sl = time_add (w_clock w (w_ticks w)) (sv_leaseTTL ?s + sv_gracePeriod ?s)"
    "mem_at (w_mem w') = (mem_at (w_mem w))(slotKey eid j \<mapsto> \<lparr>en_Value = VSlot sl, en_Revision = x\<rparr>,
      sessionKey (sl_ResumeDigest sl) \<mapsto> \<lparr>en_Value = VIndex ?ix, en_Revision = y\<rparr>)"
    by (elim exE conjE) (rule that)
  let ?rs = "securityHeaders (setResumeCookie a (ss_ResumeSecret ses) (writeJSON 201 (session_json ses)))"
  have run: "run (serveHTTP a r) w = (?rs, w')"
    using j(1) assms(2) by (simp add: run_serveHTTP serve_guest(1) [OF assms(3)] startSession_def decode_invitation [of "bodyLimit r" link] bodyLimit_body assms(4,5) run_answer)
  from assms(1) obtain n where ev: "mem_at (w_mem w) (eventKey eid) = Some \<lparr>en_Value = VEvent ev, en_Revision = n\<rparr>" "ev_State ev = Open"
    unfolding joinable_def by blast
  have ok: "renewable (w_mem w2) (digest ?s (ss_ResumeSecret ses)) (w_clock w2 (w_ticks w2)) ?ix ev sl"
    if "w_mem w2 = w_mem w'" "w_clock w2 (w_ticks w2) < time_add (w_clock w (w_ticks w)) (sv_leaseTTL ?s + sv_gracePeriod ?s)" for w2
    using that j(2-5) ev unfolding renewable_def by simp
  have beat: "\<exists>w3 sl' rev. let lease = w_clock w2 (w_ticks w2) + sint (sv_leaseTTL ?s)
      in run (serveHTTP a h) w2 = (securityHeaders (writeJSON 200 (JObj [(''lease_expires_at'', JTime lease)])), w3) \<and> sl_LeaseExpiresAt sl' = lease \<and>
         mem_at (w_mem w3) = (mem_at (w_mem w2))(slotKey eid j \<mapsto> \<lparr>en_Value = VSlot sl', en_Revision = rev\<rparr>)"
    if h: "w_mem w2 = w_mem w'" "guest_request ''POST'' [''heartbeat''] h" "rq_Cookie h = Some (ss_ResumeSecret ses)"
      "w_clock w2 (w_ticks w2) < time_add (w_clock w (w_ticks w)) (sv_leaseTTL ?s + sv_gracePeriod ?s)" for w2 h
    using heartbeat_served [OF ok [OF h(1,4)] h(2,3)]
    by (intro exI [of _ "snd (run (serveHTTP a h) w2)"] exI [of _ "renewed ?s sl (w_clock w2 (w_ticks w2))"] exI [of _ "me_revision (w_mem w2) + 1"])
       (simp add: Let_def time_add_def renewed_def)
  have "mem_at (w_mem w) (slotKey eid j) = None" using assms(1) unfolding joinable_def by blast
  moreover have "mem_at (w_mem w') (slotKey eid j) \<noteq> None" using j(5) by simp
  moreover obtain ck where ck: "rs_Cookie ?rs = Some ck" "ck_HttpOnly ck" "ck_Value ck = ss_ResumeSecret ses" "rs_Status ?rs = 201"
    by (simp add: setResumeCookie_def writeJSON_def)
  ultimately show ?thesis
    by (intro exI [of _ ?rs] exI [of _ w'] exI [of _ ck] conjI run ck(1,2,4)) (use beat ck(3) in simp_all)
qed

lemma joinable_demo: "joinable demo_service join_world (b64url (demo_bytes 0)) (demo_uuid 0) opened_event 1"
proof -
  have "\<exists>token. w_signer join_world q = Inr token" for q
    by (simp add: join_world_def opened_world_def created_world_def demo_world_def)
  moreover have "\<exists>bs. w_rand join_world i = Inr bs \<and> mem_at (w_mem join_world) (sessionKey (digest demo_service (b64url bs))) = None" for i
    using join_at(4) by (simp add: join_world_def)
  ultimately show ?thesis using join_at(1-3) unfolding joinable_def by auto
qed

definition joins :: request where
  "joins = demo_request ''POST'' [''v1'', ''guest-sessions''] '''' None (JObj [(''invitation'', JStr (b64url (demo_bytes 0)))])"

definition beats :: "string \<Rightarrow> request" where
  "beats secret = demo_request ''POST'' [''v1'', ''guest-sessions'', ''heartbeat''] '''' (Some secret) JNull"

theorem join_cookie_is_credential_witness:
  "\<exists>rs w' ck w3. run (serveHTTP demo_api joins) join_world = (rs, w') \<and> rs_Status rs = 201 \<and> rs_Cookie rs = Some ck \<and>
     run (serveHTTP demo_api (beats (ck_Value ck))) (w'\<lparr>w_clock := (\<lambda>_. 5)\<rparr>) =
       (securityHeaders (writeJSON 200 (JObj [(''lease_expires_at'', JTime (5 + sint (sv_leaseTTL demo_service)))])), w3)"
proof -
  have a: "joinable (ap_access demo_api) join_world (b64url (demo_bytes 0)) (demo_uuid 0) opened_event 1"
    using joinable_demo by (simp add: demo_api_def)
  have j: "guest_request ''POST'' [] joins" "rq_Body joins = Inr (JObj [(''invitation'', JStr (b64url (demo_bytes 0)))])"
    "guest_request ''POST'' [''heartbeat''] (beats s)" "rq_Cookie (beats s) = Some s" for s
    by (simp_all add: guest_request_def joins_def beats_def demo_request_def)
  have fits: "rq_BodyBytes joins \<le> 65536" by (simp add: joins_def demo_request_def)
  have ap: "ap_access demo_api = demo_service" by (simp add: demo_api_def)
  have five: "5 < time_add (w_clock join_world (w_ticks join_world)) (sv_leaseTTL demo_service + sv_gracePeriod demo_service)"
    by (simp add: time_add_def join_world_def opened_world_def created_world_def demo_world_def demo_service_def NewService_def second_def)
  have "b64url (demo_bytes 0) \<noteq> ''''" by (simp add: demo_bytes_def)
  from join_cookie_is_credential [OF a this j(1,2) fits] obtain rs w' ck where
    "run (serveHTTP demo_api joins) join_world = (rs, w')" "rs_Status rs = 201" "rs_Cookie rs = Some ck"
    and beat: "\<forall>w2 h. w_mem w2 = w_mem w' \<and> guest_request ''POST'' [''heartbeat''] h \<and> rq_Cookie h = Some (ck_Value ck) \<and>
       w_clock w2 (w_ticks w2) < time_add (w_clock join_world (w_ticks join_world)) (sv_leaseTTL (ap_access demo_api) + sv_gracePeriod (ap_access demo_api)) \<longrightarrow>
       (\<exists>w3 sl rev. let lease = w_clock w2 (w_ticks w2) + sint (sv_leaseTTL (ap_access demo_api))
          in run (serveHTTP demo_api h) w2 = (securityHeaders (writeJSON 200 (JObj [(''lease_expires_at'', JTime lease)])), w3) \<and> sl_LeaseExpiresAt sl = lease \<and>
             mem_at (w_mem w3) = (mem_at (w_mem w2))(slotKey (demo_uuid 0) 1 \<mapsto> \<lparr>en_Value = VSlot sl, en_Revision = rev\<rparr>))"
    by (elim exE conjE) (rule that)
  moreover have "\<exists>w3. run (serveHTTP demo_api (beats (ck_Value ck))) (w'\<lparr>w_clock := (\<lambda>_. 5)\<rparr>) =
       (securityHeaders (writeJSON 200 (JObj [(''lease_expires_at'', JTime (5 + sint (sv_leaseTTL demo_service)))])), w3)"
    using beat [rule_format, of "w'\<lparr>w_clock := (\<lambda>_. 5)\<rparr>" "beats (ck_Value ck)"] j(3,4) five
    by (auto simp: Let_def ap)
  ultimately show ?thesis by blast
qed

section \<open>Corner cases of the handlers\<close>

text \<open>
  The errors of the store are not those of the service, and are not mapped: releasing a slot that
  does not exist, and rotating an invitation while another writer updates the event, are
  answered as internal errors.
\<close>

lemma store_errors_are_internal:
  "writeAccessError a StoreNotFound = writeError 500 ''internal_error'' ''request failed''"
  "writeAccessError a StoreConflict = writeError 500 ''internal_error'' ''request failed''"
  by (simp_all add: writeAccessError_def access_status_def)

lemma release_of_missing_slot:
  assumes "mem_at (w_mem w) (eventKey eid) = Some \<lparr>en_Value = VEvent ev, en_Revision = n\<rparr>" and "can ev pr CapOperate" "ev_State ev \<noteq> Deleting"
    and "mem_at (w_mem w) (slotKey eid i) = None"
  shows "run (answer a (ReleaseSlot (ap_access a) pr eid i) f) w = (writeError 500 ''internal_error'' ''request failed'', w)"
proof -
  have "can_see ev pr" using assms(2) by (rule can_imp_can_see)
  then have "run (ReleaseSlot (ap_access a) pr eid i) w = (Inl StoreNotFound, w)"
    using assms by (simp add: ReleaseSlot_def GetEvent_def run_simps)
  then show ?thesis by (simp add: run_answer store_errors_are_internal)
qed

text \<open>A capacity that is missing from the body is zero, although the answer to a malformed body says it is required.\<close>

lemma missing_capacity_is_zero: "rq_Body r = Inr (JObj []) \<or> rq_Body r = Inr JNull \<Longrightarrow> decodeJSON r capacity_fields 0 = Inr 0"
  by (auto simp: decodeJSON_def decode_struct_def bind_err_simps)

text \<open>The other operations answer 405 to a wrong method, these two 400.\<close>

lemma wrong_method_on_put:
  "rq_Method r \<noteq> ''PUT'' \<Longrightarrow> event_operation a pr r eid ''capacity'' = Ret (invalid_request ''capacity is required'')"
  "rq_Method r \<noteq> ''PUT'' \<Longrightarrow> event_operation a pr r eid ''cohosts'' = Ret (invalid_request ''cohost is invalid'')"
  by (simp_all add: event_operation_def Let_def)

end
