(* ===== verification/Config.thy ===== *)
theory Config
  imports Service
begin

text \<open>
  The configuration of the process, internal/config/config.go. The environment is a function
  from variable names to values (os.Getenv: empty when unset). time.ParseDuration, whose
  fractions are rounded through floating point, is the argument \<open>parseDuration\<close>; nothing is
  assumed of it. strconv.Atoi and strconv.ParseBool are modelled.
\<close>

record config =
  cf_ListenAddress :: string
  cf_IssuerURL :: string
  cf_Audience :: string
  cf_PublicDemoURL :: string
  cf_NATSURL :: string
  cf_NATSCredentialsFile :: string
  cf_KVBucket :: string
  cf_CleanupSubject :: string
  cf_CleanupTimeout :: duration
  cf_CleanupInterval :: duration
  cf_CleanupBatchSize :: int
  cf_SigningKeyFile :: string
  cf_InvitationHMACKey :: string
  cf_TokenTTL :: duration
  cf_LeaseTTL :: duration
  cf_GracePeriod :: duration
  cf_MaxCapacity :: int
  cf_PresenterIssuerURL :: string
  cf_PresenterClientID :: string
  cf_PresenterGroup :: string
  cf_SecureCookies :: bool

section \<open>Reading one variable\<close>

type_synonym environment = "string \<Rightarrow> string"

definition getenv_or :: "environment \<Rightarrow> string \<Rightarrow> string \<Rightarrow> string" where
  "getenv_or env name fallback = (if env name \<noteq> '''' then env name else fallback)"

definition duration_var :: "environment \<Rightarrow> (string \<Rightarrow> err + duration) \<Rightarrow> string \<Rightarrow> duration \<Rightarrow> err + duration" where
  "duration_var env parseDuration name fallback =
     (if env name = '''' then Inr fallback
      else case parseDuration (env name) of Inl e \<Rightarrow> Inl (Wrapped name e) | Inr parsed \<Rightarrow> Inr parsed)"

definition integer_var :: "environment \<Rightarrow> string \<Rightarrow> int \<Rightarrow> err + int" where
  "integer_var env name fallback =
     (if env name = '''' then Inr fallback
      else case atoi (env name) of Inl e \<Rightarrow> Inl (Wrapped name e) | Inr parsed \<Rightarrow> Inr parsed)"

text \<open>strconv.ParseBool.\<close>

definition parse_bool :: "string \<Rightarrow> err + bool" where
  "parse_bool s =
     (if s \<in> {''1'', ''t'', ''T'', ''true'', ''TRUE'', ''True''} then Inr True
      else if s \<in> {''0'', ''f'', ''F'', ''false'', ''FALSE'', ''False''} then Inr False
      else Inl (ErrOther ''invalid syntax''))"

definition boolean_var :: "environment \<Rightarrow> string \<Rightarrow> bool \<Rightarrow> err + bool" where
  "boolean_var env name fallback =
     (if env name = '''' then Inr fallback
      else case parse_bool (env name) of Inl e \<Rightarrow> Inl (Wrapped name e) | Inr parsed \<Rightarrow> Inr parsed)"

section \<open>Loading\<close>

text \<open>The fields Load reads without an error, the rest as the zero Config has them.\<close>

definition string_vars :: "environment \<Rightarrow> config" where
  "string_vars env =
     \<lparr>cf_ListenAddress = getenv_or env ''NGA_LISTEN_ADDRESS'' '':8080'',
      cf_IssuerURL = trim_right (CHR ''/'') (env ''NGA_ISSUER_URL''),
      cf_Audience = getenv_or env ''NGA_AUDIENCE'' ''whengas-demo'',
      cf_PublicDemoURL = trim_right (CHR ''/'') (getenv_or env ''NGA_PUBLIC_DEMO_URL'' ''https://www.whengas.com/demo''),
      cf_NATSURL = getenv_or env ''NGA_NATS_URL'' ''nats://127.0.0.1:4222'',
      cf_NATSCredentialsFile = env ''NGA_NATS_CREDS_FILE'',
      cf_KVBucket = getenv_or env ''NGA_KV_BUCKET'' ''NATS_GUEST_ACCESS'',
      cf_CleanupSubject = env ''NGA_CLEANUP_SUBJECT'',
      cf_CleanupTimeout = 0, cf_CleanupInterval = 0, cf_CleanupBatchSize = 0,
      cf_SigningKeyFile = env ''NGA_SIGNING_KEY_FILE'',
      cf_InvitationHMACKey = env ''NGA_INVITATION_HMAC_KEY'',
      cf_TokenTTL = 0, cf_LeaseTTL = 0, cf_GracePeriod = 0, cf_MaxCapacity = 0,
      cf_PresenterIssuerURL = trim_right (CHR ''/'') (env ''NGA_PRESENTER_ISSUER_URL''),
      cf_PresenterClientID = env ''NGA_PRESENTER_CLIENT_ID'',
      cf_PresenterGroup = getenv_or env ''NGA_PRESENTER_GROUP'' ''demo-presenters'',
      cf_SecureCookies = False\<rparr>"

text \<open>The checks after everything was read, in their order.\<close>

definition validate :: "config \<Rightarrow> err + config" where
  "validate c =
     (if cf_IssuerURL c = '''' then Inl (ErrOther ''NGA_ISSUER_URL is required'')
      else if cf_SigningKeyFile c = '''' then Inl (ErrOther ''NGA_SIGNING_KEY_FILE is required'')
      else if length (cf_InvitationHMACKey c) < 32
        then Inl (ErrOther ''NGA_INVITATION_HMAC_KEY must be at least 32 characters'')
      else if sint (cf_TokenTTL c) \<le> 0 \<or> sint (cf_TokenTTL c) > sint (5 * minute)
        then Inl (ErrOther ''NGA_TOKEN_TTL must be between zero and five minutes'')
      else if sint (cf_LeaseTTL c) \<le> 0 \<or> sint (cf_GracePeriod c) < 0 \<or> sint (cf_CleanupTimeout c) \<le> 0 \<or> cf_MaxCapacity c < 0
        then Inl (ErrOther ''lease TTL must be positive; grace period and capacity cannot be negative'')
      else if (cf_PresenterIssuerURL c = '''') \<noteq> (cf_PresenterClientID c = '''')
        then Inl (ErrOther ''NGA_PRESENTER_ISSUER_URL and NGA_PRESENTER_CLIENT_ID must be configured together'')
      else Inr c)"

definition Load :: "environment \<Rightarrow> (string \<Rightarrow> err + duration) \<Rightarrow> err + config" where
  "Load env parseDuration =
     (let c = string_vars env; dur = duration_var env parseDuration
      in bind_err (dur ''NGA_TOKEN_TTL'' (5 * minute)) (\<lambda>tokenTTL.
         bind_err (dur ''NGA_LEASE_TTL'' (30 * second)) (\<lambda>leaseTTL.
         bind_err (dur ''NGA_GRACE_PERIOD'' (5 * minute)) (\<lambda>gracePeriod.
         bind_err (dur ''NGA_CLEANUP_TIMEOUT'' (30 * second)) (\<lambda>cleanupTimeout.
         bind_err (dur ''NGA_CLEANUP_INTERVAL'' (10 * second)) (\<lambda>cleanupInterval.
         bind_err (integer_var env ''NGA_CLEANUP_BATCH_SIZE'' 25) (\<lambda>batch.
           if sint cleanupInterval \<le> 0 \<or> batch < 1 \<or> batch > 1000
           then Inl (ErrOther ''cleanup interval must be positive and batch size between 1 and 1000'')
           else
             bind_err (integer_var env ''NGA_MAX_CAPACITY'' 100) (\<lambda>maxCapacity.
             bind_err (boolean_var env ''NGA_SECURE_COOKIES'' True) (\<lambda>secureCookies.
               validate (c\<lparr>cf_TokenTTL := tokenTTL, cf_LeaseTTL := leaseTTL, cf_GracePeriod := gracePeriod,
                           cf_CleanupTimeout := cleanupTimeout, cf_CleanupInterval := cleanupInterval,
                           cf_CleanupBatchSize := batch, cf_MaxCapacity := maxCapacity, cf_SecureCookies := secureCookies\<rparr>))))))))))"

section \<open>Every loaded configuration is valid\<close>

lemma sint_5_minutes: "sint (5 * minute) = 300000000000"
  by (simp add: minute_def second_def)

lemma trim_right_no_suffix: "\<not> suffix [c] (trim_right c s)"
proof (cases "dropWhile (\<lambda>x. x = c) (rev s)")
  case (Cons a xs)
  then have "a \<noteq> c" using hd_dropWhile [of "\<lambda>x. x = c" "rev s"] by simp
  with Cons show ?thesis by (simp add: trim_right_def suffix_def)
next
  case Nil
  then have "trim_right c s = []" unfolding trim_right_def by (simp only: rev.simps)
  then show ?thesis by simp
qed

definition valid_config :: "config \<Rightarrow> bool" where
  "valid_config c \<longleftrightarrow>
     cf_IssuerURL c \<noteq> '''' \<and> \<not> suffix ''/'' (cf_IssuerURL c) \<and> \<not> suffix ''/'' (cf_PublicDemoURL c) \<and> cf_SigningKeyFile c \<noteq> '''' \<and>
     32 \<le> length (cf_InvitationHMACKey c) \<and>
     0 < sint (cf_TokenTTL c) \<and> sint (cf_TokenTTL c) \<le> 300000000000 \<and> 0 < sint (cf_LeaseTTL c) \<and> 0 \<le> sint (cf_GracePeriod c) \<and>
     0 < sint (cf_CleanupTimeout c) \<and> 0 < sint (cf_CleanupInterval c) \<and> 1 \<le> cf_CleanupBatchSize c \<and> cf_CleanupBatchSize c \<le> 1000 \<and>
     0 \<le> cf_MaxCapacity c \<and> cf_MaxCapacity c < 2 ^ 63 \<and> (cf_PresenterIssuerURL c = '''' \<longleftrightarrow> cf_PresenterClientID c = '''')"

lemma atoi_range: "atoi s = Inr v \<Longrightarrow> v < 2 ^ 63"
proof -
  assume a: "atoi s = Inr v"
  obtain neg ds where "(case s of [] \<Rightarrow> (False, []) | c # cs \<Rightarrow> if c = CHR ''-'' then (True, cs)
      else if c = CHR ''+'' then (False, cs) else (False, s)) = (neg, ds)" by fastforce
  with a show ?thesis unfolding atoi_def by (simp add: Let_def split: if_splits option.splits)
qed

lemma integer_var_bound: "integer_var env name d = Inr n \<Longrightarrow> n = d \<or> n < 2 ^ 63"
  by (auto simp: integer_var_def split: if_splits sum.splits dest: atoi_range)

lemma validate_Inr:
  assumes "validate c = Inr c'"
  shows "c' = c \<and> cf_IssuerURL c \<noteq> '''' \<and> cf_SigningKeyFile c \<noteq> '''' \<and> 32 \<le> length (cf_InvitationHMACKey c) \<and>
    0 < sint (cf_TokenTTL c) \<and> sint (cf_TokenTTL c) \<le> 300000000000 \<and> 0 < sint (cf_LeaseTTL c) \<and> 0 \<le> sint (cf_GracePeriod c) \<and>
    0 < sint (cf_CleanupTimeout c) \<and> 0 \<le> cf_MaxCapacity c \<and> (cf_PresenterIssuerURL c = '''' \<longleftrightarrow> cf_PresenterClientID c = '''')"
  using assms unfolding validate_def sint_5_minutes by (simp split: if_splits)

lemma Load_Inr:
  assumes "Load env p = Inr c"
  obtains tokenTTL lease grace timeout interval batch cap secure where
    "0 < sint (interval :: duration)" "1 \<le> batch" "batch \<le> 1000" "integer_var env ''NGA_MAX_CAPACITY'' 100 = Inr cap"
    "validate ((string_vars env)\<lparr>cf_TokenTTL := tokenTTL, cf_LeaseTTL := lease, cf_GracePeriod := grace,
       cf_CleanupTimeout := timeout, cf_CleanupInterval := interval,
       cf_CleanupBatchSize := batch, cf_MaxCapacity := cap, cf_SecureCookies := secure\<rparr>) = Inr c"
proof -
  from assms obtain tokenTTL lease grace timeout interval batch where
    "(if sint interval \<le> 0 \<or> batch < 1 \<or> batch > 1000
      then Inl (ErrOther ''cleanup interval must be positive and batch size between 1 and 1000'')
      else bind_err (integer_var env ''NGA_MAX_CAPACITY'' 100) (\<lambda>cap. bind_err (boolean_var env ''NGA_SECURE_COOKIES'' True) (\<lambda>secure.
        validate ((string_vars env)\<lparr>cf_TokenTTL := tokenTTL, cf_LeaseTTL := lease, cf_GracePeriod := grace,
          cf_CleanupTimeout := timeout, cf_CleanupInterval := interval,
          cf_CleanupBatchSize := batch, cf_MaxCapacity := cap, cf_SecureCookies := secure\<rparr>)))) = Inr c"
    unfolding Load_def Let_def bind_err_Inr by blast
  then show ?thesis using that by (simp split: if_splits) (metis not_less)
qed

lemma Load_valid:
  assumes "Load env parseDuration = Inr c"
  shows "valid_config c"
proof -
  from assms obtain tokenTTL lease grace timeout interval batch cap secure where
    c: "0 < sint interval" "1 \<le> batch" "batch \<le> 1000" "integer_var env ''NGA_MAX_CAPACITY'' 100 = Inr cap"
    "validate ((string_vars env)\<lparr>cf_TokenTTL := tokenTTL, cf_LeaseTTL := lease, cf_GracePeriod := grace,
       cf_CleanupTimeout := timeout, cf_CleanupInterval := interval,
       cf_CleanupBatchSize := batch, cf_MaxCapacity := cap, cf_SecureCookies := secure\<rparr>) = Inr c"
    by (rule Load_Inr)
  from validate_Inr [OF c(5)] c(1-3) integer_var_bound [OF c(4)] show ?thesis
    unfolding valid_config_def by (auto simp: string_vars_def trim_right_no_suffix)
qed

text \<open>
  C30: the process never runs on a bad configuration. Whatever the environment holds and however
  durations parse, a configuration Load accepts has an issuer URL and a demo URL without trailing
  slash, a signing key file, an HMAC key of 32 characters or more, a token lifetime of at most
  five minutes, positive lease, cleanup timeout and interval, a batch between 1 and 1000, a
  capacity that is not negative, and presenter issuer and client id both or neither.
\<close>

theorem load_validates:
  assumes "Load env parseDuration = Inr c"
  shows "valid_config c"
  by (rule Load_valid [OF assms])

definition demo_env :: environment where
  "demo_env = (\<lambda>_. '''')(''NGA_ISSUER_URL'' := ''https://guests/'', ''NGA_SIGNING_KEY_FILE'' := ''key.pem'',
     ''NGA_INVITATION_HMAC_KEY'' := ''0123456789abcdef0123456789abcdef'', ''NGA_CLEANUP_SUBJECT'' := ''guest.cleanup'')"

lemma demo_load:
  "\<exists>c. Load demo_env p = Inr c \<and> cf_IssuerURL c = ''https://guests'' \<and> cf_MaxCapacity c = 100 \<and> cf_CleanupTimeout c = 30 * second \<and> cf_PresenterIssuerURL c = '''' \<and>
     cf_CleanupSubject c = ''guest.cleanup'' \<and> cf_LeaseTTL c = 30 * second \<and> cf_GracePeriod c = 5 * minute"
  by (simp add: Load_def Let_def demo_env_def duration_var_def integer_var_def boolean_var_def bind_err_simps validate_def
      string_vars_def getenv_or_def trim_right_def second_def minute_def)

theorem load_validates_witness:
  "\<exists>c. Load demo_env (\<lambda>_. Inl (ErrOther ''unused'')) = Inr c \<and> valid_config c \<and> cf_IssuerURL c = ''https://guests''"
  using demo_load [of "\<lambda>_. Inl (ErrOther ''unused'')"] load_validates [of demo_env "\<lambda>_. Inl (ErrOther ''unused'')"] by blast

end
