(* ===== verification/Controller.thy ===== *)
theory Controller
  imports Recovery_Facts
begin

text \<open>
  The recovery controller, internal/recovery/controller.go, over its interface Reconciler: it runs a reconciliation pass at the
  start and at every tick of its timer, and keeps counters and the last complete report for the
  metrics endpoint. The counters are 64-bit words, as in the code. The one minute after which a
  pass is cancelled is one of the replies a context check may give.
\<close>

section \<open>The controller\<close>

record controller =
  ct_interval :: duration
  ct_batch :: int
  ct_report :: recovery_report
  ct_passes :: "64 word"
  ct_completed :: "64 word"
  ct_failures :: "64 word"
  ct_lastSuccess :: time

definition NewController :: "duration \<Rightarrow> int \<Rightarrow> controller" where
  "NewController interval batch =
     \<lparr>ct_interval = interval, ct_batch = batch, ct_report = empty_report, ct_passes = 0, ct_completed = 0, ct_failures = 0,
      ct_lastSuccess = zero_time\<rparr>"

text \<open>The interface Reconciler of the controller is the argument \<open>reconcile\<close>.\<close>

type_synonym reconcile = "int \<Rightarrow> (recovery_report \<times> err option) prog"

definition Tick :: "reconcile \<Rightarrow> controller \<Rightarrow> controller prog" where
  "Tick reconcile c =
     prog_bind (reconcile (ct_batch c)) (\<lambda>(report, e).
       let c = c\<lparr>ct_passes := ct_passes c + 1,
                 ct_completed := ct_completed c + word_of_int (max 0 (rr_Completed report)),
                 ct_failures := ct_failures c + word_of_int (max 0 (rr_Failed report))\<rparr>
       in case e of
            None \<Rightarrow> DoNow (\<lambda>now. Ret (c\<lparr>ct_report := report, ct_lastSuccess := now\<rparr>))
          | Some _ \<Rightarrow> Ret (c\<lparr>ct_failures := ct_failures c + 1\<rparr>))"

text \<open>Run until the context is done, after \<open>n\<close> ticks of the timer.\<close>

primrec ticks :: "reconcile \<Rightarrow> nat \<Rightarrow> controller \<Rightarrow> controller prog" where
  "ticks reconcile 0 c = Ret c"
| "ticks reconcile (Suc n) c = prog_bind (Tick reconcile c) (ticks reconcile n)"

definition Run :: "reconcile \<Rightarrow> nat \<Rightarrow> controller \<Rightarrow> controller prog" where
  "Run reconcile n c =
     (if sint (ct_interval c) \<le> 0 \<or> ct_batch c < 1 then Ret c
      else prog_bind (Tick reconcile c) (ticks reconcile n))"

text \<open>The values the metrics endpoint prints; the oldest age is in nanoseconds here.\<close>

definition metrics :: "controller \<Rightarrow> (string \<times> int) list" where
  "metrics c =
     (let last_success = (if ct_lastSuccess c \<noteq> zero_time then ct_lastSuccess c div 1000000000 else 0)
      in [(''nga_cleanup_passes_total'', uint (ct_passes c)),
          (''nga_cleanup_completed_total'', uint (ct_completed c)),
          (''nga_cleanup_failures_total'', uint (ct_failures c)),
          (''nga_cleanup_pending'', rr_Pending (ct_report c)),
          (''nga_cleanup_oldest_seconds'', rr_Oldest (ct_report c)),
          (''nga_cleanup_last_success_timestamp_seconds'', last_success)])"

section \<open>Accounting\<close>

text \<open>
  The outcomes of \<open>n\<close> passes made one after the other: the report and the error of each, and the
  time it was over.
\<close>

type_synonym outcome = "recovery_report \<times> err option \<times> time"

primrec outcomes :: "reconcile \<Rightarrow> int \<Rightarrow> nat \<Rightarrow> world \<Rightarrow> outcome list" where
  "outcomes reconcile batch 0 w = []"
| "outcomes reconcile batch (Suc n) w =
     (case run (reconcile batch) w of ((report, e), w1) \<Rightarrow>
        (report, e, w_clock w1 (w_ticks w1)) #
        outcomes reconcile batch n (if e = None then w1\<lparr>w_ticks := w_ticks w1 + 1\<rparr> else w1))"

lemma length_outcomes [simp]: "length (outcomes reconcile batch n w) = n"
  by (induction n arbitrary: w) (auto split: prod.splits)

text \<open>The last complete report and its time, or what was there before.\<close>

fun latest :: "outcome list \<Rightarrow> recovery_report \<times> time \<Rightarrow> recovery_report \<times> time" where
  "latest [] d = d"
| "latest ((report, e, t) # os) d = latest os (if e = None then (report, t) else d)"

lemma latest_filter: "latest os d = fold (\<lambda>(report, e, t) _. (report, t)) (filter (\<lambda>(report, e, t). e = None) os) d"
  by (induction os d rule: latest.induct) auto

definition completed_sum :: "outcome list \<Rightarrow> int" where
  "completed_sum os = (\<Sum>(report, e, t) \<leftarrow> os. rr_Completed report)"

definition failures_sum :: "outcome list \<Rightarrow> int" where
  "failures_sum os = (\<Sum>(report, e, t) \<leftarrow> os. rr_Failed report + (if e = None then 0 else 1))"

lemma sums_simps [simp]:
  "completed_sum [] = 0" "completed_sum ((report, e, t) # os) = rr_Completed report + completed_sum os"
  "failures_sum [] = 0" "failures_sum ((report, e, t) # os) = rr_Failed report + (if e = None then 0 else 1) + failures_sum os"
  by (simp_all add: completed_sum_def failures_sum_def)

text \<open>
  What the controller needs of its Reconciler: whatever the environment answers, a report of
  nonnegative numbers, with no more attempts than the batch and the tasks, each of them
  completed, failed or left.
\<close>

locale reconciler =
  fixes reconcile :: reconcile
  assumes report: "always (\<lambda>(rep, e). \<exists>tasks. 0 \<le> tasks \<and> counted (max 0 batch) tasks rep \<and> rr_Attempted rep \<le> tasks) (reconcile batch)"
begin

lemma report_bounds:
  assumes "run (reconcile batch) w = ((rep, e), w1)"
  shows "0 \<le> rr_Completed rep" "0 \<le> rr_Failed rep" "rr_Completed rep + rr_Failed rep \<le> max 0 batch" "0 \<le> rr_Pending rep" "0 \<le> rr_Oldest rep"
  using always_run [OF report [of batch], where w = w] assms by (auto simp: counted_def)

lemma outcomes_bounds:
  "1 \<le> batch \<Longrightarrow> (report, e, t) \<in> set (outcomes reconcile batch n w) \<Longrightarrow>
   0 \<le> rr_Completed report \<and> 0 \<le> rr_Failed report \<and> rr_Completed report + rr_Failed report \<le> batch \<and> 0 \<le> rr_Pending report \<and> 0 \<le> rr_Oldest report"
proof (induction n arbitrary: w)
  case (Suc n)
  obtain rep e' w1 where r: "run (reconcile batch) w = ((rep, e'), w1)" by (metis prod.collapse)
  from report_bounds [OF r] Suc show ?case by (auto simp: r)
qed simp

lemma run_Tick:
  assumes "run (reconcile (ct_batch c)) w = ((rep, e), w1)"
  shows "run (Tick reconcile c) w =
    (let c' = c\<lparr>ct_passes := ct_passes c + 1, ct_completed := ct_completed c + word_of_int (rr_Completed rep),
               ct_failures := ct_failures c + word_of_int (rr_Failed rep + (if e = None then 0 else 1))\<rparr>
     in case e of None \<Rightarrow> (c'\<lparr>ct_report := rep, ct_lastSuccess := w_clock w1 (w_ticks w1)\<rparr>, w1\<lparr>w_ticks := w_ticks w1 + 1\<rparr>)
        | Some _ \<Rightarrow> (c', w1))"
  using report_bounds(1,2) [OF assms] assms by (simp add: Tick_def Let_def algebra_simps split: option.split)

lemma run_ticks_sums:
  assumes "1 \<le> ct_batch c"
  shows "case fst (run (ticks reconcile n c) w) of c' \<Rightarrow> case outcomes reconcile (ct_batch c) n w of os \<Rightarrow>
    ct_passes c' = ct_passes c + of_nat n \<and> ct_completed c' = ct_completed c + word_of_int (completed_sum os) \<and>
    ct_failures c' = ct_failures c + word_of_int (failures_sum os) \<and>
    (ct_report c', ct_lastSuccess c') = latest os (ct_report c, ct_lastSuccess c)"
  using assms
proof (induction n arbitrary: c w)
  case (Suc n)
  obtain rep e w1 where r: "run (reconcile (ct_batch c)) w = ((rep, e), w1)" by (metis prod.collapse)
  obtain c1 w2 where c1: "run (Tick reconcile c) w = (c1, w2)" by fastforce
  with run_Tick [OF r] have w2: "w2 = (if e = None then w1\<lparr>w_ticks := w_ticks w1 + 1\<rparr> else w1)"
    and sel: "ct_batch c1 = ct_batch c" "ct_passes c1 = ct_passes c + 1" "ct_completed c1 = ct_completed c + word_of_int (rr_Completed rep)"
      "ct_failures c1 = ct_failures c + word_of_int (rr_Failed rep + (if e = None then 0 else 1))"
      "(ct_report c1, ct_lastSuccess c1) = (if e = None then (rep, w_clock w1 (w_ticks w1)) else (ct_report c, ct_lastSuccess c))"
    by (auto simp: Let_def split: option.splits)
  from Suc.IH [of c1 w2] Suc.prems sel(1) have
    "case fst (run (ticks reconcile n c1) w2) of c' \<Rightarrow> case outcomes reconcile (ct_batch c) n w2 of os \<Rightarrow>
      ct_passes c' = ct_passes c1 + of_nat n \<and> ct_completed c' = ct_completed c1 + word_of_int (completed_sum os) \<and>
      ct_failures c' = ct_failures c1 + word_of_int (failures_sum os) \<and>
      (ct_report c', ct_lastSuccess c') = latest os (ct_report c1, ct_lastSuccess c1)" by simp
  then show ?case by (simp add: c1 r w2 [symmetric] sel algebra_simps)
qed simp

end

text \<open>The service is such a Reconciler.\<close>

interpretation service_passes: reconciler "Reconcile s" for s
  by unfold_locales (rule reconcile_always)

text \<open>
  C31: the controller's evidence adds up. After a first pass and n ticks the counters are, as
  64-bit words, the number of passes, the sum of what the passes report completed, and the sum of
  what they report failed with one for every pass that ended in an error; the report and the time
  of the last success are those of the last pass without an error. No pass adds more than its
  batch, and no number it reports is negative.
\<close>

theorem controller_accounts:
  assumes "0 < sint interval" and "1 \<le> batch"
    and "os = outcomes (Reconcile s) batch (Suc n) w" and "c = fst (run (Run (Reconcile s) n (NewController interval batch)) w)"
  shows "length os = Suc n \<and> ct_passes c = word_of_int (int (length os)) \<and>
    ct_completed c = word_of_int (\<Sum>(report, e, t) \<leftarrow> os. rr_Completed report) \<and>
    ct_failures c = word_of_int (\<Sum>(report, e, t) \<leftarrow> os. rr_Failed report + (if e = None then 0 else 1)) \<and>
    (ct_report c, ct_lastSuccess c) = fold (\<lambda>(report, e, t) _. (report, t)) (filter (\<lambda>(report, e, t). e = None) os) (empty_report, zero_time) \<and>
    (\<forall>(report, e, t) \<in> set os. 0 \<le> rr_Completed report \<and> 0 \<le> rr_Failed report \<and> rr_Completed report + rr_Failed report \<le> batch \<and>
      0 \<le> rr_Pending report \<and> 0 \<le> rr_Oldest report)"
proof -
  let ?c = "NewController interval batch"
  have sel: "ct_batch ?c = batch" "ct_passes ?c = 0" "ct_completed ?c = 0" "ct_failures ?c = 0" "(ct_report ?c, ct_lastSuccess ?c) = (empty_report, zero_time)"
    by (simp_all add: NewController_def)
  have "Run (Reconcile s) n ?c = ticks (Reconcile s) (Suc n) ?c" using assms(1,2) by (simp add: Run_def NewController_def)
  moreover have "1 \<le> ct_batch ?c" using assms(2) by (simp add: sel)
  ultimately show ?thesis
    using service_passes.run_ticks_sums [of ?c s "Suc n" w] service_passes.outcomes_bounds [OF assms(2), of _ _ _ s "Suc n" w]
    unfolding assms(3,4) sel completed_sum_def [symmetric] failures_sum_def [symmetric] latest_filter [symmetric]
    by (auto simp del: outcomes.simps ticks.simps)
qed

theorem controller_accounts_witness:
  "case fst (run (Run (Reconcile demo_service) 2 (NewController (10 * second) 25)) joined_world) of c \<Rightarrow>
     uint (ct_passes c) = 3 \<and> ct_completed c = word_of_int (\<Sum>(report, e, t) \<leftarrow> outcomes (Reconcile demo_service) 25 3 joined_world. rr_Completed report)"
proof -
  have "0 < sint (10 * second)" by (simp add: second_def)
  from controller_accounts [OF this _ refl refl, of 25 demo_service 2 joined_world] show ?thesis
    by (simp add: numeral_3_eq_3 [symmetric] del: outcomes.simps)
qed

end
