(* ===== verification/Nats_Store.thy ===== *)
theory Nats_Store
  imports Recovery_Facts
begin

text \<open>
  The NATS implementation of the store, internal/store/nats.go: a thin adapter of a JetStream
  key-value bucket to the Store interface. The bucket is a package the repository only calls:
  its operations are the fields of a record the adapter takes, and what its documentation
  promises of them is the predicate \<open>jetstream_laws\<close>, with the failures of a network and the
  markers deletions leave. Under it the adapter keeps the contract \<open>shared_store\<close>, for the keys
  JetStream accepts; the service's own keys are such keys.
\<close>

section \<open>The bucket\<close>

datatype js_err = KeyNotFound | KeyDeleted | KeyExists | KeyRevisionMismatch | NoKeysFound | BucketNotFound | JsOther string


definition js_error :: "js_err \<Rightarrow> err" where
  "js_error e = (case e of JsOther m \<Rightarrow> ErrOther m | _ \<Rightarrow> ErrOther ''jetstream'')"

section \<open>The adapter\<close>

text \<open>The configuration of the bucket NewNATS creates when it does not exist.\<close>

record bucket_config =
  bk_Bucket :: string
  bk_Description :: string
  bk_History :: nat
  bk_FileStorage :: bool

definition NewNATS :: "(string \<Rightarrow> js_err + 'kv) \<Rightarrow> (bucket_config \<Rightarrow> js_err + 'kv) \<Rightarrow> string \<Rightarrow> err + 'kv" where
  "NewNATS keyValue createKeyValue bucket =
     (let kv = (case keyValue bucket of
           Inl e \<Rightarrow> if e = BucketNotFound
             then createKeyValue \<lparr>bk_Bucket = bucket, bk_Description = ''Anonymous guest events, slots, and session indexes'',
                    bk_History = 1, bk_FileStorage = True\<rparr>
             else Inl e
         | Inr kv \<Rightarrow> Inr kv)
      in case kv of Inl e \<Rightarrow> Inl (js_error e) | Inr kv \<Rightarrow> Inr kv)"








section \<open>What JetStream documents\<close>

text \<open>A key JetStream accepts: letters, digits and \<open>-/_=.\<close>, not empty, no dot at either end.\<close>

definition key_char :: "char \<Rightarrow> bool" where
  "key_char c \<longleftrightarrow> (let n = of_char c :: nat in (97 \<le> n \<and> n \<le> 122) \<or> (65 \<le> n \<and> n \<le> 90) \<or> (48 \<le> n \<and> n \<le> 57)) \<or> c \<in> set ''-/_=.''"

definition nats_key :: "string \<Rightarrow> bool" where
  "nats_key k \<longleftrightarrow> k \<noteq> [] \<and> list_all key_char k \<and> hd k \<noteq> CHR ''.'' \<and> last k \<noteq> CHR ''.''"











section \<open>The adapter keeps the contract of the store\<close>

lemma js_error_is [simp]: "\<not> errors_is (js_error e) StoreNotFound" "\<not> errors_is (js_error e) StoreConflict" "\<not> errors_is (js_error e) StoreExists"
  by (cases e; simp add: js_error_def)+








section \<open>A bucket\<close>

text \<open>
  A bucket of history 1 with markers: the last message of every key, which has a sequence number
  and a value or none. When its servers cannot be reached, an update is stored and its
  acknowledgement lost, a create and a read get nowhere.
\<close>

record bucket =
  bu_up :: bool
  bu_seq :: nat
  bu_keys :: "(string \<times> nat \<times> val option) list"













section \<open>The service's keys\<close>

text \<open>The ids and digests the service makes give keys that JetStream accepts.\<close>

lemma hex_key_char: "list_all (\<lambda>c. key_char c \<and> c \<noteq> CHR ''.'') (hex_encode bs)"
proof (induction bs)
  case (Cons b bs)
  have "key_char (hex_digit n) \<and> hex_digit n \<noteq> CHR ''.''" if "n < 16" for n
  proof -
    have "hex_digit n \<in> set ''0123456789abcdef''" using that unfolding hex_digit_def by (intro nth_mem) simp
    then show ?thesis by (auto simp: key_char_def)
  qed
  with Cons byte_less [of b] show ?case by (simp add: div_less_iff_less_mult)
qed simp

lemma service_keys_accepted:
  "uuid_format eid \<Longrightarrow> nats_key (eventKey eid)" "uuid_format eid \<Longrightarrow> nats_key (receiptKey eid)"
  "uuid_format eid \<Longrightarrow> 0 \<le> i \<Longrightarrow> nats_key (slotKey eid i)"
  "sv_mac s (sv_hmacKey s) x \<noteq> [] \<Longrightarrow> nats_key (invitationKey (digest s x)) \<and> nats_key (sessionKey (digest s x))"
proof -
  have u: "list_all key_char eid \<and> last eid \<noteq> CHR ''.'' \<and> eid \<noteq> []" if "uuid_format eid"
  proof -
    have ne: "eid \<noteq> []" using that by (auto simp: uuid_format_def)
    have "key_char c" if "c \<in> set ''0123456789abcdef-''" for c
      using that unfolding key_char_def by (simp, elim disjE, simp_all)
    then have "list_all key_char eid"
      using that unfolding uuid_format_def by (blast intro: list.pred_mono_strong)
    with ne uuid_no_dot [OF that] last_in_set [OF ne] show ?thesis by metis
  qed
  show "nats_key (eventKey eid)" "nats_key (receiptKey eid)" if "uuid_format eid"
    using u [OF that] by (simp_all add: nats_key_def eventKey_def receiptKey_def key_char_def)
  show "nats_key (slotKey eid i)" if "uuid_format eid" "0 \<le> i"
  proof -
    have zero: "CHR ''0'' \<in> digit ` {..<10}" by (rule image_eqI [of _ _ 0]) (simp_all add: digit_def)
    have "set (format_03d i) \<subseteq> digit ` {..<10}" "format_03d i \<noteq> []"
      using decimal_chars [of "nat i"] that(2) zero by (auto simp: format_03d_def pad_left_def)
    moreover have "key_char (digit n) \<and> digit n \<noteq> CHR ''.''" if "n < 10" for n
      using digit_cases [OF that] by (auto simp: digit_def key_char_def)
    ultimately have "list_all key_char (format_03d i)" and ne: "format_03d i \<noteq> []"
      by (auto simp: list_all_iff)
    moreover have "last (format_03d i) \<noteq> CHR ''.''" using last_in_set [OF ne] format_03d_no_dot by metis
    ultimately have "list_all key_char (format_03d i) \<and> last (format_03d i) \<noteq> CHR ''.''" "format_03d i \<noteq> []" by blast+
    with u [OF that(1)] show ?thesis by (simp add: nats_key_def slotKey_def key_char_def)
  qed
  show "nats_key (invitationKey (digest s x)) \<and> nats_key (sessionKey (digest s x))" if "sv_mac s (sv_hmacKey s) x \<noteq> []"
  proof -
    have ne: "digest s x \<noteq> []" using that by (cases "sv_mac s (sv_hmacKey s) x") (simp_all add: digest_def)
    have "list_all (\<lambda>c. key_char c \<and> c \<noteq> CHR ''.'') (digest s x)" unfolding digest_def by (rule hex_key_char)
    with ne last_in_set [OF ne] show ?thesis
      by (auto simp: nats_key_def invitationKey_def sessionKey_def key_char_def list_all_iff)
  qed
qed

end
