(* ===== verification/Cleanup_Client.thy ===== *)
theory Cleanup_Client
  imports Recovery_Facts
begin

text \<open>
  The client of the application's cleanup responder, internal/cleanup/nats.go. The request over
  NATS is a package the repository only calls: it is the argument \<open>request\<close>, from the subject and
  the request document to an error, or to the decoding of the message that came back.
\<close>

section \<open>Request and reply\<close>

record cleanup_request =
  cq_SchemaVersion :: int
  cq_DeletionID :: string
  cq_ApplicationID :: string
  cq_EventID :: string
  cq_GuestSubjects :: "string list"
  cq_Reason :: string

record cleanup_response =
  cp_SchemaVersion :: int
  cp_DeletionID :: string
  cp_ApplicationID :: string
  cp_Status :: string
  cp_IdentitiesProcessed :: int
  cp_Error :: string

record cleanup_client =
  cn_subject :: string
  cn_timeout :: duration

text \<open>The constructor returns nil for an empty subject.\<close>

definition NewCleanup :: "string \<Rightarrow> duration \<Rightarrow> cleanup_client option" where
  "NewCleanup subject timeout = (if subject = '''' then None else Some \<lparr>cn_subject = subject, cn_timeout = timeout\<rparr>)"

text \<open>The request of a call; \<open>fresh\<close> is the UUID drawn when the call has no deletion id of its own.\<close>

definition cleanup_payload :: "string \<Rightarrow> cleanup_call \<Rightarrow> cleanup_request" where
  "cleanup_payload fresh q =
     \<lparr>cq_SchemaVersion = 1, cq_DeletionID = (if cc_DeletionID q = '''' then fresh else cc_DeletionID q),
      cq_ApplicationID = cc_ApplicationID q, cq_EventID = cc_EventID q, cq_GuestSubjects = cc_Subjects q,
      cq_Reason = cc_Reason q\<rparr>"

definition Cleanup ::
  "(string \<Rightarrow> cleanup_request \<Rightarrow> err + (err + cleanup_response)) \<Rightarrow> cleanup_client \<Rightarrow> string \<Rightarrow> cleanup_call \<Rightarrow> err + int" where
  "Cleanup request n fresh q =
     (let payload = cleanup_payload fresh q
      in case request (cn_subject n @ ''.'' @ cc_ApplicationID q) payload of
           Inl e \<Rightarrow> Inl (Wrapped ''request application cleanup'' e)
         | Inr message \<Rightarrow> (case message of
             Inl e \<Rightarrow> Inl (Wrapped ''decode application cleanup response'' e)
           | Inr response \<Rightarrow>
               if cp_SchemaVersion response \<noteq> 1 \<or> cp_DeletionID response \<noteq> cq_DeletionID payload \<or>
                  cp_ApplicationID response \<noteq> cc_ApplicationID q
               then Inl (ErrOther ''application cleanup response correlation mismatch'')
               else if cp_Status response \<noteq> ''complete'' then Inl (ErrOther (''application cleanup failed: '' @ cp_Error response))
               else if cp_IdentitiesProcessed response \<noteq> int (length (cc_Subjects q))
               then Inl (ErrOther ''application cleanup did not acknowledge every identity'')
               else Inr (cp_IdentitiesProcessed response)))"

section \<open>Acknowledgements\<close>

text \<open>The responder answered the request for \<open>q\<close> in full: same ids, status complete, every identity.\<close>

definition acknowledged_in_full ::
  "(string \<Rightarrow> cleanup_request \<Rightarrow> err + (err + cleanup_response)) \<Rightarrow> cleanup_client \<Rightarrow> string \<Rightarrow> cleanup_call \<Rightarrow> bool" where
  "acknowledged_in_full request n fresh q \<longleftrightarrow>
     (\<exists>response. request (cn_subject n @ ''.'' @ cc_ApplicationID q) (cleanup_payload fresh q) = Inr (Inr response) \<and>
        cp_SchemaVersion response = 1 \<and> cp_DeletionID response = cq_DeletionID (cleanup_payload fresh q) \<and>
        cp_ApplicationID response = cc_ApplicationID q \<and> cp_Status response = ''complete'' \<and>
        cp_IdentitiesProcessed response = int (length (cc_Subjects q)))"

lemma Cleanup_Inr: "Cleanup request n fresh q = Inr c \<Longrightarrow> acknowledged_in_full request n fresh q \<and> c = int (length (cc_Subjects q))"
  by (auto simp: Cleanup_def acknowledged_in_full_def Let_def split: sum.splits if_splits)

lemma cleanSlot_Inr:
  assumes "run (cleanSlot s ev sl n) w = (Inr (), w')"
  shows "\<exists>q. w_cleanups w' = w_cleanups w @ [q] \<and> cc_Subjects q = [sl_Subject sl] \<and> cc_EventID q = ev_ID ev \<and> w_cleaner w q = Inr 1"
proof -
  let ?k = "slotKey (ev_ID ev) (sl_Number sl)" and ?p = "claim_base (sl_Cleanup sl) (w_uuid w (w_uuids w)) (w_clock w (w_ticks w))"
  have cl: "sv_cleaner s" using assms by (auto simp: cleanSlot_def split: if_splits)
  have "\<exists>en. mem_at (w_mem w) ?k = Some en \<and> en_Revision en = n"
  proof (rule ccontr)
    assume "\<not> ?thesis"
    then have "\<exists>e. mem_update (w_mem w) ?k v n = (Inl e, w_mem w)" for v by (auto simp: mem_update_def mem_at_def split: option.splits)
    then obtain e where "\<And>v. mem_update (w_mem w) ?k v n = (Inl (e v), w_mem w)" by metis
    with assms cl show False
      by (cases "sl_Cleanup sl = None") (auto simp: cleanSlot_def run_claimCleanup Let_def split: sum.splits)
  qed
  then obtain en where at: "mem_at (w_mem w) ?k = Some en" "en_Revision en = n" by blast
  have due: "\<not> before (w_clock w (w_ticks w)) (pg_NextAttemptAt ?p)"
  proof
    assume "before (w_clock w (w_ticks w)) (pg_NextAttemptAt ?p)"
    with assms cl show False by (simp add: cleanSlot_def run_claimCleanup claim_next_def)
  qed
  have ack: "w_cleaner w (slot_call ev sl ?p) = Inr 1"
  proof (rule ccontr)
    assume "w_cleaner w (slot_call ev sl ?p) \<noteq> Inr 1"
    from run_cleanSlot_failed [OF cl at refl due this] assms show False by auto
  qed
  from run_cleanSlot_ok [OF cl at refl due ack] assms have "w_cleanups w' = w_cleanups w @ [slot_call ev sl ?p]" by auto
  with ack show ?thesis by (auto simp: slot_call_def)
qed

text \<open>
  What the service relies on in its Cleaner: a success counts every identity of the call and
  means that the application acknowledged it, which is the predicate \<open>acked\<close>. A freed slot was
  then acknowledged.
\<close>

locale cleaner =
  fixes cleanup :: "cleanup_call \<Rightarrow> err + int" and acked :: "cleanup_call \<Rightarrow> bool"
  assumes success: "cleanup q = Inr c \<Longrightarrow> acked q \<and> c = int (length (cc_Subjects q))"
begin

lemma freed_slot_acked:
  assumes "w_cleaner w = cleanup" and "run (cleanSlot s ev sl rv) w = (Inr (), w')"
  shows "\<exists>q. w_cleanups w' = w_cleanups w @ [q] \<and> cc_Subjects q = [sl_Subject sl] \<and> cc_EventID q = ev_ID ev \<and> acked q"
  using cleanSlot_Inr [OF assms(2)] success assms(1) by metis

lemma miscount_is_refused: "c \<noteq> int (length (cc_Subjects q)) \<Longrightarrow> cleanup q \<noteq> Inr c"
  using success by blast

end

text \<open>The NATS client is such a Cleaner.\<close>

interpretation nats_cleaner: cleaner "Cleanup request n fresh" "acknowledged_in_full request n fresh" for request n fresh
  by unfold_locales (rule Cleanup_Inr)

text \<open>
  C29: a slot is freed only on the application's word. With the NATS client as the service's
  cleaner, a cleanup of a slot succeeds only if the responder on the application's subject
  answered a request for exactly that guest with the same deletion and application id, status
  complete and one identity; a late, foreign, partial or failed answer never frees a slot.
\<close>

theorem freed_slot_was_acknowledged:
  assumes "w_cleaner w = Cleanup request n fresh" and "run (cleanSlot s ev sl rv) w = (Inr (), w')"
  shows "\<exists>q. w_cleanups w' = w_cleanups w @ [q] \<and> cc_Subjects q = [sl_Subject sl] \<and> cc_EventID q = ev_ID ev \<and>
    acknowledged_in_full request n fresh q"
  using assms by (rule nats_cleaner.freed_slot_acked)

definition demo_responder :: "string \<Rightarrow> cleanup_request \<Rightarrow> err + (err + cleanup_response)" where
  "demo_responder subject r = Inr (Inr \<lparr>cp_SchemaVersion = 1, cp_DeletionID = cq_DeletionID r, cp_ApplicationID = cq_ApplicationID r,
     cp_Status = ''complete'', cp_IdentitiesProcessed = int (length (cq_GuestSubjects r)), cp_Error = ''''\<rparr>)"

definition demo_client :: cleanup_client where
  "demo_client = \<lparr>cn_subject = ''guest.cleanup'', cn_timeout = 30 * second\<rparr>"

definition client_world :: world where
  "client_world = joined_world\<lparr>w_cleaner := Cleanup demo_responder demo_client (demo_uuid 9)\<rparr>"

theorem freed_slot_was_acknowledged_witness:
  "\<exists>w' (q :: cleanup_call). run (cleanSlot demo_service opened_event joined_slot 4) client_world = (Inr (), w') \<and> w_cleanups w' = w_cleanups client_world @ [q] \<and>
     acknowledged_in_full demo_responder demo_client (demo_uuid 9) q"
proof -
  let ?p = "claim_base (sl_Cleanup joined_slot) (w_uuid client_world (w_uuids client_world)) (w_clock client_world (w_ticks client_world))"
  have at: "mem_at (w_mem client_world) (slotKey (ev_ID opened_event) (sl_Number joined_slot)) = Some \<lparr>en_Value = VSlot joined_slot, en_Revision = 4\<rparr>"
    using joined_slot_at by (simp add: client_world_def)
  have due: "\<not> before (w_clock client_world (w_ticks client_world)) (pg_NextAttemptAt ?p)"
    unfolding joined_claim by (simp add: before_def client_world_def joined_clock zero_time_def)
  have ack: "w_cleaner client_world (slot_call opened_event joined_slot ?p) = Inr 1"
    by (simp add: client_world_def Cleanup_def cleanup_payload_def demo_responder_def demo_client_def slot_call_def Let_def)
  from run_cleanSlot_ok [OF demo_service_sel(2) at _ refl due ack, of 4] obtain w' where
    w': "run (cleanSlot demo_service opened_event joined_slot 4) client_world = (Inr (), w')" by auto
  from freed_slot_was_acknowledged [OF _ w', of demo_responder demo_client "demo_uuid 9"] w' show ?thesis by (auto simp: client_world_def)
qed

end
