(* ===== verification/Startup.thy ===== *)
theory Startup
  imports Config Controller Nats_Store Cleanup_Client Api
begin

text \<open>
  The process, cmd/nats-guest-access/main.go, and what it builds at its start: the signing key of
  the issuer (issuer.go, Load and New), the presenter verifier, and the service, the controller
  and the API wired from the configuration. Files, PEM, X.509, JWK and the NATS and OIDC
  connections are packages the code calls: they are the fields of \<open>platform\<close>.
\<close>

section \<open>The signing key\<close>

text \<open>A parsed private key: an ECDSA key with the name of its curve, or a key of another kind.\<close>

datatype 'k private_key = Ecdsa string 'k | OtherKey

text \<open>A public key of the issuer: curve key, key id, algorithm and use.\<close>

record 'k public_jwk =
  jk_Key :: 'k
  jk_KeyID :: string
  jk_Algorithm :: string
  jk_Use :: string

record ('k, 'kv) platform =
  pf_readFile :: "string \<Rightarrow> err + string"
  pf_pemDecode :: "string \<Rightarrow> string option"
  pf_parsePKCS8 :: "string \<Rightarrow> err + 'k private_key"
  pf_parseEC :: "string \<Rightarrow> err + string \<times> 'k"
  pf_thumbprint :: "'k \<Rightarrow> err + 8 word list"
  pf_newSigner :: "'k \<Rightarrow> string \<Rightarrow> err + unit"
  pf_connect :: "string \<Rightarrow> string option \<Rightarrow> err + unit" \<comment> \<open>URL, credentials file\<close>
  pf_jetstream :: "err + unit"
  pf_keyValue :: "string \<Rightarrow> js_err + 'kv"
  pf_createKeyValue :: "bucket_config \<Rightarrow> js_err + 'kv"
  pf_newProvider :: "string \<Rightarrow> err + (string \<Rightarrow> string \<Rightarrow> err + (err + string \<times> string list))"
  pf_mac :: "string \<Rightarrow> string \<Rightarrow> 8 word list"
  pf_text :: "err \<Rightarrow> string"
  pf_encodeJWK :: "'k public_jwk \<Rightarrow> json"

definition curve_error :: err where
  "curve_error = ErrOther ''signing key must be an ECDSA P-256 private key''"

definition NewIssuer :: "('k, 'kv) platform \<Rightarrow> string \<times> 'k \<Rightarrow> string \<Rightarrow> string \<Rightarrow> duration \<Rightarrow> err + issuer \<times> 'k public_jwk" where
  "NewIssuer pf key url aud ttl =
     (let (curve, k) = key
      in if curve \<noteq> ''P-256'' then Inl curve_error
         else case pf_thumbprint pf k of
           Inl e \<Rightarrow> Inl (Wrapped ''calculate key ID'' e)
         | Inr thumbprint \<Rightarrow>
             let kid = hex_encode (take 8 thumbprint)
             in case pf_newSigner pf k kid of
                  Inl e \<Rightarrow> Inl (Wrapped ''create signer'' e)
                | Inr _ \<Rightarrow> Inr (\<lparr>is_issuerURL = url, is_audience = aud, is_ttl = ttl\<rparr>,
                                 \<lparr>jk_Key = k, jk_KeyID = kid, jk_Algorithm = ''ES256'', jk_Use = ''sig''\<rparr>))"

definition parse_key :: "('k, 'kv) platform \<Rightarrow> string \<Rightarrow> err + 'k private_key" where
  "parse_key pf block =
     (case pf_parsePKCS8 pf block of
        Inr key \<Rightarrow> Inr key
      | Inl e \<Rightarrow> (case pf_parseEC pf block of
            Inr (curve, k) \<Rightarrow> Inr (Ecdsa curve k)
          | Inl _ \<Rightarrow> Inl (Wrapped ''parse signing key'' e)))"

definition LoadIssuer :: "('k, 'kv) platform \<Rightarrow> string \<Rightarrow> string \<Rightarrow> string \<Rightarrow> duration \<Rightarrow> err + issuer \<times> 'k public_jwk" where
  "LoadIssuer pf keyFile url aud ttl =
     (case pf_readFile pf keyFile of
        Inl e \<Rightarrow> Inl (Wrapped ''read signing key'' e)
      | Inr data \<Rightarrow> (case pf_pemDecode pf data of
          None \<Rightarrow> Inl (ErrOther ''signing key is not PEM'')
        | Some block \<Rightarrow> bind_err (parse_key pf block) (\<lambda>key. case key of
            OtherKey \<Rightarrow> Inl curve_error
          | Ecdsa curve k \<Rightarrow> if curve \<noteq> ''P-256'' then Inl curve_error else NewIssuer pf (curve, k) url aud ttl)))"

definition NewPresenterVerifier :: "('k, 'kv) platform \<Rightarrow> string \<Rightarrow> string \<Rightarrow> string \<Rightarrow> err + presenter_verifier option" where
  "NewPresenterVerifier pf url clientID grp =
     (if url = '''' then Inr None
      else case pf_newProvider pf url of
        Inl e \<Rightarrow> Inl e
      | Inr verifier \<Rightarrow> Inr (Some \<lparr>pv_verify = verifier clientID, pv_group = grp\<rparr>))"

section \<open>Wiring\<close>

record 'kv process =
  pr_store :: 'kv
  pr_cleaner :: "cleanup_client option"
  pr_service :: service
  pr_controller :: controller
  pr_api :: api

definition wrap_err :: "string \<Rightarrow> err + 'a \<Rightarrow> err + 'a" where
  "wrap_err m r = (case r of Inl e \<Rightarrow> Inl (Wrapped m e) | Inr x \<Rightarrow> Inr x)"

definition wire :: "('k, 'kv) platform \<Rightarrow> nat \<Rightarrow> config \<Rightarrow> issuer \<times> 'k public_jwk \<Rightarrow> 'kv \<Rightarrow> presenter_verifier option \<Rightarrow> 'kv process" where
  "wire pf fuel cfg tokenIssuer repository presenters =
     (let cleaner = (if cf_CleanupSubject cfg \<noteq> '''' then NewCleanup (cf_CleanupSubject cfg) (cf_CleanupTimeout cfg) else None);
          s = NewService (fst tokenIssuer) (pf_mac pf) (cf_InvitationHMACKey cfg) (cf_PublicDemoURL cfg) (cf_MaxCapacity cfg)
                (cf_LeaseTTL cfg) (cf_GracePeriod cfg) (cleaner \<noteq> None);
          s = ConfigureCleanupLease s (cf_CleanupTimeout cfg)
      in \<lparr>pr_store = repository, pr_cleaner = cleaner, pr_service = s,
          pr_controller = NewController (cf_CleanupInterval cfg) (cf_CleanupBatchSize cfg),
          pr_api = \<lparr>ap_access = s, ap_issuer = fst tokenIssuer, ap_publicJWK = pf_encodeJWK pf (snd tokenIssuer), ap_presenters = presenters,
                    ap_secureCookies = cf_SecureCookies cfg, ap_text = pf_text pf, ap_fuel = fuel\<rparr>\<rparr>)"

text \<open>The start of \<open>run\<close>, up to the handlers: every step may end it with an error.\<close>

definition start :: "('k, 'kv) platform \<Rightarrow> nat \<Rightarrow> environment \<Rightarrow> (string \<Rightarrow> err + duration) \<Rightarrow> err + config \<times> 'kv process" where
  "start pf fuel env parseDuration =
     bind_err (Load env parseDuration) (\<lambda>cfg.
     bind_err (LoadIssuer pf (cf_SigningKeyFile cfg) (cf_IssuerURL cfg) (cf_Audience cfg) (cf_TokenTTL cfg)) (\<lambda>tokenIssuer.
     bind_err (wrap_err ''connect to NATS''
       (pf_connect pf (cf_NATSURL cfg) (if cf_NATSCredentialsFile cfg \<noteq> '''' then Some (cf_NATSCredentialsFile cfg) else None))) (\<lambda>_.
     bind_err (wrap_err ''open JetStream'' (pf_jetstream pf)) (\<lambda>_.
     bind_err (wrap_err ''open state bucket'' (NewNATS (pf_keyValue pf) (pf_createKeyValue pf) (cf_KVBucket cfg))) (\<lambda>repository.
     bind_err (wrap_err ''configure presenter verifier''
       (NewPresenterVerifier pf (cf_PresenterIssuerURL cfg) (cf_PresenterClientID cfg) (cf_PresenterGroup cfg))) (\<lambda>presenters.
       Inr (cfg, wire pf fuel cfg tokenIssuer repository presenters)))))))"

text \<open>
  The mux of the process: the metrics of the controller, and the API for everything else. The
  argument \<open>seconds\<close> formats an age in nanoseconds as a floating-point number of seconds.
\<close>

definition metric_line :: "(int \<Rightarrow> string) \<Rightarrow> string \<times> int \<Rightarrow> string" where
  "metric_line seconds metric =
     (let (name, value) = metric;
          kind = (if suffix ''_total'' name then ''counter'' else ''gauge'')
      in ''# TYPE '' @ name @ '' '' @ kind @ [CHR 0x0A] @ name @ '' '' @
         (if name = ''nga_cleanup_oldest_seconds'' then seconds value else itoa value) @ [CHR 0x0A])"

definition metrics_response :: "(int \<Rightarrow> string) \<Rightarrow> controller \<Rightarrow> response" where
  "metrics_response seconds c = (plain 200 (concat (map (metric_line seconds) (metrics c))))\<lparr>rs_Headers :=
     [(''Content-Type'', ''text/plain; version=0.0.4''), (''Cache-Control'', ''no-store'')]\<rparr>"

definition process_serveHTTP :: "(int \<Rightarrow> string) \<Rightarrow> 'kv process \<Rightarrow> controller \<Rightarrow> request \<Rightarrow> response prog" where
  "process_serveHTTP seconds p c r =
     (if \<not> rq_Canonical r then Ret redirect
      else if rq_Segments r = [''metrics''] \<and> method_matches ''GET'' (rq_Method r) then Ret (metrics_response seconds c)
      else serveHTTP (pr_api p) r)"

text \<open>The command line: the exit code, given what key generation and the service return.\<close>

definition main_exit :: "(string \<Rightarrow> err + unit) \<Rightarrow> err + unit \<Rightarrow> string list \<Rightarrow> int" where
  "main_exit keygen service args =
     (if length args = 3 \<and> args ! 1 = ''keygen'' then (case keygen (args ! 2) of Inl _ \<Rightarrow> 1 | Inr _ \<Rightarrow> 0)
      else if length args \<noteq> 1 then 2
      else case service of Inl _ \<Rightarrow> 1 | Inr _ \<Rightarrow> 0)"

text \<open>
  Key generation: a key of the curve P-256, marshalled as PKCS 8, in a PEM block of type
  PRIVATE KEY, written to a file with mode 0600, which only its owner may read (384 = 6 * 64).
\<close>

definition keygen :: "(string \<Rightarrow> err + 'k private_key) \<Rightarrow> ('k private_key \<Rightarrow> err + string) \<Rightarrow> (string \<Rightarrow> string \<Rightarrow> string) \<Rightarrow>
    (string \<Rightarrow> string \<Rightarrow> nat \<Rightarrow> err + unit) \<Rightarrow> string \<Rightarrow> err + unit" where
  "keygen generateKey marshal pemEncode writeFile path =
     bind_err (generateKey ''P-256'') (\<lambda>key.
     bind_err (marshal key) (\<lambda>data.
       writeFile path (pemEncode ''PRIVATE KEY'' data) (6 * 64)))"

section \<open>What a started process satisfies\<close>

lemma start_Inr:
  assumes "start pf fuel env parseDuration = Inr (cfg, p)"
  obtains ti kv pv where "Load env parseDuration = Inr cfg" "p = wire pf fuel cfg ti kv pv"
    "LoadIssuer pf (cf_SigningKeyFile cfg) (cf_IssuerURL cfg) (cf_Audience cfg) (cf_TokenTTL cfg) = Inr ti"
  using assms unfolding start_def bind_err_Inr by auto

lemma NewIssuer_Inr: "NewIssuer pf key url aud ttl = Inr (i, jwk) \<Longrightarrow> i = \<lparr>is_issuerURL = url, is_audience = aud, is_ttl = ttl\<rparr>"
  unfolding NewIssuer_def Let_def by (auto split: prod.split_asm sum.split_asm if_split_asm)

lemma LoadIssuer_Inr: "LoadIssuer pf f url aud ttl = Inr (i, jwk) \<Longrightarrow> i = \<lparr>is_issuerURL = url, is_audience = aud, is_ttl = ttl\<rparr>"
  unfolding LoadIssuer_def bind_err_def by (auto dest: NewIssuer_Inr split: sum.split_asm option.split_asm private_key.split_asm if_split_asm)

lemma sint_add_small:
  fixes a b :: duration
  assumes "0 \<le> sint a" "0 \<le> sint b" "sint a + sint b < 2 ^ 63"
  shows "sint (a + b) = sint a + sint b"
  using assms by (subst sint_word_ariths(1)) (simp add: signed_take_bit_int_eq_self)

text \<open>
  C37: what a process is configured with when it starts. Whatever the environment, the files and
  the network answer: if the start succeeds, tokens live at most five minutes and carry the
  configured issuer; the controller runs; the service has a cleaner exactly when a cleanup
  subject is set; and the claim of a cleanup outlives its request: a claim made at any time t
  ends later than the timeout after t, and until then every other claim of the same slot or event is
  refused as pending.
\<close>

theorem started_process_is_safe:
  assumes "start pf fuel env parseDuration = Inr (cfg, p)" and "sint (cf_CleanupTimeout cfg) + 15000000000 < 2 ^ 63"
  shows "valid_config cfg \<and> is_issuerURL (sv_issuer (pr_service p)) = cf_IssuerURL cfg \<and>
    sint (is_ttl (sv_issuer (pr_service p))) \<le> 300000000000 \<and> 0 < sint (ct_interval (pr_controller p)) \<and> 1 \<le> ct_batch (pr_controller p) \<and>
    (sv_cleaner (pr_service p) \<longleftrightarrow> cf_CleanupSubject cfg \<noteq> '''') \<and>
    (\<forall>g t g' t'. claim_next g t (sv_cleanupLease (pr_service p)) = Inr g' \<and> t' \<le> time_add t (cf_CleanupTimeout cfg) \<longrightarrow>
       claim_next g' t' (sv_cleanupLease (pr_service p)) = Inl ErrCleanupPending)"
proof -
  from start_Inr [OF assms(1)] obtain ti kv pv where l: "Load env parseDuration = Inr cfg" "p = wire pf fuel cfg ti kv pv"
    "LoadIssuer pf (cf_SigningKeyFile cfg) (cf_IssuerURL cfg) (cf_Audience cfg) (cf_TokenTTL cfg) = Inr ti" by blast
  have v: "valid_config cfg" by (rule Load_valid [OF l(1)])
  have i: "fst ti = \<lparr>is_issuerURL = cf_IssuerURL cfg, is_audience = cf_Audience cfg, is_ttl = cf_TokenTTL cfg\<rparr>"
    using LoadIssuer_Inr [of pf _ _ _ _ "fst ti" "snd ti"] l(3) by simp
  have "sint (15 * second) = 15000000000" by (simp add: second_def)
  then have lease: "sint (cf_CleanupTimeout cfg + 15 * second) = sint (cf_CleanupTimeout cfg) + 15000000000"
    using v assms(2) by (subst sint_add_small) (simp_all add: valid_config_def)
  have c: "claim_next g' t' d = Inl ErrCleanupPending"
    if "claim_next g t (cf_CleanupTimeout cfg + 15 * second) = Inr g'" "t' \<le> time_add t (cf_CleanupTimeout cfg)" for g t g' t' d
    using that lease by (auto simp: claim_next_def before_def time_add_def split: if_splits)
  show ?thesis using v i c
    by (auto simp: l(2) wire_def Let_def NewService_def ConfigureCleanupLease_def NewController_def NewCleanup_def valid_config_def)
qed

definition demo_platform :: "(nat, nat) platform" where
  "demo_platform = \<lparr>pf_readFile = (\<lambda>f. Inr ''pem''), pf_pemDecode = (\<lambda>d. Some ''der''), pf_parsePKCS8 = (\<lambda>b. Inr (Ecdsa ''P-256'' 7)),
     pf_parseEC = (\<lambda>b. Inl (ErrOther ''not EC'')), pf_thumbprint = (\<lambda>k. Inr (replicate 32 5)), pf_newSigner = (\<lambda>k kid. Inr ()),
     pf_connect = (\<lambda>u c. Inr ()), pf_jetstream = Inr (), pf_keyValue = (\<lambda>b. Inr 1), pf_createKeyValue = (\<lambda>c. Inr 2),
     pf_newProvider = (\<lambda>u. Inl (ErrOther ''no provider'')), pf_mac = demo_mac, pf_text = (\<lambda>e. ''error''), pf_encodeJWK = (\<lambda>k. JObj [])\<rparr>"

lemma demo_start: "\<exists>cfg p. start demo_platform 3 demo_env (\<lambda>_. Inl (ErrOther ''unused'')) = Inr (cfg, p) \<and> cf_CleanupTimeout cfg = 30 * second"
proof -
  obtain c where c: "Load demo_env (\<lambda>_. Inl (ErrOther ''unused'')) = Inr c" "cf_CleanupTimeout c = 30 * second" "cf_PresenterIssuerURL c = ''''"
    using demo_load [of "\<lambda>_. Inl (ErrOther ''unused'')"] by auto
  then show ?thesis
    by (simp add: start_def bind_err_simps LoadIssuer_def parse_key_def NewIssuer_def NewNATS_def NewPresenterVerifier_def wrap_err_def demo_platform_def Let_def)
qed

theorem started_process_is_safe_witness:
  "\<exists>cfg p. start demo_platform 3 demo_env (\<lambda>_. Inl (ErrOther ''unused'')) = Inr (cfg, p) \<and> valid_config cfg \<and>
     (sv_cleaner (pr_service p) \<longleftrightarrow> cf_CleanupSubject cfg \<noteq> '''')"
proof -
  obtain cfg p where s: "start demo_platform 3 demo_env (\<lambda>_. Inl (ErrOther ''unused'')) = Inr (cfg, p)" "cf_CleanupTimeout cfg = 30 * second"
    using demo_start by blast
  have "sint (cf_CleanupTimeout cfg) + 15000000000 < 2 ^ 63" by (simp add: s(2) second_def)
  from started_process_is_safe [OF s(1) this] s(1) show ?thesis by blast
qed

text \<open>
  A key file that key generation wrote is accepted and was written with mode 0600. The packages
  are used as documented: a key generated on a curve is one of that curve, PEM and PKCS 8 decode
  what they encoded, and a file that was written without an error is read back.
\<close>

lemma generated_key_loads:
  assumes "keygen generateKey marshal pemEncode writeFile path = Inr ()"
    and "\<And>curve key. generateKey curve = Inr key \<Longrightarrow> \<exists>k. key = Ecdsa curve k"
    and "\<And>p content mode. writeFile p content mode = Inr () \<Longrightarrow> pf_readFile pf p = Inr content"
    and "\<And>type d. pf_pemDecode pf (pemEncode type d) = Some d" and "\<And>key d. marshal key = Inr d \<Longrightarrow> pf_parsePKCS8 pf d = Inr key"
    and "\<And>k. pf_thumbprint pf k = Inr (tp k)" and "\<And>k kid. pf_newSigner pf k kid = Inr ()"
  shows "(\<exists>content. writeFile path content (6 * 64) = Inr () \<and> pf_readFile pf path = Inr content) \<and>
    (\<exists>k jwk. LoadIssuer pf path url aud ttl = Inr (\<lparr>is_issuerURL = url, is_audience = aud, is_ttl = ttl\<rparr>, jwk) \<and>
    generateKey ''P-256'' = Inr (Ecdsa ''P-256'' k) \<and> jk_Key jwk = k \<and> jk_KeyID jwk = hex_encode (take 8 (tp k)))"
proof -
  from assms(1) obtain key d where d: "generateKey ''P-256'' = Inr key" "marshal key = Inr d"
    "writeFile path (pemEncode ''PRIVATE KEY'' d) (6 * 64) = Inr ()"
    unfolding keygen_def bind_err_Inr by blast
  from assms(2) [OF d(1)] obtain k where k: "key = Ecdsa ''P-256'' k" by blast
  have "pf_parsePKCS8 pf d = Inr (Ecdsa ''P-256'' k)" using assms(5) [OF d(2)] k by simp
  with assms(3) [OF d(3)] assms(4,6,7) d(1,3) k show ?thesis
    by (auto simp: LoadIssuer_def parse_key_def bind_err_simps NewIssuer_def Let_def)
qed

end
