(* ===== verification/Lifecycle.thy ===== *)
theory Lifecycle
  imports Startup
begin

text \<open>
  The life of the process after its start, the second half of run in cmd/nats-guest-access/main.go:
  the goroutine of the recovery controller, the goroutine that listens, the wait for a signal or an error of
  the listener, the shutdown of the server, and the deferred calls in their order. A step is one move of
  main, of a goroutine, of a request or of the outside; they come in any order. The moves of the
  server follow the documentation of net/http: Shutdown stops listening, so ListenAndServe returns
  ErrServerClosed, and Shutdown returns nil only when no request is in flight; it may return
  an error at any time (its deadline of ten seconds, or the closing of the listener).
\<close>

section \<open>The process\<close>

datatype worker_at = Starting | InPass | Waiting | Finished

datatype server_at = Serving | Closing | Closed

text \<open>Where main is: in the select, in Shutdown, at its deferred calls, waiting for the worker, or gone.\<close>

datatype main_at = Selecting | ShuttingDown | Deferred "err option" | Joining "err option" | Exited "err option"

record life =
  lf_main :: main_at
  lf_signal :: bool           \<comment> \<open>ctx is done: SIGINT or SIGTERM came\<close>
  lf_stopWorker :: bool       \<comment> \<open>workerCtx was cancelled\<close>
  lf_worker :: worker_at      \<comment> \<open>controller.Run; workerDone is closed when it is \<open>Finished\<close>\<close>
  lf_server :: server_at
  lf_errCh :: "err option"    \<comment> \<open>the channel of capacity one\<close>
  lf_requests :: nat          \<comment> \<open>handlers that run\<close>
  lf_nats :: bool             \<comment> \<open>the connection is open\<close>

definition ErrServerClosed :: err where
  "ErrServerClosed = ErrOther ''http: Server closed''"

definition start_life :: life where
  "start_life = \<lparr>lf_main = Selecting, lf_signal = False, lf_stopWorker = False, lf_worker = Starting, lf_server = Serving,
     lf_errCh = None, lf_requests = 0, lf_nats = True\<rparr>"

definition running :: "life \<Rightarrow> bool" where
  "running L \<longleftrightarrow> (case lf_main L of Exited _ \<Rightarrow> False | _ \<Rightarrow> True)"

text \<open>What run returns for the error the listener ended with.\<close>

definition listen_result :: "err \<Rightarrow> err option" where
  "listen_result e = (if errors_is e ErrServerClosed then None else Some e)"

inductive life_step :: "life \<Rightarrow> life \<Rightarrow> bool" where
  signal: "running L \<Longrightarrow> life_step L (L\<lparr>lf_signal := True\<rparr>)"
| request_begins: "running L \<Longrightarrow> lf_server L = Serving \<Longrightarrow> life_step L (L\<lparr>lf_requests := Suc (lf_requests L)\<rparr>)"
| request_ends: "running L \<Longrightarrow> lf_requests L = Suc n \<Longrightarrow> life_step L (L\<lparr>lf_requests := n\<rparr>)"
| pass_begins: "running L \<Longrightarrow> lf_worker L \<in> {Starting, Waiting} \<Longrightarrow> life_step L (L\<lparr>lf_worker := InPass\<rparr>)"
| pass_ends: "running L \<Longrightarrow> lf_worker L = InPass \<Longrightarrow> life_step L (L\<lparr>lf_worker := Waiting\<rparr>)"
| worker_ends: "running L \<Longrightarrow> lf_worker L = Waiting \<Longrightarrow> lf_signal L \<or> lf_stopWorker L \<Longrightarrow> life_step L (L\<lparr>lf_worker := Finished\<rparr>)"
| listen_fails: "running L \<Longrightarrow> lf_server L = Serving \<Longrightarrow> \<not> errors_is e ErrServerClosed \<Longrightarrow>
    life_step L (L\<lparr>lf_server := Closed, lf_errCh := Some e\<rparr>)"
| listen_returns: "running L \<Longrightarrow> lf_server L = Closing \<Longrightarrow>
    life_step L (L\<lparr>lf_server := Closed, lf_errCh := Some ErrServerClosed\<rparr>)"
| select_signal: "lf_main L = Selecting \<Longrightarrow> lf_signal L \<Longrightarrow>
    life_step L (L\<lparr>lf_main := ShuttingDown, lf_server := if lf_server L = Serving then Closing else lf_server L\<rparr>)"
| select_error: "lf_main L = Selecting \<Longrightarrow> lf_errCh L = Some e \<Longrightarrow>
    life_step L (L\<lparr>lf_main := Deferred (listen_result e), lf_errCh := None\<rparr>)"
| shutdown_done: "lf_main L = ShuttingDown \<Longrightarrow> lf_requests L = 0 \<Longrightarrow> life_step L (L\<lparr>lf_main := Deferred None\<rparr>)"
| shutdown_failed: "lf_main L = ShuttingDown \<Longrightarrow> life_step L (L\<lparr>lf_main := Deferred (Some e)\<rparr>)"
| stop_worker: "lf_main L = Deferred r \<Longrightarrow> life_step L (L\<lparr>lf_main := Joining r, lf_stopWorker := True\<rparr>)"
| worker_joined: "lf_main L = Joining r \<Longrightarrow> lf_worker L = Finished \<Longrightarrow> life_step L (L\<lparr>lf_main := Exited r, lf_nats := False\<rparr>)"

inductive life_steps :: "life \<Rightarrow> life \<Rightarrow> bool" where
  stay: "life_steps L L"
| onward: "life_steps L L' \<Longrightarrow> life_step L' L'' \<Longrightarrow> life_steps L L''"

text \<open>The exit code of a run that returned \<open>r\<close>, by the main function.\<close>

definition exit_code :: "err option \<Rightarrow> int" where
  "exit_code r = main_exit (\<lambda>_. Inr ()) (case r of None \<Rightarrow> Inr () | Some e \<Rightarrow> Inl e) [''nats-guest-access'']"

lemma exit_code_iff [simp]: "exit_code r = 0 \<longleftrightarrow> r = None"
  by (cases r) (simp_all add: exit_code_def main_exit_def)

section \<open>What holds of a life\<close>

text \<open>A nil result comes from a shutdown only: the listener alone never ends with ErrServerClosed.\<close>

definition ends_quietly :: "life \<Rightarrow> bool" where
  "ends_quietly L \<longleftrightarrow> lf_signal L \<and> lf_requests L = 0 \<and> lf_server L \<noteq> Serving"

definition life_inv :: "life \<Rightarrow> bool" where
  "life_inv L \<longleftrightarrow>
     (case lf_main L of
        Selecting \<Rightarrow> lf_nats L \<and> lf_server L \<noteq> Closing \<and> (\<forall>e. lf_errCh L = Some e \<longrightarrow> lf_server L = Closed \<and> \<not> errors_is e ErrServerClosed)
      | ShuttingDown \<Rightarrow> lf_nats L \<and> lf_signal L \<and> lf_server L \<noteq> Serving
      | Deferred r \<Rightarrow> lf_nats L \<and> (r = None \<longrightarrow> ends_quietly L)
      | Joining r \<Rightarrow> lf_nats L \<and> lf_stopWorker L \<and> (r = None \<longrightarrow> ends_quietly L)
      | Exited r \<Rightarrow> \<not> lf_nats L \<and> lf_worker L = Finished \<and> (r = None \<longrightarrow> ends_quietly L)) \<and>
     (lf_main L = Selecting \<longrightarrow> lf_server L = Closed \<longrightarrow> lf_errCh L \<noteq> None) \<and>
     (lf_worker L = Finished \<longrightarrow> lf_signal L \<or> lf_stopWorker L)"

lemma life_inv_step:
  assumes "life_step L L'" "life_inv L"
  shows "life_inv L'"
  using assms
  by (cases rule: life_step.cases)
    (auto simp: life_inv_def ends_quietly_def listen_result_def running_def split: main_at.splits)

lemma life_inv_steps: "life_steps L L' \<Longrightarrow> life_inv L \<Longrightarrow> life_inv L'"
  by (induction rule: life_steps.induct) (auto intro: life_inv_step)

lemma life_inv_start: "life_inv start_life"
  by (simp add: life_inv_def start_life_def)

text \<open>
  C39: how the process ends. In every life of it: as long as main runs the connection to NATS is
  open; once main returned the worker is finished, so no pass of the reconciler meets a closed
  connection; and the exit code is 0 only after a signal, with the listener stopped and no
  request in flight. An error of the listener before any signal ends it with exit code 1.
\<close>

theorem process_ends_orderly:
  assumes "life_steps start_life L"
  shows "(lf_nats L \<longleftrightarrow> running L) \<and>
    (\<forall>r. lf_main L = Exited r \<longrightarrow> lf_worker L = Finished \<and>
       (exit_code r = 0 \<longrightarrow> lf_signal L \<and> lf_server L \<noteq> Serving \<and> lf_requests L = 0) \<and>
       (\<not> lf_signal L \<longrightarrow> exit_code r = 1))"
proof -
  have i: "life_inv L" by (rule life_inv_steps [OF assms life_inv_start])
  have one: "exit_code (Some e) = 1" for e by (simp add: exit_code_def main_exit_def)
  show ?thesis
  proof (intro conjI allI impI)
    show "lf_nats L \<longleftrightarrow> running L" using i by (auto simp: life_inv_def running_def split: main_at.splits)
  next
    fix r assume "lf_main L = Exited r"
    with i have w: "lf_worker L = Finished" "r = None \<longrightarrow> ends_quietly L" by (auto simp: life_inv_def)
    then show "lf_worker L = Finished" by simp
    show "lf_signal L" "lf_server L \<noteq> Serving" "lf_requests L = 0" if "exit_code r = 0"
      using w that by (auto simp: ends_quietly_def)
    show "exit_code r = 1" if "\<not> lf_signal L" using w that one by (cases r) (auto simp: ends_quietly_def)
  qed
qed

section \<open>The process can always end\<close>

lemma life_steps_one: "life_step L L' \<Longrightarrow> life_steps L L'"
  by (rule life_steps.onward [OF life_steps.stay])

lemma life_steps_trans: "life_steps L' L'' \<Longrightarrow> life_steps L L' \<Longrightarrow> life_steps L L''"
  by (induction rule: life_steps.induct) (auto intro: life_steps.onward)

text \<open>\<open>quits L\<close>: main can return from \<open>L\<close> on while all requests in flight go on.\<close>

definition quits :: "life \<Rightarrow> bool" where
  "quits L \<longleftrightarrow> (\<exists>L' r. life_steps L L' \<and> lf_main L' = Exited r \<and> lf_requests L' = lf_requests L)"

lemma quits_step: "life_step L L' \<Longrightarrow> lf_requests L' = lf_requests L \<Longrightarrow> quits L' \<Longrightarrow> quits L"
  unfolding quits_def by (metis life_steps_one life_steps_trans)

lemma quits_joining_finished: "lf_main L = Joining r \<Longrightarrow> lf_worker L = Finished \<Longrightarrow> quits L"
  by (rule quits_step [OF life_step.worker_joined]) (auto simp: quits_def intro: life_steps.stay)

lemma quits_joining:
  assumes "lf_main L = Joining r" "lf_stopWorker L"
  shows "quits L"
proof -
  have waiting: "quits L" if "lf_main L = Joining r" "lf_stopWorker L" "lf_worker L = Waiting" for L
    by (rule quits_step [OF life_step.worker_ends]) (use that in \<open>auto simp: running_def intro: quits_joining_finished\<close>)
  have pass: "quits L" if "lf_main L = Joining r" "lf_stopWorker L" "lf_worker L = InPass" for L
    by (rule quits_step [OF life_step.pass_ends]) (use that in \<open>auto simp: running_def intro: waiting\<close>)
  show ?thesis
  proof (cases "lf_worker L")
    case Starting
    show ?thesis
      by (rule quits_step [OF life_step.pass_begins]) (use assms Starting in \<open>auto simp: running_def intro: pass\<close>)
  qed (use assms in \<open>auto intro: pass waiting quits_joining_finished\<close>)
qed

lemma quits_deferred: "lf_main L = Deferred r \<Longrightarrow> quits L"
  by (rule quits_step [OF life_step.stop_worker]) (auto intro: quits_joining)

lemma quits_shutdown: "lf_main L = ShuttingDown \<Longrightarrow> quits L"
  by (rule quits_step [OF life_step.shutdown_failed]) (auto intro: quits_deferred)

text \<open>
  C40: the process can be stopped. From every state it can reach in which a signal or an error
  of the listener has come, main can return, and no request in flight has to end for that:
  neither the wait for the worker nor the shutdown can block it for ever.
\<close>

theorem process_can_always_end:
  assumes "life_steps start_life L" and "lf_signal L \<or> lf_server L = Closed"
  shows "\<exists>L' r. life_steps L L' \<and> lf_main L' = Exited r \<and> lf_requests L' = lf_requests L"
proof -
  have i: "life_inv L" by (rule life_inv_steps [OF assms(1) life_inv_start])
  have "quits L"
  proof (cases "lf_main L")
    case Selecting
    show ?thesis
    proof (cases "lf_signal L")
      case True
      show ?thesis by (rule quits_step [OF life_step.select_signal [OF Selecting True]]) (auto intro: quits_shutdown)
    next
      case False
      with assms(2) i Selecting obtain e where "lf_errCh L = Some e" by (auto simp: life_inv_def)
      show ?thesis by (rule quits_step [OF life_step.select_error [OF Selecting \<open>lf_errCh L = Some e\<close>]]) (auto intro: quits_deferred)
    qed
  next
    case (Exited r)
    then show ?thesis unfolding quits_def using life_steps.stay by blast
  qed (use i in \<open>auto simp: life_inv_def intro: quits_shutdown quits_deferred quits_joining\<close>)
  then show ?thesis by (simp add: quits_def)
qed

section \<open>A life\<close>

text \<open>The listener cannot bind its address: the first pass of the worker ends, then the process.\<close>

definition demo_ended :: life where
  "demo_ended = \<lparr>lf_main = Exited (Some (ErrOther ''bind'')), lf_signal = False, lf_stopWorker = True, lf_worker = Finished,
     lf_server = Closed, lf_errCh = None, lf_requests = 0, lf_nats = False\<rparr>"

definition demo_failing :: life where
  "demo_failing = start_life\<lparr>lf_server := Closed, lf_errCh := Some (ErrOther ''bind'')\<rparr>"

lemma demo_failing_reached: "life_steps start_life demo_failing"
proof (rule life_steps_one)
  have "\<not> errors_is (ErrOther ''bind'') ErrServerClosed" by (simp add: ErrServerClosed_def)
  from life_step.listen_fails [OF _ _ this, of start_life] show "life_step start_life demo_failing"
    by (simp add: demo_failing_def start_life_def running_def)
qed

lemma demo_ended_reached: "life_steps demo_failing demo_ended"
proof -
  let ?e = "ErrOther ''bind''"
  let ?a = "demo_failing\<lparr>lf_main := Deferred (listen_result ?e), lf_errCh := None\<rparr>"
  let ?b = "?a\<lparr>lf_main := Joining (listen_result ?e), lf_stopWorker := True\<rparr>"
  have d: "lf_main demo_failing = Selecting" "lf_errCh demo_failing = Some ?e" "lf_worker demo_failing = Starting"
    by (simp_all add: demo_failing_def start_life_def)
  have r: "listen_result ?e = Some ?e" by (simp add: listen_result_def ErrServerClosed_def)
  have s1: "life_step demo_failing ?a" by (rule life_step.select_error [OF d(1,2)])
  have s2: "life_step ?a ?b" by (rule life_step.stop_worker) simp
  have s3: "life_step ?b (?b\<lparr>lf_worker := InPass\<rparr>)" by (rule life_step.pass_begins) (simp_all add: running_def d)
  have s4: "life_step (?b\<lparr>lf_worker := InPass\<rparr>) (?b\<lparr>lf_worker := Waiting\<rparr>)"
    using life_step.pass_ends [of "?b\<lparr>lf_worker := InPass\<rparr>"] by (simp add: running_def)
  have s5: "life_step (?b\<lparr>lf_worker := Waiting\<rparr>) (?b\<lparr>lf_worker := Finished\<rparr>)"
    using life_step.worker_ends [of "?b\<lparr>lf_worker := Waiting\<rparr>"] by (simp add: running_def)
  have s6: "life_step (?b\<lparr>lf_worker := Finished\<rparr>) demo_ended"
    using life_step.worker_joined [of "?b\<lparr>lf_worker := Finished\<rparr>"] by (simp add: r demo_ended_def demo_failing_def start_life_def)
  show ?thesis by (rule life_steps.onward [OF life_steps.onward [OF life_steps.onward [OF life_steps.onward [OF life_steps.onward [OF
    life_steps_one [OF s1] s2] s3] s4] s5] s6])
qed

theorem process_ends_orderly_witness:
  "life_steps start_life demo_ended \<and> lf_worker demo_ended = Finished \<and> \<not> lf_nats demo_ended \<and> exit_code (Some (ErrOther ''bind'')) = 1"
proof -
  have s: "life_steps start_life demo_ended" by (rule life_steps_trans [OF demo_ended_reached demo_failing_reached])
  from process_ends_orderly [OF s] s show ?thesis by (simp add: demo_ended_def running_def)
qed

theorem process_can_always_end_witness:
  "\<exists>L' r. life_steps demo_failing L' \<and> lf_main L' = Exited r \<and> lf_requests L' = 0"
  using process_can_always_end [OF demo_failing_reached] by (simp add: demo_failing_def start_life_def)

end
