(* ===== verification/Spec2Isabelle.thy ===== *)
theory Spec2Isabelle
  imports Guarantees Management_Facts Liveness Api_Facts Lifecycle
begin

text \<open>
  nats-guest-access gives anonymous guests short-lived tokens for the events of a presenter. This
  development models its Go sources in Isabelle/HOL and proves what makes it correct.

  \<^bold>\<open>The program.\<close> A presenter, authenticated by an OIDC provider, creates events; each has an
  invitation link, a capacity, a state (draft, open, paused, deleting) and cohosts with
  capabilities. A guest exchanges the link for a numbered slot of the event and a signed token,
  keeps the slot with heartbeats and resumes it with a cookie. A slot is given away only after
  the application erased its guest; an event is deleted by erasing all of them and leaving a
  receipt. All state is in one key-value store with revisions, shared by any number of processes:
  every write is a compare-and-set, and a reconciler retries what was interrupted.

  \<^bold>\<open>Which theory models what\<close> (sources under src/):

  \<^item> Prelude: Go's times, durations (64-bit words that wrap), errors with errors.Is, strconv.
    Encoding: hex, base64url, strings.TrimSpace, the application id pattern.
  \<^item> Model: internal/model/model.go, the keys and the authorization helpers of
    internal/access/service.go. Json: the encoding of these structs by encoding/json, and
    the decoding into a struct (case folding, unknown fields, null, duplicates).
  \<^item> Store: the contract of internal/store/store.go as two locales, \<open>shared_store\<close> (what every
    implementation promises while others write and calls fail) and \<open>kv_store\<close>, which is stronger
    and implies it; internal/store/memory.go interprets \<open>kv_store\<close> as \<open>mem\<close>. Nats_Store:
    internal/store/nats.go, which is shown to satisfy \<open>shared_store\<close> over any bucket that behaves
    as JetStream documents: servers that cannot be reached, acknowledgements that are lost,
    markers that deletions leave and that have revisions, revision 0 as no expectation.
  \<^item> Effects: a method of the service is a program, a tree of operations on its environment
    (store, clock, random bytes, UUIDs, the application, the signer, the context), so that the
    same definition is run alone (\<open>run\<close>), judged under any reply (\<open>always\<close>), and interleaved.
  \<^item> Issuer: internal/issuer/issuer.go, Mint and Discovery. Service: construction, digests,
    loading, minting (service.go). Recovery: internal/access/recovery.go, that is backoff, claims,
    cleanSlot, cleanEvent, receipts, Reconcile. Management: the presenter's methods of service.go.
    Sessions: StartSession, RenewSession, HeartbeatSession. Calls: all of them as one interface.
  \<^item> Cleanup_Client: internal/cleanup/nats.go, an interpretation of the locale \<open>cleaner\<close>, what
    the service relies on in its Cleaner. Controller: internal/recovery/controller.go, over the
    locale \<open>reconciler\<close>, which the service's Reconcile interprets.
    Config: internal/config/config.go. Api: internal/api/api.go and presenter.go. Startup:
    the start in cmd/nats-guest-access/main.go with Load, New and JWKS of issuer.go, and the
    generation of keys. Lifecycle:
    the rest of main.go, the goroutines, the signal, the shutdown and the deferred calls, as steps.

  State of the code is a record of the model (Service, Controller, API, Config, the memory
  store); an operation takes it and returns it, or is a program. Functions keep their Go names.

  \<^bold>\<open>The concurrent system.\<close> Concurrency interleaves any number of calls, operation by operation,
  each of which may fail, with any order of listings, any clock and an application that may
  refuse or acknowledge in part. A listing is one operation there, as Memory's is; NATS reads the
  listed keys one after another, each at a later state, which Nats_Store models
  (\<open>nats_list\<close>) and the concurrent system does not. Protocol states, for every program, what it must respect from each
  point on, given which facts of the past it knows; Protocol_Calls, Protocol_Methods and Protocol_Sessions show
  that every method does. Invariant and Reachability carry the global invariant through every
  step. Specification is the abstract machine the service is meant to be: events, numbered slots, guests,
  tokens and erasures, with no calls, revisions or failures; Reachability shows that every step of
  the system is one of its rules in the view of the state or leaves the view alone, and Refinement
  that the histories of the system are histories of the machine. Guarantees draws the
  consequences, from the machine where it knows enough: no token without a slot or an erasure, receipts prove
  erasure, deletion is final, capacity, distinct identities, well-keyed documents. Sequential
  shows that running a call alone is one of these interleavings; Scenario is a concrete history.

  \<^bold>\<open>Runs of single calls.\<close> Runs evaluates operations on known entries, Frames states what a run
  leaves as it was: the keys it may write, and predicates it keeps. Management_Facts,
  Session_Facts and Recovery_Facts say exactly what each method returns and writes on its
  branches, errors included: who may call it, what a join, a heartbeat, a pause, a rotation, a deletion,
  a failed cleanup do, what a failing store can leave of a creation, and the bounds of retries, backoff
  and reports. Liveness shows that one pass of the reconciler frees a due slot that is among the
  batch of oldest-due tasks and whose guest the application acknowledges, whatever becomes of the
  others. Controller gives the exact counters after any number of passes, as the 64-bit words they are.
  Api_Facts lifts this to HTTP: authentication and capabilities of every presenter request, the
  table of error answers under any environment, and the resume cookie as the credential of a slot.

  \<^bold>\<open>Bounds and fuel.\<close> The loops that the code retries five times are recursions on the attempts left.
  cas_attempts_bounded counts their writes. The only unbounded retry is reserveSlots: it takes fuel, one unit for each restart, and yields
  \<open>OutOfFuel\<close> when it is spent; pause_reserves_slots shows that one unit is enough when nothing interferes.
  The ticker of the controller runs for a given number of ticks.

  \<^bold>\<open>Parameters.\<close> HMAC-SHA256, the signature, X.509 and PEM, the OIDC verifier, the NATS request and
  the JetStream bucket are arguments or replies of the environment: packages the code calls. What the service needs of them
  is a named hypothesis where it is used (an injective digest in the safety theorems, the
  documented behaviour of the bucket in \<open>jetstream_laws\<close>). time.ParseDuration and the text of a
  float are arguments as well, because of their floating point; so is the text of an error.

  \<^bold>\<open>Not modelled.\<close> The bytes of JSON documents and of HTTP messages: the model starts at the JSON
  value and the number of bytes it takes, the path segments, the header and cookie values; strings are valid UTF-8 and times stand
  for their RFC 3339 text. The deadlines of a cleanup request, of a pass and of the shutdown are
  errors the environment may reply at any time; the read and write timeouts of the HTTP server are options of net/http.
  Whether the scheduler of Go ever runs a goroutine is not
  modelled: what is shown of the end of the process is that nothing blocks it. The order sort.Slice gives
  to equal keys is unspecified in Go and stable here; no theorem rests on it.
\<close>

end
